(* ===== verification/Tools.thy ===== *)
theory Tools
  imports Prelude
begin

text \<open>
  The string helpers of \<open>src/src/util/tools.cc\<close>: splitting, trimming, number parsing,
  replacing, hexadecimal coding, protocol info strings, escaping and UTF-8 safe cutting.
  Every loop over positions is kept as a loop (a recursive function over the loop's local
  variables) and compared with a structural reference function. A C++ exception or an
  access outside a buffer is a value of \<open>tools_error\<close>.
\<close>

datatype tools_error = Out_of_range | Out_of_bounds_access

section \<open>splitString\<close>

text \<open>The \<open>while\<close> loop: the remaining string, the scan position, the quote flag, the result.\<close>

function split_loop ::
  "char \<Rightarrow> char \<Rightarrow> bool \<Rightarrow> string \<Rightarrow> nat \<Rightarrow> bool \<Rightarrow> string list \<Rightarrow> string list" where
  "split_loop sep quote keep str pos inQuote ret =
     (if pos < length str then
        let inQuote' = (if str ! pos = quote then \<not> inQuote else inQuote) in
        if str ! pos = sep \<and> \<not> inQuote' then
          split_loop sep quote keep (drop (pos + 1) str) 0 inQuote'
            (if 0 < pos \<or> keep then ret @ [take pos str] else ret)
        else split_loop sep quote keep str (pos + 1) inQuote' ret
      else if 0 < pos \<or> keep then ret @ [str] else ret)"
  by pat_completeness auto
termination
  by (relation "measure (\<lambda>(sep, quote, keep, str, pos, inQuote, ret). length str - pos)") auto

declare split_loop.simps [simp del]

definition splitString :: "string \<Rightarrow> char \<Rightarrow> char \<Rightarrow> bool \<Rightarrow> string list" where
  "splitString str sep quote keep = split_loop sep quote keep str 0 False []"

text \<open>Reference: one pass over the characters with the current segment as an accumulator.\<close>

fun segments :: "char \<Rightarrow> char \<Rightarrow> bool \<Rightarrow> string \<Rightarrow> string \<Rightarrow> string list" where
  "segments sep quote q cur [] = [cur]"
| "segments sep quote q cur (c # cs) =
     (let q' = (if c = quote then \<not> q else q) in
      if c = sep \<and> \<not> q' then cur # segments sep quote q' [] cs
      else segments sep quote q' (cur @ [c]) cs)"

lemma split_loop_segments:
  "pos \<le> length str \<Longrightarrow>
   split_loop sep quote keep str pos q ret =
     ret @ filter (\<lambda>s. s \<noteq> [] \<or> keep) (segments sep quote q (take pos str) (drop pos str))"
proof (induction sep quote keep str pos q ret rule: split_loop.induct)
  case (1 sep quote keep str pos q ret)
  show ?case
  proof (cases "pos < length str")
    case True
    define q' where "q' = (if str ! pos = quote then \<not> q else q)"
    have d: "drop pos str = str ! pos # drop (Suc pos) str" using True by (rule drop_nth_Cons)
    show ?thesis
    proof (cases "str ! pos = sep \<and> \<not> q'")
      case hit: True
      let ?ret = "if 0 < pos \<or> keep then ret @ [take pos str] else ret"
      have "split_loop sep quote keep str pos q ret = split_loop sep quote keep (drop (pos + 1) str) 0 q' ?ret"
        using True hit unfolding q'_def by (subst split_loop.simps) (auto simp: Let_def)
      also have "\<dots> = ?ret @ filter (\<lambda>s. s \<noteq> [] \<or> keep) (segments sep quote q' [] (drop (Suc pos) str))"
        using "1.IH"(1) [OF True q'_def hit] by simp
      also have "\<dots> = ret @ filter (\<lambda>s. s \<noteq> [] \<or> keep)
          (take pos str # segments sep quote q' [] (drop (Suc pos) str))"
        using True by (cases "pos = 0") auto
      also have "take pos str # segments sep quote q' [] (drop (Suc pos) str)
          = segments sep quote q (take pos str) (drop pos str)"
        using hit unfolding q'_def d by (auto simp: Let_def)
      finally show ?thesis .
    next
      case miss: False
      have "split_loop sep quote keep str pos q ret = split_loop sep quote keep str (pos + 1) q' ret"
        using True miss unfolding q'_def by (subst split_loop.simps) (auto simp: Let_def)
      also have "\<dots> = ret @ filter (\<lambda>s. s \<noteq> [] \<or> keep)
              (segments sep quote q' (take (Suc pos) str) (drop (Suc pos) str))"
        using "1.IH"(2) [OF True q'_def miss] True by simp
      also have "segments sep quote q' (take (Suc pos) str) (drop (Suc pos) str)
          = segments sep quote q (take pos str) (drop pos str)"
        using miss True unfolding q'_def d by (auto simp: Let_def take_Suc_snoc)
      finally show ?thesis .
    qed
  next
    case False
    with "1.prems" show ?thesis by (subst split_loop.simps) auto
  qed
qed

lemma splitString_segments:
  "splitString str sep quote keep = filter (\<lambda>s. s \<noteq> [] \<or> keep) (segments sep quote False [] str)"
  by (simp add: splitString_def split_loop_segments)

lemma segments_nonempty [simp]: "segments sep quote q cur cs \<noteq> []"
  by (induction cs arbitrary: q cur) (auto simp: Let_def)

lemma join_segments: "join [sep] (segments sep quote q cur cs) = cur @ cs"
  by (induction cs arbitrary: q cur) (auto simp: Let_def join_Cons)

lemma segments_no_sep:
  "quote \<notin> set cs \<Longrightarrow> sep \<notin> set cur \<Longrightarrow> s \<in> set (segments sep quote False cur cs) \<Longrightarrow> sep \<notin> set s"
proof (induction cs arbitrary: cur)
  case (Cons c cs)
  show ?case
  proof (cases "c = sep")
    case True
    then show ?thesis using Cons.prems Cons.IH [of "[]"] by (auto simp: Let_def)
  next
    case False
    then show ?thesis using Cons.prems Cons.IH [of "cur @ [c]"] by (auto simp: Let_def)
  qed
qed simp

lemma segments_append:
  "sep \<notin> set xs \<Longrightarrow> quote \<notin> set xs \<Longrightarrow>
   segments sep quote False cur (xs @ ys) = segments sep quote False (cur @ xs) ys"
  by (induction xs arbitrary: cur) (auto simp: Let_def)

lemma segments_join:
  "xs \<noteq> [] \<Longrightarrow> \<forall>x \<in> set xs. sep \<notin> set x \<and> quote \<notin> set x \<Longrightarrow> sep \<noteq> quote \<Longrightarrow>
   segments sep quote False [] (join [sep] xs) = xs"
proof (induction xs)
  case (Cons x xs)
  show ?case
  proof (cases "xs = []")
    case True
    then show ?thesis using Cons.prems segments_append [of sep x quote "[]" "[]"] by simp
  next
    case False
    then show ?thesis
      using Cons segments_append [of sep x quote "[]" "sep # join [sep] xs"] by (simp add: join_Cons)
  qed
qed simp

text \<open>Splitting with empty parts kept loses nothing: joining the parts gives the string back,
  whatever the quotes, and without them a list of parts survives joining and splitting.\<close>

theorem splitString_roundtrip:
  "join [sep] (splitString str sep quote True) = str \<and>
   (xs \<noteq> [] \<and> (\<forall>x \<in> set xs. sep \<notin> set x \<and> quote \<notin> set x) \<and> sep \<noteq> quote \<longrightarrow>
    splitString (join [sep] xs) sep quote True = xs)"
  by (simp add: splitString_segments join_segments segments_join)

lemma splitString_roundtrip_witness:
  "splitString (join '':'' [''http-get'', ''*'', '''']) CHR '':'' CHR 0x00 True
     = [''http-get'', ''*'', '''']"
  using splitString_roundtrip [of "CHR '':''" "''''" "CHR 0x00" "[''http-get'', ''*'', '''']"]
  by simp

lemma splitString_nonempty_parts: "p \<in> set (splitString str sep quote False) \<Longrightarrow> p \<noteq> []"
  by (simp add: splitString_segments)

section \<open>camelCaseString, trimming, case\<close>

function camel_loop :: "string \<Rightarrow> nat \<Rightarrow> nat \<Rightarrow> string \<Rightarrow> string" where
  "camel_loop str pos end ret =
     (if end < length str then
        if str ! end = CHR ''-'' then
          let ret1 = (if pos < end then ret @ substr str pos (end - pos) else ret);
              end1 = end + 1;
              ret2 = (if end1 < length str then ret1 @ [toupper (str ! end1)] else ret1)
          in camel_loop str (end1 + 1) (end1 + 1) ret2
        else camel_loop str pos (end + 1) ret
      else if pos < end then ret @ substr str pos end else ret)"
  by pat_completeness auto
termination
  by (relation "measure (\<lambda>(str, pos, end, ret). length str - end)") auto

declare camel_loop.simps [simp del]

definition camelCaseString :: "string \<Rightarrow> string" where
  "camelCaseString str = camel_loop str 0 0 []"

fun camel :: "string \<Rightarrow> string" where
  "camel [] = []"
| "camel [c] = (if c = CHR ''-'' then [] else [c])"
| "camel (c # d # cs) =
     (if c = CHR ''-'' then toupper d # camel cs else c # camel (d # cs))"

lemma camel_loop_camel:
  "pos \<le> end \<Longrightarrow> end \<le> length str \<or> (pos = end \<and> end = Suc (length str)) \<Longrightarrow>
   camel_loop str pos end ret = ret @ substr str pos (end - pos) @ camel (drop end str)"
proof (induction str pos "end" ret rule: camel_loop.induct)
  case (1 str pos "end" ret)
  show ?case
  proof (cases "end < length str")
    case True
    note d = drop_nth_Cons [OF True]
    show ?thesis
    proof (cases "str ! end = CHR ''-''")
      case dash: True
      show ?thesis
      proof (cases "Suc end < length str")
        case more: True
        have "camel_loop str (Suc (Suc end)) (Suc (Suc end))
                ((if pos < end then ret @ substr str pos (end - pos) else ret) @ [toupper (str ! Suc end)])
            = ((if pos < end then ret @ substr str pos (end - pos) else ret) @ [toupper (str ! Suc end)])
               @ camel (drop (Suc (Suc end)) str)"
          using "1.IH"(1) [OF True dash refl refl refl] more by (simp add: substr_def)
        then show ?thesis
          using True dash more d drop_nth_Cons [OF more] "1.prems"
          by (auto simp: camel_loop.simps [of str pos "end" ret] Let_def substr_def)
      next
        case last: False
        then have l: "Suc end = length str" using True by simp
        have "camel_loop str (Suc (Suc end)) (Suc (Suc end))
                (if pos < end then ret @ substr str pos (end - pos) else ret)
            = (if pos < end then ret @ substr str pos (end - pos) else ret)"
          using l by (subst camel_loop.simps) simp
        then show ?thesis
          using True dash last d "1.prems" l
          by (auto simp: camel_loop.simps [of str pos "end" ret] Let_def substr_def)
      qed
    next
      case nodash: False
      have "camel_loop str pos (end + 1) ret
          = ret @ substr str pos (Suc end - pos) @ camel (drop (Suc end) str)"
        using "1.IH"(2) [OF True nodash] True "1.prems" by simp
      moreover have "substr str pos (Suc end - pos) = substr str pos (end - pos) @ [str ! end]"
        using True "1.prems" by (simp add: substr_def Suc_diff_le take_Suc_snoc)
      moreover have "camel (str ! end # drop (Suc end) str) = str ! end # camel (drop (Suc end) str)"
        using nodash by (cases "drop (Suc end) str") auto
      ultimately show ?thesis
        using True nodash d by (simp add: camel_loop.simps [of str pos "end" ret])
    qed
  next
    case False
    with "1.prems" show ?thesis
      by (auto simp: camel_loop.simps [of str pos "end" ret] substr_def)
  qed
qed

lemma camelCaseString_eq: "camelCaseString str = camel str"
  by (simp add: camelCaseString_def camel_loop_camel substr_def)

definition trimString :: "string \<Rightarrow> string" where
  "trimString str = (if str = [] then str
     else rev (dropWhile isspace (rev (dropWhile isspace str))))"

definition toLower :: "string \<Rightarrow> string" where
  "toLower str = map tolower str"

definition toUpper :: "string \<Rightarrow> string" where
  "toUpper str = map toupper str"

definition startswith :: "string \<Rightarrow> string \<Rightarrow> bool" where
  "startswith str pre = (take (length pre) str = pre)"

lemma startswith_append: "startswith s p \<longleftrightarrow> (\<exists>q. s = p @ q)"
  by (metis append_eq_conv_conj append_take_drop_id startswith_def)

lemma trimString_ends:
  "trimString str = [] \<or> (\<not> isspace (hd (trimString str)) \<and> \<not> isspace (last (trimString str)))"
proof (cases "trimString str = []")
  case False
  let ?m = "dropWhile isspace str"
  let ?r = "dropWhile isspace (rev ?m)"
  have t: "trimString str = rev ?r" using False by (auto simp: trimString_def)
  with False have r: "?r \<noteq> []" by auto
  have "\<not> isspace (hd ?r)" using r by (rule hd_dropWhile)
  then have "\<not> isspace (last (rev ?r))" using r by (simp add: last_rev)
  moreover have "suffix ?r (rev ?m)" by (rule suffix_dropWhile)
  then have "prefix (rev ?r) ?m" by (simp add: suffix_to_prefix)
  then obtain zs where zs: "?m = rev ?r @ zs" by (rule prefixE)
  have "hd (rev ?r) = hd ?m" using r by (subst zs) simp
  moreover have "?m \<noteq> []" using r by (subst zs) simp
  moreover have "\<not> isspace (hd ?m)" using \<open>?m \<noteq> []\<close> by (rule hd_dropWhile)
  ultimately show ?thesis using t by simp
qed simp

lemma toLower_idem: "toLower (toLower s) = toLower s"
  by (simp add: toLower_def)

section \<open>Reading numbers\<close>

text \<open>
  The guard shared by \<open>stoiString\<close>, \<open>stolString\<close>, \<open>stoulString\<close> and \<open>stoumaxString\<close>
  (a digit, or a minus sign and a digit, in front), and what \<open>strtol\<close> reads after it in
  base 10, the base of every caller that passes none: the sign and the longest run of digits.
\<close>

definition starts_number :: "string \<Rightarrow> bool" where
  "starts_number str =
     (case str of [] \<Rightarrow> False
      | c # cs \<Rightarrow> if c = CHR ''-'' then cs \<noteq> [] \<and> isdigit (hd cs) else isdigit c)"

definition read_int :: "string \<Rightarrow> int" where
  "read_int str =
     (case str of [] \<Rightarrow> 0
      | c # cs \<Rightarrow> if c = CHR ''-'' then - int (nat_of_digits (takeWhile isdigit cs))
                  else int (nat_of_digits (takeWhile isdigit str)))"

definition stoiString :: "string \<Rightarrow> int \<Rightarrow> int" where
  "stoiString str def =
     (if \<not> starts_number str then def
      else let v = read_int str in if - (2 ^ 31) \<le> v \<and> v < 2 ^ 31 then v else def)"

definition stolString :: "string \<Rightarrow> int \<Rightarrow> int" where
  "stolString str def =
     (if \<not> starts_number str then def
      else let v = read_int str in if - (2 ^ 63) \<le> v \<and> v < 2 ^ 63 then v else def)"

text \<open>\<open>strtoul\<close> bounds the magnitude and negates modulo \<open>2^64\<close>; \<open>strtoumax\<close> saturates.\<close>

definition stoulString :: "string \<Rightarrow> int \<Rightarrow> int" where
  "stoulString str def =
     (if \<not> starts_number str then def
      else let v = read_int str in if \<bar>v\<bar> < 2 ^ 64 then v mod 2 ^ 64 else def)"

definition stoumaxString :: "string \<Rightarrow> int \<Rightarrow> int" where
  "stoumaxString str def =
     (if \<not> starts_number str then def
      else let v = read_int str in if \<bar>v\<bar> < 2 ^ 64 then v mod 2 ^ 64 else 2 ^ 64 - 1)"

lemma starts_number_show_int [simp]: "starts_number (show_int i)"
proof (cases "i < 0")
  case True
  then show ?thesis
    by (simp add: starts_number_def show_int_def hd_show_nat_digit)
next
  case False
  obtain c cs where s: "show_nat (nat i) = c # cs" by (meson neq_Nil_conv show_nat_nonempty)
  then have "isdigit c" using hd_show_nat_digit [of "nat i"] by simp
  then have "c \<noteq> CHR ''-''" by (auto simp: isdigit_def)
  with False s \<open>isdigit c\<close> show ?thesis by (simp add: starts_number_def show_int_def)
qed

lemma read_int_show_int [simp]: "read_int (show_int i) = i"
proof (cases "i < 0")
  case True
  then show ?thesis by (simp add: read_int_def show_int_def)
next
  case False
  obtain c cs where s: "show_nat (nat i) = c # cs" by (meson neq_Nil_conv show_nat_nonempty)
  then have "isdigit c" using hd_show_nat_digit [of "nat i"] by simp
  then have "c \<noteq> CHR ''-''" by (auto simp: isdigit_def)
  moreover have "nat_of_digits (takeWhile isdigit (c # cs)) = nat i"
    using s by (metis nat_of_show_nat takeWhile_show_nat)
  ultimately show ?thesis using False s by (simp add: read_int_def show_int_def)
qed

text \<open>
  \<open>std::stoi\<close> and \<open>std::stol\<close> for a width of \<open>bits\<close> and a sign: blanks, a sign, digits. No digit, or a value
  outside the width, is an exception.\<close>

definition std_sto :: "nat \<Rightarrow> string \<Rightarrow> int option" where
  "std_sto bits str =
     (let s = dropWhile isspace str;
          (neg, ds) = (case s of
              c # cs \<Rightarrow> if c = CHR ''-'' then (True, cs) else if c = CHR ''+'' then (False, cs) else (False, s)
            | [] \<Rightarrow> (False, []));
          digits = takeWhile isdigit ds;
          v = (if neg then - int (nat_of_digits digits) else int (nat_of_digits digits))
      in if digits = [] \<or> v < - (2 ^ bits) \<or> 2 ^ bits \<le> v then None else Some v)"

lemma std_sto_show_int:
  "std_sto bits (show_int i) = (if - (2 ^ bits) \<le> i \<and> i < 2 ^ bits then Some i else None)"
proof (cases "i < 0")
  case True
  have "i < 2 ^ bits" using True by (rule order_less_trans) simp
  with True show ?thesis by (auto simp: std_sto_def show_int_def isspace_def)
next
  case False
  obtain c cs where s: "show_nat (nat i) = c # cs" by (meson neq_Nil_conv show_nat_nonempty)
  then have "isdigit c" using hd_show_nat_digit [of "nat i"] by simp
  then have c: "c \<noteq> CHR ''-''" "c \<noteq> CHR ''+''" "\<not> isspace c" by (auto simp: isdigit_def isspace_def)
  have t: "takeWhile isdigit (c # cs) = c # cs" "int (nat_of_digits (c # cs)) = i"
    using s takeWhile_show_nat [of "nat i"] nat_of_show_nat [of "nat i"] False by simp_all
  have "std_sto bits (c # cs) =
      (let v = int (nat_of_digits (c # cs)) in if v < - (2 ^ bits) \<or> 2 ^ bits \<le> v then None else Some v)"
    using c by (simp add: std_sto_def Let_def t(1) del: takeWhile.simps)
  also have "\<dots> = (if - (2 ^ bits) \<le> i \<and> i < 2 ^ bits then Some i else None)"
    unfolding t(2) Let_def by auto
  finally show ?thesis using False s by (simp add: show_int_def)
qed

text \<open>Every integer of 32 (64) bits survives printing and \<open>stoiString\<close> (\<open>stolString\<close>), and an
  integer outside the width gives the default.\<close>

theorem stoiString_roundtrip:
  "stoiString (show_int i) def = (if - (2 ^ 31) \<le> i \<and> i < 2 ^ 31 then i else def) \<and>
   stolString (show_int i) def = (if - (2 ^ 63) \<le> i \<and> i < 2 ^ 63 then i else def)"
  by (simp add: stoiString_def stolString_def Let_def)

lemma stoiString_range:
  "stoiString str def = def \<or> (- (2 ^ 31) \<le> stoiString str def \<and> stoiString str def < 2 ^ 31)"
  by (simp add: stoiString_def Let_def)

section \<open>reduceString, replaceString, replaceAllString\<close>

text \<open>\<open>std::unique\<close>: a character is dropped when it equals the last one kept, and equals \<open>ch\<close>.\<close>

fun unique_run :: "char \<Rightarrow> char \<Rightarrow> string \<Rightarrow> string" where
  "unique_run ch lst [] = []"
| "unique_run ch lst (c # cs) =
     (if lst = c \<and> lst = ch then unique_run ch lst cs else c # unique_run ch c cs)"

definition reduceString :: "string \<Rightarrow> char \<Rightarrow> string" where
  "reduceString str ch = (case str of [] \<Rightarrow> [] | c # cs \<Rightarrow> c # unique_run ch c cs)"

fun no_double :: "char \<Rightarrow> string \<Rightarrow> bool" where
  "no_double ch (c # d # cs) = (\<not> (c = ch \<and> d = ch) \<and> no_double ch (d # cs))"
| "no_double ch _ = True"

lemma unique_run_no_double: "no_double ch (lst # unique_run ch lst cs)"
  by (induction cs arbitrary: lst) auto

lemma unique_run_id: "no_double ch (lst # cs) \<Longrightarrow> unique_run ch lst cs = cs"
  by (induction cs arbitrary: lst) auto

lemma reduceString_no_double: "no_double ch (reduceString str ch)"
  by (auto simp: reduceString_def unique_run_no_double split: list.splits)

lemma reduceString_idem: "reduceString (reduceString str ch) ch = reduceString str ch"
  by (auto simp: reduceString_def unique_run_id unique_run_no_double split: list.splits)

lemma unique_run_filter: "filter (\<lambda>c. c \<noteq> ch) (unique_run ch lst cs) = filter (\<lambda>c. c \<noteq> ch) cs"
  by (induction cs arbitrary: lst) auto

definition replace_at :: "string \<Rightarrow> nat \<Rightarrow> nat \<Rightarrow> string \<Rightarrow> string" where
  "replace_at str p n to = take p str @ to @ drop (p + n) str"

definition replaceString :: "string \<Rightarrow> string \<Rightarrow> string \<Rightarrow> string" where
  "replaceString str from to =
     (case find_sub_from from str 0 of None \<Rightarrow> str | Some p \<Rightarrow> replace_at str p (length from) to)"

text \<open>
  The loop of \<open>replaceAllString\<close> may run for ever (an empty \<open>from\<close> is found again after each
  replacement), so it is a partial function: not returning is \<^term>\<open>None\<close>.
\<close>

partial_function (option) replaceAll_loop ::
  "string \<Rightarrow> string \<Rightarrow> string \<Rightarrow> nat option \<Rightarrow> string option" where
  "replaceAll_loop from to str startPos =
     (if startPos = None then Some str
      else replaceAll_loop from to (replace_at str (the startPos) (length from) to)
          (find_sub_from from (replace_at str (the startPos) (length from) to) (the startPos + length to)))"

definition replaceAllString :: "string \<Rightarrow> string \<Rightarrow> string \<Rightarrow> string option" where
  "replaceAllString str from to = replaceAll_loop from to str (find_sub_from from str 0)"

text \<open>Reference: the leftmost non-overlapping occurrences, replaced in one pass.\<close>

function replace_ref :: "string \<Rightarrow> string \<Rightarrow> string \<Rightarrow> string" where
  "replace_ref from to s =
     (if from = [] then s
      else case find_sub from s of None \<Rightarrow> s
        | Some p \<Rightarrow> take p s @ to @ replace_ref from to (drop (p + length from) s))"
  by pat_completeness auto
termination
proof (relation "measure (\<lambda>(from, to, s). length s)", goal_cases)
  case (2 "from" to s p)
  then show ?case using find_sub_Some [of "from" s p] by (cases "from") auto
qed simp

declare replace_ref.simps [simp del]

lemma replaceAll_loop_ref:
  assumes "from \<noteq> []"
  shows "replaceAll_loop from to (pre @ s) (map_option ((+) (length pre)) (find_sub from s))
         = Some (pre @ replace_ref from to s)"
  using assms
proof (induction "length s" arbitrary: pre s rule: less_induct)
  case less
  show ?case
  proof (cases "find_sub from s")
    case None
    then show ?thesis
      using less.prems by (simp add: replaceAll_loop.simps replace_ref.simps [of "from" to s])
  next
    case (Some p)
    let ?s = "drop (p + length from) s"
    let ?pre = "pre @ take p s @ to"
    have p: "p + length from \<le> length s" using find_sub_Some [OF Some] by simp
    have e: "replace_at (pre @ s) (length pre + p) (length from) to = ?pre @ ?s"
      using p by (simp add: replace_at_def add.assoc)
    have f: "find_sub_from from (?pre @ ?s) (length pre + p + length to)
        = map_option ((+) (length ?pre)) (find_sub from ?s)"
      using p by (simp add: find_sub_from_def min_absorb2 add.assoc)
    have "length ?s < length s" using p less.prems by (cases "from") auto
    then have "replaceAll_loop from to (?pre @ ?s) (map_option ((+) (length ?pre)) (find_sub from ?s))
        = Some (?pre @ replace_ref from to ?s)" by (rule less.hyps) (rule less.prems)
    then show ?thesis
      using Some less.prems
      by (subst replaceAll_loop.simps) (simp only: Some option.map option.sel e f,
          simp add: Some replace_ref.simps [of "from" to s])
  qed
qed

text \<open>\<open>replaceAllString\<close> returns for every non-empty pattern, with each leftmost
  non-overlapping occurrence replaced once, also when the replacement holds the pattern.\<close>

theorem replaceAllString_returns:
  assumes "from \<noteq> []"
  shows "replaceAllString str from to = Some (replace_ref from to str)"
  using replaceAll_loop_ref [OF assms, of to "[]" str]
  by (simp add: replaceAllString_def find_sub_from_def option.map_ident)

lemma replaceAllString_returns_witness:
  "replaceAllString ''a&b&'' ''&'' ''&amp;'' = Some ''a&amp;b&amp;''"
  using replaceAllString_returns [of "''&''" "''a&b&''" "''&amp;''"]
  by (simp add: replace_ref.simps)

section \<open>expandNumbersString\<close>

text \<open>
  Each maximal run of digits is read by \<open>strtoumax\<close> and printed again, padded with zeros to
  \<open>size\<close> or to its own length; a run that saturates (\<open>UINTMAX_MAX\<close>) is copied.
\<close>

definition zero_pad :: "nat \<Rightarrow> nat \<Rightarrow> string" where
  "zero_pad width n = replicate (width - length (show_nat n)) (CHR ''0'') @ show_nat n"

definition uintmax_max :: nat where
  "uintmax_max = 2 ^ 64 - 1"

definition expand_run :: "nat \<Rightarrow> string \<Rightarrow> string" where
  "expand_run sz matchStr =
     (let matchInt = min (nat_of_digits matchStr) uintmax_max in
      if matchInt = uintmax_max then matchStr
      else zero_pad (if length matchStr < sz then sz else length matchStr) matchInt)"

function expand_loop :: "nat \<Rightarrow> string \<Rightarrow> string \<Rightarrow> string" where
  "expand_loop sz str result =
     (if dropWhile (\<lambda>c. \<not> isdigit c) str = [] then result @ str
      else expand_loop sz (dropWhile isdigit (dropWhile (\<lambda>c. \<not> isdigit c) str))
        (result @ takeWhile (\<lambda>c. \<not> isdigit c) str @
         expand_run sz (takeWhile isdigit (dropWhile (\<lambda>c. \<not> isdigit c) str))))"
  by pat_completeness auto
termination
proof (relation "measure (\<lambda>(sz, str, result). length str)", goal_cases)
  case (2 sz str result)
  let ?r = "dropWhile (\<lambda>c. \<not> isdigit c) str"
  have "length ?r \<le> length str" by (rule length_dropWhile_le)
  moreover obtain c cs where r: "?r = c # cs" using 2 by (cases ?r) auto
  then have "isdigit c" using hd_dropWhile [of "\<lambda>c. \<not> isdigit c" str] by simp
  then have "length (dropWhile isdigit ?r) < length ?r"
    using r length_dropWhile_le [of isdigit cs] by (simp add: le_imp_less_Suc)
  ultimately show ?case by simp
qed simp

declare expand_loop.simps [simp del]

definition expandNumbersString :: "string \<Rightarrow> nat \<Rightarrow> string" where
  "expandNumbersString str sz = expand_loop sz str []"

lemma length_zero_pad: "length (show_nat n) \<le> w \<Longrightarrow> length (zero_pad w n) = w"
  by (simp add: zero_pad_def)

lemma nat_of_digits_bound: "nat_of_digits s < 10 ^ length s \<or> \<not> (\<forall>c \<in> set s. isdigit c)"
proof (induction s rule: rev_induct)
  case (snoc c s)
  show ?case
  proof (cases "\<forall>c \<in> set (s @ [c]). isdigit c")
    case True
    with snoc have "nat_of_digits s < 10 ^ length s" by simp
    moreover have "digit_val c < 10" using True by (simp add: digit_val_less)
    ultimately have "10 * nat_of_digits s + digit_val c < 10 * 10 ^ length s" by linarith
    then show ?thesis by simp
  qed simp
qed simp

lemma length_show_nat_le: "n < 10 ^ k \<Longrightarrow> 0 < k \<Longrightarrow> length (show_nat n) \<le> k"
proof (induction n arbitrary: k rule: show_nat.induct)
  case (1 n)
  show ?case
  proof (cases "n < 10")
    case True
    with "1.prems" show ?thesis by (simp add: show_nat.simps [of n])
  next
    case False
    then obtain k' where k: "k = Suc k'" and k': "0 < k'"
      using "1.prems" by (cases k) (auto, metis gr0I power_0 less_one mult.right_neutral)
    then have "n div 10 < 10 ^ k'" using "1.prems" by auto
    then have "length (show_nat (n div 10)) \<le> k'" using "1.IH" False k' by simp
    with False k show ?thesis by (simp add: show_nat.simps [of n])
  qed
qed

text \<open>A run of digits that does not saturate keeps its value and gets the full width.\<close>

lemma nat_of_digits_zero: "nat_of_digits (replicate k (CHR ''0'')) = 0"
  by (induction k) (simp_all add: nat_of_digits_def digit_val_def)

lemma nat_of_digits_zeros: "nat_of_digits (replicate k (CHR ''0'') @ s) = nat_of_digits s"
  by (induction s rule: rev_induct)
     (simp_all add: nat_of_digits_zero append_assoc [symmetric] del: append_assoc)

lemma expand_run_value:
  assumes "\<forall>c \<in> set m. isdigit c" and "m \<noteq> []" and "nat_of_digits m < uintmax_max"
  shows "length (expand_run sz m) = max sz (length m) \<and>
         nat_of_digits (expand_run sz m) = nat_of_digits m"
proof -
  have "nat_of_digits m < 10 ^ length m" using nat_of_digits_bound assms(1) by blast
  then have "length (show_nat (nat_of_digits m)) \<le> length m"
    using assms(2) by (intro length_show_nat_le) auto
  then show ?thesis
    using assms by (auto simp: expand_run_def Let_def min_def length_zero_pad zero_pad_def
        nat_of_digits_zeros split: if_splits)
qed

end
