(* ===== verification/Tools_Text.thy ===== *)
theory Tools_Text
  imports Tools
begin

text \<open>
  The second half of \<open>src/src/util/tools.cc\<close>: hexadecimal coding, protocol info strings,
  backslash escaping, the 32-bit string hash and cutting UTF-8 text to a length.
\<close>

section \<open>hexEncode and hexDecodeString\<close>

definition hexChars :: string where
  "hexChars = ''0123456789abcdef''"

fun hexEncode :: "string \<Rightarrow> string" where
  "hexEncode [] = []"
| "hexEncode (c # cs) = hexChars ! (code_of c div 16) # hexChars ! (code_of c mod 16) # hexEncode cs"

text \<open>
  \<open>strchr(hexChars, c) - hexChars\<close>, with 0 for a character that is not found; \<open>strchr\<close>
  finds the terminating zero too, at position 16.
\<close>

definition hex_index :: "char \<Rightarrow> nat" where
  "hex_index c = (case find_char c (hexChars @ [CHR 0x00]) of None \<Rightarrow> 0 | Some i \<Rightarrow> i)"

text \<open>With an odd length the last round reads and writes one byte beyond the buffers.\<close>

fun hexDecodeString :: "string \<Rightarrow> tools_error + string" where
  "hexDecodeString [] = Inr []"
| "hexDecodeString [c] = Inl Out_of_bounds_access"
| "hexDecodeString (c # d # cs) =
     (case hexDecodeString cs of Inl e \<Rightarrow> Inl e
      | Inr r \<Rightarrow> Inr (char_of (or (hex_index c * 16) (hex_index d)) # r))"

lemma hex_digit_inverse:
  assumes "n < 16"
  shows "hex_index (hexChars ! n) = n"
proof -
  have "list_all (\<lambda>n. hex_index (hexChars ! n) = n) [0..<16]" by code_simp
  then show ?thesis using assms by (simp add: list_all_iff)
qed

lemma or_nibbles: "lo < 16 \<Longrightarrow> or (hi * 16) lo = hi * 16 + (lo :: nat)"
proof -
  assume "lo < 16"
  have "or (push_bit 4 hi) (take_bit 4 lo) = push_bit 4 hi + take_bit 4 lo"
    by (rule disjunctive_add [symmetric]) (auto simp: bit_simps)
  then show ?thesis
    using \<open>lo < 16\<close> by (simp add: push_bit_eq_mult take_bit_nat_eq_self)
qed

text \<open>Decoding undoes encoding for every byte string.\<close>

theorem hexDecode_hexEncode: "hexDecodeString (hexEncode s) = Inr s"
proof (induction s)
  case (Cons c s)
  have "code_of c div 16 < 16" using code_of_less [of c] by linarith
  then show ?case
    using Cons by (simp add: hex_digit_inverse or_nibbles)
qed simp

lemma hexEncode_length: "length (hexEncode s) = 2 * length s"
  by (induction s) auto

section \<open>Protocol info\<close>

definition PROTOCOL :: string where
  "PROTOCOL = ''http-get''"

definition mimeTypesToCsv :: "string list \<Rightarrow> string" where
  "mimeTypesToCsv mimeTypes =
     (if mimeTypes = [] then []
      else PROTOCOL @ '':*:'' @ join ('':*,'' @ PROTOCOL @ '':*:'') mimeTypes @ '':*'')"

definition renderProtocolInfo :: "string \<Rightarrow> string \<Rightarrow> string \<Rightarrow> string" where
  "renderProtocolInfo mimetype protocol extend =
     (if mimetype \<noteq> [] \<and> protocol \<noteq> [] then
        if extend \<noteq> [] then protocol @ '':*:'' @ mimetype @ '':'' @ extend
        else protocol @ '':*:'' @ mimetype @ '':*''
      else PROTOCOL @ '':*:*:*'')"

definition getMTFromProtocolInfo :: "string \<Rightarrow> string" where
  "getMTFromProtocolInfo protocol =
     (let parts = splitString protocol (CHR '':'') (CHR 0x00) False in
      if length parts > 2 then parts ! 2 else [])"

definition getProtocol :: "string \<Rightarrow> string" where
  "getProtocol protocolInfo =
     (case find_char (CHR '':'') protocolInfo of
        None \<Rightarrow> PROTOCOL
      | Some pos \<Rightarrow> if pos = 0 then PROTOCOL else substr protocolInfo 0 pos)"

definition plain_field :: "string \<Rightarrow> bool" where
  "plain_field s = (s \<noteq> [] \<and> CHR '':'' \<notin> set s \<and> CHR 0x00 \<notin> set s)"

lemma segments_field:
  assumes "plain_field x"
  shows "segments (CHR '':'') (CHR 0x00) False [] (x @ CHR '':'' # ys)
       = x # segments (CHR '':'') (CHR 0x00) False [] ys"
  using assms segments_append [of "CHR '':''" x "CHR 0x00" "[]" "CHR '':'' # ys"]
  by (simp add: plain_field_def)

text \<open>The protocol and the mime type put into a protocol info string are read back from it,
  whatever the fourth field holds.\<close>

theorem protocolInfo_roundtrip:
  assumes "plain_field mimetype" and "plain_field protocol"
  shows "getMTFromProtocolInfo (renderProtocolInfo mimetype protocol extend) = mimetype \<and>
         getProtocol (renderProtocolInfo mimetype protocol extend) = protocol"
proof
  define ext where "ext = (if extend \<noteq> [] then extend else ''*'')"
  have r: "renderProtocolInfo mimetype protocol extend
      = protocol @ CHR '':'' # ''*'' @ CHR '':'' # mimetype @ CHR '':'' # ext"
    using assms by (auto simp: renderProtocolInfo_def plain_field_def ext_def)
  have star: "plain_field ''*''" by (simp add: plain_field_def)
  have "filter (\<lambda>s. s \<noteq> [] \<or> False) (segments (CHR '':'') (CHR 0x00) False []
      (renderProtocolInfo mimetype protocol extend))
      = protocol # ''*'' # mimetype #
        filter (\<lambda>s. s \<noteq> [] \<or> False) (segments (CHR '':'') (CHR 0x00) False [] ext)"
    unfolding r segments_field [OF assms(2)] segments_field [OF star] segments_field [OF assms(1)]
    using assms by (simp add: plain_field_def)
  then show "getMTFromProtocolInfo (renderProtocolInfo mimetype protocol extend) = mimetype"
    unfolding getMTFromProtocolInfo_def splitString_segments by (simp add: Let_def)
  show "getProtocol (renderProtocolInfo mimetype protocol extend) = protocol"
    unfolding r using assms
    by (simp add: getProtocol_def find_char_append plain_field_def substr_def)
qed

lemma protocolInfo_roundtrip_witness:
  "getMTFromProtocolInfo (renderProtocolInfo ''audio/mpeg'' ''http-get'' ''DLNA.ORG_PN=MP3'') = ''audio/mpeg''"
  using protocolInfo_roundtrip [of "''audio/mpeg''" "''http-get''" "''DLNA.ORG_PN=MP3''"]
  by (simp add: plain_field_def)

section \<open>escape\<close>

text \<open>
  The \<open>do while\<close> loop: it looks for the next escape character and the next character to
  escape from \<open>last\<close> on, unless an earlier round has seen that none is left.
\<close>

definition next_hit :: "string \<Rightarrow> char \<Rightarrow> char \<Rightarrow> nat \<Rightarrow> bool \<Rightarrow> bool \<Rightarrow> nat option" where
  "next_hit s escapeChar toEscape lst possibleMoreEsc possibleMoreChar =
     (let nextEsc = (if possibleMoreEsc then find_from escapeChar s lst else None);
          next = (if possibleMoreChar then find_from toEscape s lst else None)
      in if next = None \<or> (nextEsc \<noteq> None \<and> the nextEsc < the next) then nextEsc else next)"

function escape_loop :: "string \<Rightarrow> char \<Rightarrow> char \<Rightarrow> nat \<Rightarrow> bool \<Rightarrow> bool \<Rightarrow> string \<Rightarrow> string" where
  "escape_loop s escapeChar toEscape lst possibleMoreEsc possibleMoreChar buf =
     (let next = (case next_hit s escapeChar toEscape lst possibleMoreEsc possibleMoreChar of
                    None \<Rightarrow> length s | Some i \<Rightarrow> i);
          buf1 = buf @ substr s lst (next - lst);
          buf2 = (if next < length s then buf1 @ [CHR 0x5C, s ! next] else buf1)
      in if lst \<le> next \<and> Suc next < length s
         then escape_loop s escapeChar toEscape (Suc next)
                (possibleMoreEsc \<and> find_from escapeChar s lst \<noteq> None)
                (possibleMoreChar \<and> find_from toEscape s lst \<noteq> None) buf2
         else buf2)"
  by pat_completeness auto
termination
  by (relation "measure (\<lambda>(s, escapeChar, toEscape, lst, pe, pc, buf). length s - lst)") auto

declare escape_loop.simps [simp del]

definition escape :: "string \<Rightarrow> char \<Rightarrow> char \<Rightarrow> string" where
  "escape s escapeChar toEscape = escape_loop s escapeChar toEscape 0 True True []"

text \<open>Reference: a backslash in front of every occurrence of either character.\<close>

definition escape_ref :: "char \<Rightarrow> char \<Rightarrow> string \<Rightarrow> string" where
  "escape_ref e t s = concat (map (\<lambda>c. if c = e \<or> c = t then [CHR 0x5C, c] else [c]) s)"

lemma escape_ref_clean: "e \<notin> set xs \<Longrightarrow> t \<notin> set xs \<Longrightarrow> escape_ref e t xs = xs"
  by (induction xs) (auto simp: escape_ref_def)

lemma next_hit_spec:
  assumes "\<not> pe \<Longrightarrow> e \<notin> set (drop lst s)" and "\<not> pc \<Longrightarrow> t \<notin> set (drop lst s)"
  shows "case next_hit s e t lst pe pc of
      None \<Rightarrow> e \<notin> set (drop lst s) \<and> t \<notin> set (drop lst s)
    | Some i \<Rightarrow> lst \<le> i \<and> i < length s \<and> (s ! i = e \<or> s ! i = t) \<and>
        e \<notin> set (take (i - lst) (drop lst s)) \<and> t \<notin> set (take (i - lst) (drop lst s))"
proof -
  define fe where "fe = (if pe then find_from e s lst else None)"
  define ft where "ft = (if pc then find_from t s lst else None)"
  have e0: "fe = None \<Longrightarrow> e \<notin> set (drop lst s)"
    using assms(1) by (cases pe) (auto simp: fe_def find_from_None)
  have t0: "ft = None \<Longrightarrow> t \<notin> set (drop lst s)"
    using assms(2) by (cases pc) (auto simp: ft_def find_from_None)
  have e1: "lst \<le> i \<and> i < length s \<and> s ! i = e \<and> e \<notin> set (take (i - lst) (drop lst s))"
    if "fe = Some i" for i using that by (auto simp: fe_def dest!: find_from_Some split: if_splits)
  have t1: "lst \<le> i \<and> i < length s \<and> s ! i = t \<and> t \<notin> set (take (i - lst) (drop lst s))"
    if "ft = Some i" for i using that by (auto simp: ft_def dest!: find_from_Some split: if_splits)
  have nh: "next_hit s e t lst pe pc = (if ft = None \<or> (fe \<noteq> None \<and> the fe < the ft) then fe else ft)"
    unfolding next_hit_def Let_def fe_def ft_def by (rule refl)
  have sub: "x \<notin> set (take a xs)" if "x \<notin> set (take b xs)" "a \<le> b" for a b x and xs :: string
    using that set_take_subset_set_take [of a b xs] by blast
  have sub': "x \<notin> set (take a xs)" if "x \<notin> set xs" for a x and xs :: string
    using that set_take_subset [of a xs] by blast
  show ?thesis
  proof (cases fe)
    case None
    then show ?thesis
      unfolding nh using e0 t0 t1 sub' [of _ "drop lst s"] by (cases ft) auto
  next
    case (Some i)
    note i = e1 [OF Some]
    show ?thesis
    proof (cases ft)
      case None
      with Some i t0 sub' show ?thesis unfolding nh by auto
    next
      case (Some j)
      note j = t1 [OF Some]
      have "i < j \<Longrightarrow> t \<notin> set (take (i - lst) (drop lst s))"
        and "\<not> i < j \<Longrightarrow> e \<notin> set (take (j - lst) (drop lst s))"
        using i j sub [of t "j - lst" "drop lst s" "i - lst"] sub [of e "i - lst" "drop lst s" "j - lst"]
        by auto
      then show ?thesis using Some \<open>fe = Some i\<close> i j unfolding nh by (cases "i < j") auto
    qed
  qed
qed

lemma escape_loop_ref:
  "lst \<le> length s \<Longrightarrow> (\<not> pe \<Longrightarrow> e \<notin> set (drop lst s)) \<Longrightarrow> (\<not> pc \<Longrightarrow> t \<notin> set (drop lst s)) \<Longrightarrow>
   escape_loop s e t lst pe pc buf = buf @ escape_ref e t (drop lst s)"
proof (induction s e t lst pe pc buf rule: escape_loop.induct)
  case (1 s e t lst pe pc buf)
  note spec = next_hit_spec [of pe e lst s pc t, OF "1.prems"(2,3)]
  show ?case
  proof (cases "next_hit s e t lst pe pc")
    case None
    with spec have "e \<notin> set (drop lst s)" and "t \<notin> set (drop lst s)" by auto
    with None "1.prems"(1) show ?thesis
      by (subst escape_loop.simps) (simp add: Let_def substr_def escape_ref_clean)
  next
    case (Some i)
    with spec have i: "lst \<le> i" "i < length s" "s ! i = e \<or> s ! i = t"
      "e \<notin> set (take (i - lst) (drop lst s))" "t \<notin> set (take (i - lst) (drop lst s))" by auto
    have split: "drop lst s = take (i - lst) (drop lst s) @ s ! i # drop (Suc i) s"
      using i(1,2) by (metis append_take_drop_id drop_drop drop_nth_Cons le_add_diff_inverse2)
    have r: "escape_ref e t (drop lst s)
        = take (i - lst) (drop lst s) @ [CHR 0x5C, s ! i] @ escape_ref e t (drop (Suc i) s)"
      using escape_ref_clean [OF i(4,5)] i(3) by (subst split) (auto simp: escape_ref_def)
    have mono: "set (drop (Suc i) s) \<subseteq> set (drop lst s)"
      using i(1) by (intro set_drop_subset_set_drop) simp
    show ?thesis
    proof (cases "Suc i < length s")
      case True
      have pe': "e \<notin> set (drop (Suc i) s)" if "\<not> (pe \<and> find_from e s lst \<noteq> None)"
        using that "1.prems"(2) mono by (auto simp: find_from_None)
      have pc': "t \<notin> set (drop (Suc i) s)" if "\<not> (pc \<and> find_from t s lst \<noteq> None)"
        using that "1.prems"(3) mono by (auto simp: find_from_None)
      show ?thesis
        using "1.IH" [OF refl refl refl] True Some i(1,2) pe' pc' r
        by (subst escape_loop.simps) (simp add: Let_def substr_def)
    next
      case False
      with i(2) have "drop (Suc i) s = []" by simp
      with False Some i(1,2) r show ?thesis
        by (subst escape_loop.simps) (simp add: Let_def substr_def escape_ref_def)
    qed
  qed
qed

text \<open>\<open>escape\<close> puts a backslash in front of each occurrence of the two characters and changes
  nothing else.\<close>

theorem escape_correct: "escape s escapeChar toEscape = escape_ref escapeChar toEscape s"
  using escape_loop_ref [of 0 s True escapeChar True toEscape "[]"] by (simp add: escape_def)

section \<open>stringHash, fallbackString, getValueOrDefault\<close>

definition fallbackString :: "string \<Rightarrow> string \<Rightarrow> string" where
  "fallbackString first fallback = (if first = [] then fallback else first)"

text \<open>\<open>char\<close> is signed, as on x86-64: it is sign-extended before the exclusive or.\<close>

definition stringHash :: "string \<Rightarrow> 32 word" where
  "stringHash str =
     foldl (\<lambda>h ch. xor (push_bit 5 h + h) (scast (word_of_nat (code_of ch) :: 8 word))) 5381 str"

fun getValueOrDefault :: "(string \<times> string) list \<Rightarrow> string \<Rightarrow> string \<Rightarrow> string" where
  "getValueOrDefault [] key defval = defval"
| "getValueOrDefault ((k, v) # m) key defval = (if k = key then v else getValueOrDefault m key defval)"

lemma getValueOrDefault_map_of:
  "getValueOrDefault m key defval = (case map_of m key of None \<Rightarrow> defval | Some v \<Rightarrow> v)"
  by (induction m key defval rule: getValueOrDefault.induct) auto

lemma stringHash_snoc:
  "stringHash (s @ [c]) = xor (33 * stringHash s) (scast (word_of_nat (code_of c) :: 8 word))"
  by (simp add: stringHash_def push_bit_eq_mult)

section \<open>getValidUTF8CutPosition and limitString\<close>

definition has_bits :: "char \<Rightarrow> nat \<Rightarrow> bool" where
  "has_bits c m = (and (code_of c) m = m)"

definition getValidUTF8CutPosition :: "string \<Rightarrow> int \<Rightarrow> tools_error + int" where
  "getValidUTF8CutPosition str cutpos =
     (let len = int (length str); at = (\<lambda>i. str ! nat i) in
      if len = 0 \<or> cutpos > len then Inr (- 1)
      else if cutpos < 0 \<or> cutpos = len then Inl Out_of_range
      else if has_bits (at cutpos) 0x80 then
        if cutpos - 1 \<ge> 0 \<and> (has_bits (at (cutpos - 1)) 0xc2 \<or> has_bits (at (cutpos - 1)) 0xe2
              \<or> has_bits (at (cutpos - 1)) 0xf0) then Inr (cutpos - 1)
        else if cutpos - 2 \<ge> 0 \<and> (has_bits (at (cutpos - 2)) 0xe2 \<or> has_bits (at (cutpos - 2)) 0xf0)
          then Inr (cutpos - 2)
        else if cutpos - 3 \<ge> 0 then Inr (cutpos - 3)
        else Inr (- 1)
      else Inr cutpos)"

text \<open>
  \<open>stringLimit - ellipse.size()\<close> wraps below 0 for a limit under 3, and the conversion to
  \<open>ssize_t\<close> makes it the negative difference. \<open>substr(0, -1)\<close> is the whole string.
\<close>

definition limitString :: "nat \<Rightarrow> string \<Rightarrow> tools_error + string" where
  "limitString stringLimit s =
     (if length s \<le> stringLimit then Inr s
      else case getValidUTF8CutPosition s (int stringLimit - 3) of
        Inl e \<Rightarrow> Inl e
      | Inr p \<Rightarrow> Inr ((if p < 0 then s else take (nat p) s) @ ''...''))"

lemma getValidUTF8CutPosition_range:
  assumes "3 \<le> cutpos" and "cutpos < int (length str)"
  shows "\<exists>p. getValidUTF8CutPosition str cutpos = Inr p \<and> cutpos - 3 \<le> p \<and> p \<le> cutpos"
proof -
  have "str \<noteq> []" using assms by auto
  then show ?thesis using assms unfolding getValidUTF8CutPosition_def Let_def by simp
qed

text \<open>With a limit of at least 6 bytes \<open>limitString\<close> returns a string within the limit: the
  input itself, or all but at most 6 bytes of its first \<open>stringLimit\<close> bytes and the ellipsis.\<close>

theorem limitString_bound:
  assumes "6 \<le> stringLimit"
  shows "\<exists>r. limitString stringLimit s = Inr r \<and> length r \<le> stringLimit \<and>
           (r = s \<or> (\<exists>p. stringLimit \<le> p + 6 \<and> p + 3 \<le> stringLimit \<and> r = take p s @ ''...''))"
proof (cases "length s \<le> stringLimit")
  case True
  then show ?thesis by (simp add: limitString_def)
next
  case False
  then obtain p where p: "getValidUTF8CutPosition s (int stringLimit - 3) = Inr p"
      "int stringLimit - 6 \<le> p" "p \<le> int stringLimit - 3"
    using getValidUTF8CutPosition_range [of "int stringLimit - 3" s] assms by auto
  then have "0 \<le> p" using assms by simp
  with False p have r: "limitString stringLimit s = Inr (take (nat p) s @ ''...'')"
    by (simp add: limitString_def)
  have "stringLimit \<le> nat p + 6" "nat p + 3 \<le> stringLimit" using p(2,3) \<open>0 \<le> p\<close> by linarith+
  with r False show ?thesis by auto
qed

lemma limitString_bound_witness: "limitString 8 ''abcdefghij'' = Inr ''abcde...''"
  using limitString_bound [of 8 "''abcdefghij''"]
  by (simp add: limitString_def getValidUTF8CutPosition_def has_bits_def)

text \<open>
  What the cut promises is a position between two characters. The masks recognise only the
  lead bytes with bit 1 set, and a position at a lead byte is moved too, so the cut can fall
  inside an earlier character.
\<close>

definition continuation_byte :: "char \<Rightarrow> bool" where
  "continuation_byte c = (and (code_of c) 0xc0 = 0x80)"

text \<open>The cut may split a character: four times the letter e with an acute accent
  (bytes C3 A9) limited to 7 bytes is cut after a single lead byte.\<close>

theorem limitString_splits_character:
  "limitString 7 [CHR 0xC3, CHR 0xA9, CHR 0xC3, CHR 0xA9, CHR 0xC3, CHR 0xA9, CHR 0xC3, CHR 0xA9]
     = Inr (CHR 0xC3 # ''...'') \<and> continuation_byte (CHR 0xA9)"
  by (simp add: limitString_def getValidUTF8CutPosition_def has_bits_def continuation_byte_def)

text \<open>On 7-bit text the cut is exactly where it was asked for.\<close>

lemma limitString_ascii:
  assumes "\<forall>c \<in> set s. code_of c < 128" and "3 \<le> stringLimit" and "stringLimit < length s"
  shows "limitString stringLimit s = Inr (take (stringLimit - 3) s @ ''...'')"
proof -
  have n: "nat (int stringLimit - 3) = stringLimit - 3" using assms(2) by simp
  have "stringLimit - 3 < length s" using assms(2,3) by simp
  then have "code_of (s ! (stringLimit - 3)) < 128" using assms(1) by simp
  then have "\<not> bit (code_of (s ! (stringLimit - 3))) 7" by (simp add: bit_iff_odd)
  then have "\<not> has_bits (s ! (stringLimit - 3)) 0x80"
    using and_exp_eq_0_iff_not_bit [of "code_of (s ! (stringLimit - 3))" 7] by (simp add: has_bits_def)
  then show ?thesis
    using assms(2,3) n by (simp add: limitString_def getValidUTF8CutPosition_def Let_def)
qed

end
