(* ===== verification/Search_Lexer.thy ===== *)
theory Search_Lexer
  imports Tools
begin

text \<open>
  The lexer of UPnP search criteria, class \<open>SearchLexer\<close> of
  \<open>src/src/database/search_handler.cc\<close>. The members \<open>input\<close> and \<open>currentPos\<close> are one field:
  the part of the input that is still unread (\<open>input.substr(currentPos)\<close>); advancing the
  position drops characters. Reading at the end of the input gives the terminating zero.
\<close>

datatype TokenType =
    ASTERISK | DQUOTE | ESCAPEDSTRING | PROPERTY | BOOLVAL | EXISTS | STRINGOP | COMPAREOP
  | AND | OR | LPAREN | RPAREN | INVALID

datatype SearchToken = SearchToken (getType: TokenType) (getValue: string)

text \<open>
  \<open>SearchParseException\<close>, the runtime errors, \<open>std::out_of_range\<close> of \<open>map::at\<close>, and the
  two kinds of undefined behaviour the parser can run into.
\<close>

datatype search_error =
    SearchParseException | Runtime_error | Map_at_out_of_range
  | Null_dereference | Empty_stack_top

record SearchLexer =
  unread :: string
  inQuotes :: bool

definition tokenTypes :: "string \<Rightarrow> TokenType option" where
  "tokenTypes = map_of
     [(''('', LPAREN), ('')'', RPAREN), (''*'', ASTERISK), ([CHR 0x22], DQUOTE),
      (''true'', BOOLVAL), (''false'', BOOLVAL), (''exists'', EXISTS),
      (''contains'', STRINGOP), (''doesnotcontain'', STRINGOP), (''derivedfrom'', STRINGOP),
      (''startswith'', STRINGOP), (''='', COMPAREOP), (''!='', COMPAREOP), (''<'', COMPAREOP),
      (''<='', COMPAREOP), (''>'', COMPAREOP), (''>='', COMPAREOP), (''and'', AND), (''or'', OR)]"

text \<open>The value up to an unescaped quote, and what is left; \<open>escaping\<close> stays set over a backslash.\<close>

fun getQuotedValue :: "bool \<Rightarrow> string \<Rightarrow> string \<times> string" where
  "getQuotedValue escaping [] = ([], [])"
| "getQuotedValue escaping (ch # cs) =
     (if ch = CHR 0x22 \<and> \<not> escaping then ([], ch # cs)
      else if \<not> escaping \<and> ch = CHR 0x5C then getQuotedValue True cs
      else let (token, left) = getQuotedValue (if ch \<noteq> CHR 0x5C then False else escaping) cs
           in (ch # token, left))"

definition name_char :: "char \<Rightarrow> bool" where
  "name_char ch = (isalnum ch \<or> ch = CHR '':'' \<or> ch = CHR ''@'' \<or> ch = CHR ''.'' \<or> ch = CHR ''_'')"

definition nextStringToken :: "string \<Rightarrow> search_error + string \<times> string" where
  "nextStringToken s =
     (if takeWhile name_char s = [] then Inl SearchParseException
      else Inr (takeWhile name_char s, dropWhile name_char s))"

definition makeToken :: "string \<Rightarrow> SearchToken" where
  "makeToken tokenStr =
     (case tokenTypes (toLower tokenStr) of
        Some t \<Rightarrow> SearchToken t tokenStr
      | None \<Rightarrow> SearchToken PROPERTY tokenStr)"

definition single_token :: "char \<Rightarrow> string \<Rightarrow> bool \<Rightarrow> search_error + SearchToken option \<times> SearchLexer" where
  "single_token ch cs q =
     (case tokenTypes [ch] of None \<Rightarrow> Inl Map_at_out_of_range
      | Some t \<Rightarrow> Inr (Some (SearchToken t [ch]), \<lparr>unread = cs, inQuotes = q\<rparr>))"

lemma getQuotedValue_length: "length (snd (getQuotedValue e s)) \<le> length s"
  by (induction e s rule: getQuotedValue.induct) (auto split: prod.splits if_splits)

text \<open>
  One call of \<open>nextToken\<close>. In the default case a quoted value is tried first inside quotes;
  then white space is skipped (and the loop goes round again) or a name is read.
\<close>

function nextToken :: "SearchLexer \<Rightarrow> search_error + SearchToken option \<times> SearchLexer" where
  "nextToken lx =
     (case unread lx of [] \<Rightarrow> Inr (None, lx)
      | ch # cs \<Rightarrow>
          if ch = CHR ''('' \<or> ch = CHR '')'' \<or> ch = CHR ''*'' \<or> ch = CHR ''=''
          then single_token ch cs (inQuotes lx)
          else if ch = CHR ''>'' \<or> ch = CHR ''<'' \<or> ch = CHR ''!'' then
            (if cs \<noteq> [] \<and> hd cs = CHR ''='' then
               case tokenTypes [ch, CHR ''=''] of None \<Rightarrow> Inl Map_at_out_of_range
               | Some t \<Rightarrow> Inr (Some (SearchToken t [ch, CHR ''='']), lx\<lparr>unread := tl cs\<rparr>)
             else single_token ch cs (inQuotes lx))
          else if ch = CHR 0x22 then
            Inr (Some (SearchToken DQUOTE [ch]), \<lparr>unread = cs, inQuotes = \<not> inQuotes lx\<rparr>)
          else
            let (quotedStr, left) = (if inQuotes lx then getQuotedValue False (ch # cs) else ([], ch # cs)) in
            if quotedStr \<noteq> [] then Inr (Some (SearchToken ESCAPEDSTRING quotedStr), lx\<lparr>unread := left\<rparr>)
            else if isspace ch then nextToken (lx\<lparr>unread := tl left\<rparr>)
            else bindE (nextStringToken left) (\<lambda>(tokenStr, left').
              Inr (Some (makeToken tokenStr), lx\<lparr>unread := left'\<rparr>)))"
  by pat_completeness auto
termination
proof (relation "measure (\<lambda>lx. length (unread lx))", goal_cases)
  case (2 lx ch cs p q r)
  have "length r \<le> length (ch # cs)"
    using 2(5,6) getQuotedValue_length [of False "ch # cs"] by (metis order_refl snd_conv)
  then have "length (tl r) < length (unread lx)" using 2(1) by (cases r) auto
  then show ?case by simp
qed simp

declare nextToken.simps [simp del]

lemma getQuotedValue_split:
  "getQuotedValue e s = (t, l) \<Longrightarrow> l = [] \<or> (\<exists>l'. l = CHR 0x22 # l')"
  by (induction e s arbitrary: t rule: getQuotedValue.induct) (auto split: prod.splits if_splits)

lemma getQuotedValue_progress:
  "getQuotedValue e s = (t, l) \<Longrightarrow> t \<noteq> [] \<Longrightarrow> length l < length s"
  using getQuotedValue_length
  by (induction e s arbitrary: t l rule: getQuotedValue.induct)
     (auto split: prod.splits if_splits simp: less_Suc_eq_le, (metis le_SucI snd_conv nat_less_le)+)

lemma nextStringToken_Inr:
  "nextStringToken s = Inr (t, l) \<Longrightarrow>
   t \<noteq> [] \<and> list_all name_char t \<and> s = t @ l \<and> length l < length s"
  by (auto simp: nextStringToken_def list_all_iff dest: set_takeWhileD split: if_splits)
     (metis length_append length_greater_0_conv less_add_same_cancel2 takeWhile_dropWhile_id)

text \<open>What a call can do: the facts the parser proofs rest on.\<close>

lemma nextToken_Nil: "unread lx = [] \<Longrightarrow> nextToken lx = Inr (None, lx)"
  by (subst nextToken.simps) simp

lemma nextToken_quote:
  "nextToken \<lparr>unread = CHR 0x22 # s, inQuotes = q\<rparr>
   = Inr (Some (SearchToken DQUOTE [CHR 0x22]), \<lparr>unread = s, inQuotes = \<not> q\<rparr>)"
  by (subst nextToken.simps) simp

lemma getQuotedValue_first:
  "ch \<noteq> CHR 0x22 \<Longrightarrow> ch \<noteq> CHR 0x5C \<Longrightarrow> fst (getQuotedValue False (ch # cs)) \<noteq> []"
  by (simp split: prod.splits)

lemma single_token_Inr:
  "single_token ch cs q = Inr (t, lx') \<Longrightarrow>
   \<exists>ty. t = Some (SearchToken ty [ch]) \<and> tokenTypes [ch] = Some ty \<and> unread lx' = cs"
  by (auto simp: single_token_def split: option.splits)

text \<open>A token that is a property is a name: it has no quote, blank, bracket or backslash in it.\<close>

definition token_ok :: "SearchToken \<Rightarrow> bool" where
  "token_ok t = (getType t = PROPERTY \<longrightarrow> getValue t \<noteq> [] \<and> list_all name_char (getValue t))"

lemma tokenTypes_not_property: "tokenTypes s \<noteq> Some PROPERTY"
  by (auto simp: tokenTypes_def split: if_splits)

lemma makeToken_ok: "t \<noteq> [] \<Longrightarrow> list_all name_char t \<Longrightarrow> token_ok (makeToken t)"
  using tokenTypes_not_property by (auto simp: makeToken_def token_ok_def split: option.splits)

lemma nextToken_result:
  "nextToken lx = Inr (r, lx') \<Longrightarrow>
   (case r of None \<Rightarrow> unread lx' = []
    | Some t \<Rightarrow> length (unread lx') < length (unread lx) \<and> token_ok t)"
proof (induction lx rule: nextToken.induct)
  case (1 lx)
  show ?case
  proof (cases "unread lx")
    case Nil
    with 1(2) show ?thesis by (auto simp: nextToken_Nil)
  next
    case (Cons ch cs)
    consider "ch = CHR ''('' \<or> ch = CHR '')'' \<or> ch = CHR ''*'' \<or> ch = CHR ''=''"
      | "ch = CHR ''>'' \<or> ch = CHR ''<'' \<or> ch = CHR ''!''" | "ch = CHR 0x22"
      | "\<not> (ch = CHR ''('' \<or> ch = CHR '')'' \<or> ch = CHR ''*'' \<or> ch = CHR ''='')"
        "\<not> (ch = CHR ''>'' \<or> ch = CHR ''<'' \<or> ch = CHR ''!'')" "ch \<noteq> CHR 0x22" by blast
    then show ?thesis
    proof cases
      case 1
      with Cons have "nextToken lx = single_token ch cs (inQuotes lx)"
        by (subst nextToken.simps) simp
      with "1.prems" single_token_Inr [of ch cs "inQuotes lx" r lx'] Cons show ?thesis
        by (auto simp: token_ok_def tokenTypes_not_property)
    next
      case 2
      then have "nextToken lx =
          (if cs \<noteq> [] \<and> hd cs = CHR ''='' then
             case tokenTypes [ch, CHR ''=''] of None \<Rightarrow> Inl Map_at_out_of_range
             | Some t \<Rightarrow> Inr (Some (SearchToken t [ch, CHR ''='']), lx\<lparr>unread := tl cs\<rparr>)
           else single_token ch cs (inQuotes lx))"
        using Cons by (subst nextToken.simps) (elim disjE; clarsimp)
      with "1.prems" single_token_Inr [of ch cs "inQuotes lx" r lx'] Cons show ?thesis
        by (cases "cs \<noteq> [] \<and> hd cs = CHR ''=''"; cases "tokenTypes [ch, CHR ''='']")
           (auto simp: token_ok_def tokenTypes_not_property)
    next
      case 3
      with "1.prems" Cons nextToken_quote [of cs "inQuotes lx"] show ?thesis
        by (cases lx) (auto simp: token_ok_def)
    next
      case 4
      define ql where "ql = (if inQuotes lx then getQuotedValue False (ch # cs) else ([], ch # cs))"
      obtain q l where ql: "ql = (q, l)" by fastforce
      have l: "length l \<le> length (ch # cs)"
        using ql getQuotedValue_length [of False "ch # cs"] unfolding ql_def by (auto split: if_splits)
      have e: "nextToken lx =
          (if q \<noteq> [] then Inr (Some (SearchToken ESCAPEDSTRING q), lx\<lparr>unread := l\<rparr>)
           else if isspace ch then nextToken (lx\<lparr>unread := tl l\<rparr>)
           else bindE (nextStringToken l) (\<lambda>(tokenStr, left').
              Inr (Some (makeToken tokenStr), lx\<lparr>unread := left'\<rparr>)))"
        using 4 Cons ql by (subst nextToken.simps) (auto simp: ql_def)
      show ?thesis
      proof (cases "q = []")
        case False
        then have "length l < length (ch # cs)"
          using ql getQuotedValue_progress [of False "ch # cs" q l] unfolding ql_def by (auto split: if_splits)
        with False e "1.prems" Cons show ?thesis by (auto simp: token_ok_def)
      next
        case True
        show ?thesis
        proof (cases "isspace ch")
          case space: True
          have "length (unread (lx\<lparr>unread := tl l\<rparr>)) < length (unread lx)"
            using l Cons by (cases l) auto
          moreover have "case r of None \<Rightarrow> unread lx' = []
              | Some t \<Rightarrow> length (unread lx') < length (unread (lx\<lparr>unread := tl l\<rparr>)) \<and> token_ok t"
            using "1.IH" [OF Cons 4 ql_def ql [symmetric]] True space e "1.prems"
            by (simp add: ql)
          ultimately show ?thesis by (auto split: option.splits)
        next
          case False
          have "bindE (nextStringToken l) (\<lambda>(tokenStr, left').
              Inr (Some (makeToken tokenStr), lx\<lparr>unread := left'\<rparr>)) = Inr (r, lx')"
            using True False e "1.prems" by simp
          then obtain t0 l0 where "nextStringToken l = Inr (t0, l0)" "r = Some (makeToken t0)"
            "lx' = lx\<lparr>unread := l0\<rparr>" by (auto simp: bindE_Inr_iff)
          with l Cons show ?thesis
            by (auto dest!: nextStringToken_Inr intro: makeToken_ok simp flip: length_greater_0_conv)
        qed
      qed
    qed
  qed
qed

lemma nextToken_progress:
  "nextToken lx = Inr (Some t, lx') \<Longrightarrow> length (unread lx') < length (unread lx) \<and> token_ok t"
  by (drule nextToken_result) simp

lemma nextToken_None: "nextToken lx = Inr (None, lx') \<Longrightarrow> unread lx' = []"
  by (drule nextToken_result) simp

lemma nextToken_length:
  "nextToken lx = Inr (r, lx') \<Longrightarrow> length (unread lx') \<le> length (unread lx)"
  by (drule nextToken_result) (auto split: option.splits)

section \<open>The token stream of a lexer\<close>

text \<open>All tokens up to the end of the input; every token consumes input, so this ends.\<close>

function lex_all :: "SearchLexer \<Rightarrow> search_error + SearchToken list" where
  "lex_all lx =
     (case nextToken lx of Inl e \<Rightarrow> Inl e
      | Inr (r, lx') \<Rightarrow> (case r of None \<Rightarrow> Inr []
          | Some t \<Rightarrow> (case lex_all lx' of Inl e \<Rightarrow> Inl e | Inr ts \<Rightarrow> Inr (t # ts))))"
  by pat_completeness auto
termination
  by (relation "measure (\<lambda>lx. length (unread lx))") (auto dest: nextToken_progress)

declare lex_all.simps [simp del]

lemma lex_all_Some:
  "nextToken lx = Inr (Some t, lx') \<Longrightarrow> lex_all lx' = Inr ts \<Longrightarrow> lex_all lx = Inr (t # ts)"
  by (subst lex_all.simps) simp

lemma lex_all_None: "nextToken lx = Inr (None, lx') \<Longrightarrow> lex_all lx = Inr []"
  by (subst lex_all.simps) simp

lemma lex_all_nextToken: "nextToken lx = nextToken lx' \<Longrightarrow> lex_all lx = lex_all lx'"
  by (simp add: lex_all.simps [of lx] lex_all.simps [of lx'])

abbreviation outside :: "string \<Rightarrow> SearchLexer" where
  "outside s \<equiv> \<lparr>unread = s, inQuotes = False\<rparr>"

lemma lex_end: "lex_all (outside []) = Inr []"
  by (rule lex_all_None) (simp add: nextToken_Nil)

lemma lex_space: "lex_all (outside (CHR '' '' # s)) = lex_all (outside s)"
  by (rule lex_all_nextToken, subst nextToken.simps) (simp add: isspace_def)

lemma lex_single:
  assumes "ch = CHR ''('' \<or> ch = CHR '')'' \<or> ch = CHR ''=''" and "lex_all (outside s) = Inr ts"
  shows "lex_all (outside (ch # s)) = Inr (SearchToken (the (tokenTypes [ch])) [ch] # ts)"
proof (rule lex_all_Some [OF _ assms(2)])
  show "nextToken (outside (ch # s)) = Inr (Some (SearchToken (the (tokenTypes [ch])) [ch]), outside s)"
    using assms(1) by (subst nextToken.simps) (auto simp: single_token_def tokenTypes_def)
qed

text \<open>A comparison operator followed by a blank.\<close>

definition compare_ops :: "string list" where
  "compare_ops = [''='', ''!='', ''<'', ''<='', ''>'', ''>='']"

lemma lex_compare:
  assumes "op \<in> set compare_ops" and "lex_all (outside (CHR '' '' # s)) = Inr ts"
  shows "lex_all (outside (op @ CHR '' '' # s)) = Inr (SearchToken COMPAREOP op # ts)"
proof (rule lex_all_Some [OF _ assms(2)])
  show "nextToken (outside (op @ CHR '' '' # s))
      = Inr (Some (SearchToken COMPAREOP op), outside (CHR '' '' # s))"
    using assms(1) unfolding compare_ops_def
    by (subst nextToken.simps) (auto simp: single_token_def tokenTypes_def)
qed

lemma name_char_plain:
  "name_char c \<Longrightarrow> \<not> isspace c \<and> c \<noteq> CHR 0x22 \<and> c \<noteq> CHR 0x5C \<and> c \<noteq> CHR ''('' \<and> c \<noteq> CHR '')'' \<and>
     c \<noteq> CHR ''*'' \<and> c \<noteq> CHR ''='' \<and> c \<noteq> CHR ''>'' \<and> c \<noteq> CHR ''<'' \<and> c \<noteq> CHR ''!'' \<and> c \<noteq> CHR 0x27"
  by (auto simp: name_char_def char_defs)

lemma lex_name:
  assumes "n \<noteq> []" and "list_all name_char n" and "s \<noteq> [] \<longrightarrow> \<not> name_char (hd s)"
    and "lex_all (outside s) = Inr ts"
  shows "lex_all (outside (n @ s)) = Inr (makeToken n # ts)"
proof (rule lex_all_Some [OF _ assms(4)])
  obtain c cs where n: "n = c # cs" using assms(1) by (cases n) auto
  with assms(2) have "name_char c" by simp
  note c = name_char_plain [OF this]
  have "takeWhile name_char (n @ s) = n" "dropWhile name_char (n @ s) = s"
    using assms(2,3) by (cases s; simp add: takeWhile_append list_all_iff dropWhile_append)+
  then have "nextStringToken (n @ s) = Inr (n, s)" using n by (simp add: nextStringToken_def)
  then show "nextToken (outside (n @ s)) = Inr (Some (makeToken n), outside s)"
    using c n by (subst nextToken.simps) simp
qed

section \<open>Quoted values\<close>

text \<open>The way a control point writes a value: a backslash in front of each quote.\<close>

definition quote_escape :: "string \<Rightarrow> string" where
  "quote_escape v = concat (map (\<lambda>c. if c = CHR 0x22 then [CHR 0x5C, c] else [c]) v)"

definition quoted :: "string \<Rightarrow> string" where
  "quoted v = CHR 0x22 # quote_escape v @ [CHR 0x22]"

text \<open>
  The values the lexer gives back: without a backslash, and not starting with a character
  that the \<open>switch\<close> of \<open>nextToken\<close> catches before it looks at the quotes.
\<close>

definition literal_ok :: "string \<Rightarrow> bool" where
  "literal_ok v = (CHR 0x5C \<notin> set v \<and> (v = [] \<or> hd v \<notin> set ''()*=><!''))"

lemma getQuotedValue_escape:
  "CHR 0x5C \<notin> set v \<Longrightarrow>
   getQuotedValue False (quote_escape v @ CHR 0x22 # s) = (v, CHR 0x22 # s)"
  by (induction v) (auto simp: quote_escape_def)

definition literal_tokens :: "string \<Rightarrow> SearchToken list" where
  "literal_tokens v =
     [SearchToken DQUOTE [CHR 0x22]] @
     (if v = [] then [] else [SearchToken ESCAPEDSTRING v]) @
     [SearchToken DQUOTE [CHR 0x22]]"

lemma nextToken_literal:
  assumes "literal_ok v" and "v \<noteq> []"
  shows "nextToken \<lparr>unread = quote_escape v @ CHR 0x22 # s, inQuotes = True\<rparr>
       = Inr (Some (SearchToken ESCAPEDSTRING v), \<lparr>unread = CHR 0x22 # s, inQuotes = True\<rparr>)"
proof -
  obtain c cs where v: "v = c # cs" using assms(2) by (cases v) auto
  define d where "d = hd (quote_escape v)"
  obtain ds where ds: "quote_escape v = d # ds" using v by (cases "c = CHR 0x22") (auto simp: quote_escape_def d_def)
  have d: "d \<notin> set ''()*=><!''" "d \<noteq> CHR 0x22"
    using assms(1) v by (auto simp: d_def quote_escape_def literal_ok_def)
  have "getQuotedValue False (d # ds @ CHR 0x22 # s) = (v, CHR 0x22 # s)"
    using assms(1) getQuotedValue_escape [of v s] ds by (simp add: literal_ok_def)
  then show ?thesis
    using d v unfolding ds by (subst nextToken.simps) (simp del: getQuotedValue.simps)
qed

lemma lex_quoted:
  assumes "literal_ok v" and "lex_all (outside s) = Inr ts"
  shows "lex_all (outside (quoted v @ s)) = Inr (literal_tokens v @ ts)"
proof -
  have close: "lex_all \<lparr>unread = CHR 0x22 # s, inQuotes = True\<rparr>
      = Inr (SearchToken DQUOTE [CHR 0x22] # ts)"
    using nextToken_quote [of s True] assms(2) by (auto intro: lex_all_Some)
  have "lex_all \<lparr>unread = quote_escape v @ CHR 0x22 # s, inQuotes = True\<rparr>
      = Inr ((if v = [] then [] else [SearchToken ESCAPEDSTRING v]) @ SearchToken DQUOTE [CHR 0x22] # ts)"
  proof (cases "v = []")
    case True
    then show ?thesis using close by (simp add: quote_escape_def)
  next
    case False
    then show ?thesis
      using lex_all_Some [OF nextToken_literal [OF assms(1) False] close] by simp
  qed
  then show ?thesis
    using lex_all_Some [OF nextToken_quote [of "quote_escape v @ CHR 0x22 # s" False]]
    by (simp add: quoted_def literal_tokens_def)
qed

text \<open>A value without backslash that does not start with an operator or bracket is read back
  exactly from its quoted form, quotes inside it included.\<close>

theorem lex_quoted_roundtrip:
  assumes "literal_ok v"
  shows "lex_all (outside (quoted v)) = Inr (literal_tokens v)"
  using lex_quoted [OF assms lex_end] by simp

lemma lex_quoted_roundtrip_witness:
  "lex_all (outside (quoted (''7'' @ [CHR 0x22, CHR ''x'']))) = Inr (literal_tokens (''7'' @ [CHR 0x22, CHR ''x'']))"
  by (rule lex_quoted_roundtrip) (simp add: literal_ok_def)

text \<open>A quoted value that starts with a bracket is not read as a value: the bracket becomes a
  token of its own.\<close>

theorem lex_quoted_bracket:
  "lex_all (outside (quoted ''(Live)'')) =
     Inr [SearchToken DQUOTE [CHR 0x22], SearchToken LPAREN ''('',
          SearchToken ESCAPEDSTRING ''Live)'', SearchToken DQUOTE [CHR 0x22]]"
  by code_simp

text \<open>No token of type PROPERTY that the lexer returns holds anything but letters, digits and
  the four name characters, whatever the input and the quote state.\<close>

theorem nextToken_property_chars:
  assumes "nextToken lx = Inr (Some t, lx')" and "getType t = PROPERTY"
  shows "getValue t \<noteq> [] \<and> list_all name_char (getValue t) \<and> CHR 0x27 \<notin> set (getValue t)"
proof -
  have "getValue t \<noteq> []" and n: "list_all name_char (getValue t)"
    using nextToken_progress [OF assms(1)] assms(2) by (auto simp: token_ok_def)
  moreover have "CHR 0x27 \<notin> set (getValue t)"
    using n name_char_plain [of "CHR 0x27"] by (auto simp: list_all_iff)
  ultimately show ?thesis by simp
qed

lemma nextToken_property_chars_witness:
  "nextToken (outside ''dc:title = x'') = Inr (Some (SearchToken PROPERTY ''dc:title''), outside '' = x'') \<and>
   list_all name_char ''dc:title''"
proof -
  have e: "nextToken (outside ''dc:title = x'') = Inr (Some (SearchToken PROPERTY ''dc:title''), outside '' = x'')"
    by code_simp
  show ?thesis using nextToken_property_chars [OF e] e by simp
qed

end
