(* ===== verification/Search_Parser.thy ===== *)
theory Search_Parser
  imports Search_Lexer
begin

text \<open>
  The recursive descent parser of search criteria, class \<open>SearchParser\<close> of
  \<open>src/src/database/search_handler.cc\<close>, and its syntax tree. A node's left operand is an
  option because the code can build an operator with a null left operand. Both \<open>while\<close>
  loops do nothing on a token that starts no branch, and so never end: the loops take fuel,
  \<^term>\<open>None\<close> is "not finished yet".
\<close>

datatype ASTQuotedString =
  ASTQuotedString (openQuote: string) (escapedString: string) (closeQuote: string)

datatype ASTNode =
    ASTAsterisk string
  | ASTCompareExpression string string ASTQuotedString
  | ASTStringExpression string string ASTQuotedString
  | ASTExistsExpression string string string
  | ASTParenthesis ASTNode
  | ASTAndOperator "ASTNode option" ASTNode
  | ASTOrOperator "ASTNode option" ASTNode

record SearchParser =
  currentToken :: "SearchToken option"
  lexer :: SearchLexer
  maxParenthesisDepth :: nat

definition getNextToken :: "SearchParser \<Rightarrow> search_error + SearchParser" where
  "getNextToken p =
     bindE (nextToken (lexer p)) (\<lambda>(t, lx). Inr (p\<lparr>currentToken := t, lexer := lx\<rparr>))"

definition current_is :: "SearchParser \<Rightarrow> TokenType \<Rightarrow> bool" where
  "current_is p ty = (case currentToken p of None \<Rightarrow> False | Some t \<Rightarrow> getType t = ty)"

text \<open>\<open>currentToken->getValue()\<close> without a check for null.\<close>

definition current_value :: "SearchParser \<Rightarrow> search_error + string" where
  "current_value p = (case currentToken p of None \<Rightarrow> Inl Null_dereference | Some t \<Rightarrow> Inr (getValue t))"

definition parseQuotedString :: "SearchParser \<Rightarrow> search_error + ASTQuotedString \<times> SearchParser" where
  "parseQuotedString p =
     (if \<not> current_is p DQUOTE then Inl Runtime_error
      else bindE (current_value p) (\<lambda>openQuote.
        bindE (getNextToken p) (\<lambda>p1.
          if \<not> current_is p1 ESCAPEDSTRING \<and> \<not> current_is p1 DQUOTE then Inl SearchParseException
          else bindE (current_value p1) (\<lambda>v.
            let escapedString = (if current_is p1 DQUOTE then [] else v) in
            bindE (if current_is p1 DQUOTE then Inr p1 else getNextToken p1) (\<lambda>p2.
              if \<not> current_is p2 DQUOTE then Inl SearchParseException
              else bindE (current_value p2) (\<lambda>closeQuote.
                Inr (ASTQuotedString openQuote escapedString closeQuote, p2)))))))"

definition parseRelationshipExpression :: "SearchParser \<Rightarrow> search_error + ASTNode \<times> SearchParser" where
  "parseRelationshipExpression p =
     (if \<not> current_is p PROPERTY then Inl Runtime_error
      else bindE (current_value p) (\<lambda>property.
        bindE (getNextToken p) (\<lambda>p1.
          if current_is p1 COMPAREOP then
            bindE (current_value p1) (\<lambda>operatr. bindE (getNextToken p1) (\<lambda>p2.
              bindE (parseQuotedString p2) (\<lambda>(q, p3).
                Inr (ASTCompareExpression property operatr q, p3))))
          else if current_is p1 STRINGOP then
            bindE (current_value p1) (\<lambda>operatr. bindE (getNextToken p1) (\<lambda>p2.
              bindE (parseQuotedString p2) (\<lambda>(q, p3).
                Inr (ASTStringExpression property operatr q, p3))))
          else if current_is p1 EXISTS then
            bindE (current_value p1) (\<lambda>operatr. bindE (getNextToken p1) (\<lambda>p2.
              bindE (current_value p2) (\<lambda>b.
                Inr (ASTExistsExpression property operatr b, p2))))
          else Inl SearchParseException)))"

definition mk_operator :: "TokenType \<Rightarrow> ASTNode option \<Rightarrow> ASTNode \<Rightarrow> ASTNode" where
  "mk_operator ty lhs rhs = (if ty = AND then ASTAndOperator lhs rhs else ASTOrOperator lhs rhs)"

definition parenthesis_end :: "ASTNode option \<Rightarrow> SearchParser \<Rightarrow> (search_error + ASTNode \<times> SearchParser) option" where
  "parenthesis_end node p =
     (case node of None \<Rightarrow> Some (Inl SearchParseException) | Some n \<Rightarrow> Some (Inr (ASTParenthesis n, p)))"

text \<open>\<open>parseParenthesis\<close> and its \<open>while\<close> loop over \<open>currentNode\<close>.\<close>

fun parseParenthesis :: "nat \<Rightarrow> nat \<Rightarrow> SearchParser \<Rightarrow> (search_error + ASTNode \<times> SearchParser) option"
and parenthesis_loop ::
  "nat \<Rightarrow> nat \<Rightarrow> ASTNode option \<Rightarrow> SearchParser \<Rightarrow> (search_error + ASTNode \<times> SearchParser) option" where
  "parseParenthesis 0 depth p = None"
| "parseParenthesis (Suc fuel) depth p =
     (if maxParenthesisDepth p \<le> depth then Some (Inl SearchParseException)
      else case currentToken p of None \<Rightarrow> Some (Inl Null_dereference)
      | Some t \<Rightarrow>
          if getType t \<noteq> LPAREN then Some (Inl SearchParseException)
          else bindO (Some (getNextToken p)) (\<lambda>p1. parenthesis_loop fuel depth None p1))"
| "parenthesis_loop 0 depth node p = None"
| "parenthesis_loop (Suc fuel) depth node p =
     (case currentToken p of None \<Rightarrow> parenthesis_end node p
      | Some t \<Rightarrow>
          if getType t = RPAREN then parenthesis_end node p
          else if getType t = PROPERTY then
            bindO (Some (parseRelationshipExpression p)) (\<lambda>(n, p1).
              bindO (Some (getNextToken p1)) (\<lambda>p2. parenthesis_loop fuel depth (Some n) p2))
          else if getType t = AND \<or> getType t = OR then
            bindO (Some (getNextToken p)) (\<lambda>p1.
              bindO (case currentToken p1 of None \<Rightarrow> Some (Inl Null_dereference)
                     | Some t1 \<Rightarrow> if getType t1 = LPAREN then parseParenthesis fuel (depth + 1) p1
                         else Some (parseRelationshipExpression p1)) (\<lambda>(rhs, p2).
                bindO (Some (getNextToken p2)) (\<lambda>p3.
                  parenthesis_loop fuel depth (Some (mk_operator (getType t) node rhs)) p3)))
          else if getType t = LPAREN then
            bindO (parseParenthesis fuel (depth + 1) p) (\<lambda>(n, p1).
              bindO (Some (getNextToken p1)) (\<lambda>p2. parenthesis_loop fuel depth (Some n) p2))
          else parenthesis_loop fuel depth node p)"

text \<open>
  The stacks of \<open>parseSearchExpression\<close> are lists, top first. \<open>push_relation\<close> is what the
  loop does with a parsed relation: combine it with the top node when an operator is pending.
\<close>

definition push_relation ::
  "TokenType \<Rightarrow> ASTNode \<Rightarrow> ASTNode list \<Rightarrow> TokenType list \<Rightarrow> search_error + ASTNode list \<times> TokenType list" where
  "push_relation currentOperator expressionNode nodeStack operatorStack =
     (if currentOperator = AND \<or> currentOperator = OR then
        (case nodeStack of [] \<Rightarrow> Inl Empty_stack_top
         | lhs # rest \<Rightarrow> Inr (mk_operator currentOperator (Some lhs) expressionNode # rest, tl operatorStack))
      else Inr (expressionNode # nodeStack, operatorStack))"

fun expression_loop ::
  "nat \<Rightarrow> ASTNode list \<Rightarrow> TokenType list \<Rightarrow> TokenType \<Rightarrow> SearchParser \<Rightarrow>
   (search_error + ASTNode list \<times> TokenType list \<times> SearchParser) option" where
  "expression_loop 0 nodeStack operatorStack currentOperator p = None"
| "expression_loop (Suc fuel) nodeStack operatorStack currentOperator p =
     (case currentToken p of None \<Rightarrow> Some (Inr (nodeStack, operatorStack, p))
      | Some t \<Rightarrow>
          if getType t = PROPERTY then
            bindO (Some (parseRelationshipExpression p)) (\<lambda>(n, p1).
              bindO (Some (push_relation currentOperator n nodeStack operatorStack)) (\<lambda>(ns, os).
                bindO (Some (getNextToken p1)) (\<lambda>p2. expression_loop fuel ns os INVALID p2)))
          else if getType t = LPAREN then
            bindO (parseParenthesis fuel 0 p) (\<lambda>(n, p1).
              bindO (Some (getNextToken p1)) (\<lambda>p2.
                expression_loop fuel (n # nodeStack) operatorStack currentOperator p2))
          else if getType t = AND \<or> getType t = OR then
            bindO (Some (getNextToken p)) (\<lambda>p1.
              expression_loop fuel nodeStack (getType t # operatorStack) (getType t) p1)
          else expression_loop fuel nodeStack operatorStack currentOperator p)"

text \<open>The final loop: each round overwrites \<open>root\<close> with the top node.\<close>

fun fold_stacks :: "ASTNode option \<Rightarrow> ASTNode list \<Rightarrow> TokenType list \<Rightarrow> search_error + ASTNode option" where
  "fold_stacks root [] ops = Inr root"
| "fold_stacks root (n # ns) [] = fold_stacks (Some n) ns []"
| "fold_stacks root [n] (op # ops) = Inl SearchParseException"
| "fold_stacks root (n # lhs # ns) (op # ops) = fold_stacks (Some (mk_operator op (Some lhs) n)) ns ops"

definition parseSearchExpression :: "nat \<Rightarrow> SearchParser \<Rightarrow> (search_error + ASTNode option) option" where
  "parseSearchExpression fuel p =
     bindO (expression_loop fuel [] [] INVALID p) (\<lambda>(ns, os, p1). Some (fold_stacks None ns os))"

definition parse :: "nat \<Rightarrow> string \<Rightarrow> nat \<Rightarrow> (search_error + ASTNode option) option" where
  "parse fuel searchCriteria maxDepth =
     bindO (Some (getNextToken \<lparr>currentToken = None,
                  lexer = \<lparr>unread = searchCriteria, inQuotes = False\<rparr>,
                  maxParenthesisDepth = maxDepth\<rparr>)) (\<lambda>p.
       if current_is p ASTERISK then
         bindO (Some (current_value p)) (\<lambda>v. Some (Inr (Some (ASTAsterisk v))))
       else parseSearchExpression fuel p)"

section \<open>Fuel\<close>

text \<open>
  One round of the \<open>while\<close> loop of \<open>parseParenthesis\<close>, over any meaning \<open>pp\<close> of the nested
  call and \<open>pl\<close> of the rest of the loop. The proofs about the loop go through this form.
\<close>

definition loop_round ::
  "(SearchParser \<Rightarrow> (search_error + ASTNode \<times> SearchParser) option) \<Rightarrow>
   (ASTNode option \<Rightarrow> SearchParser \<Rightarrow> (search_error + ASTNode \<times> SearchParser) option) \<Rightarrow>
   ASTNode option \<Rightarrow> SearchParser \<Rightarrow> (search_error + ASTNode \<times> SearchParser) option" where
  "loop_round pp pl node p =
     (case currentToken p of None \<Rightarrow> parenthesis_end node p
      | Some t \<Rightarrow>
          if getType t = RPAREN then parenthesis_end node p
          else if getType t = PROPERTY then
            bindO (Some (parseRelationshipExpression p)) (\<lambda>(n, p1).
              bindO (Some (getNextToken p1)) (\<lambda>p2. pl (Some n) p2))
          else if getType t = AND \<or> getType t = OR then
            bindO (Some (getNextToken p)) (\<lambda>p1.
              bindO (case currentToken p1 of None \<Rightarrow> Some (Inl Null_dereference)
                     | Some t1 \<Rightarrow> if getType t1 = LPAREN then pp p1
                         else Some (parseRelationshipExpression p1)) (\<lambda>(rhs, p2).
                bindO (Some (getNextToken p2)) (\<lambda>p3. pl (Some (mk_operator (getType t) node rhs)) p3)))
          else if getType t = LPAREN then
            bindO (pp p) (\<lambda>(n, p1). bindO (Some (getNextToken p1)) (\<lambda>p2. pl (Some n) p2))
          else pl node p)"

lemma parenthesis_loop_round:
  "parenthesis_loop (Suc fuel) depth node p =
   loop_round (parseParenthesis fuel (depth + 1)) (parenthesis_loop fuel depth) node p"
  by (simp only: loop_round_def parenthesis_loop.simps)

declare parenthesis_loop.simps(2) [simp del]

lemma loop_round_mono:
  assumes "loop_round pp pl node p = Some r"
    and pp: "\<And>q x. pp q = Some x \<Longrightarrow> pp' q = Some x"
    and pl: "\<And>n q x. pl n q = Some x \<Longrightarrow> pl' n q = Some x"
  shows "loop_round pp' pl' node p = Some r"
proof (cases "currentToken p")
  case None
  with assms(1) show ?thesis by (simp add: loop_round_def)
next
  case (Some t)
  have after: "bindO (Some (getNextToken q)) (pl n) = Some x \<Longrightarrow> bindO (Some (getNextToken q)) (pl' n) = Some x"
    for q n x by (erule bindO_Some_mono) (auto intro: pl)
  consider "getType t = RPAREN" | "getType t = PROPERTY" | "getType t = AND \<or> getType t = OR"
    | "getType t = LPAREN"
    | "getType t \<notin> {RPAREN, PROPERTY, AND, OR, LPAREN}" by auto
  then show ?thesis
  proof cases
    case 3
    then have "bindO (Some (getNextToken p)) (\<lambda>p1.
              bindO (case currentToken p1 of None \<Rightarrow> Some (Inl Null_dereference)
                     | Some t1 \<Rightarrow> if getType t1 = LPAREN then pp p1
                         else Some (parseRelationshipExpression p1)) (\<lambda>(rhs, p2).
                bindO (Some (getNextToken p2)) (pl (Some (mk_operator (getType t) node rhs))))) = Some r"
      using assms(1) Some by (auto simp: loop_round_def)
    then have "bindO (Some (getNextToken p)) (\<lambda>p1.
              bindO (case currentToken p1 of None \<Rightarrow> Some (Inl Null_dereference)
                     | Some t1 \<Rightarrow> if getType t1 = LPAREN then pp' p1
                         else Some (parseRelationshipExpression p1)) (\<lambda>(rhs, p2).
                bindO (Some (getNextToken p2)) (pl' (Some (mk_operator (getType t) node rhs))))) = Some r"
      by (rule bindO_Some_mono, simp)
         (erule bindO_Some_mono; auto intro: pp after split: option.splits if_splits)
    then show ?thesis using 3 Some by (auto simp: loop_round_def)
  qed (use assms(1) Some in \<open>auto simp: loop_round_def intro: pl after pp
        elim!: bindO_Some_mono split: prod.splits\<close>)
qed

text \<open>More fuel never changes a result.\<close>

lemma parenthesis_fuel_mono:
  "(\<forall>depth p r. parseParenthesis fuel depth p = Some r \<longrightarrow> parseParenthesis (Suc fuel) depth p = Some r) \<and>
   (\<forall>depth node p r. parenthesis_loop fuel depth node p = Some r \<longrightarrow>
      parenthesis_loop (Suc fuel) depth node p = Some r)"
proof (induction fuel)
  case (Suc fuel)
  then have pp: "\<And>depth p r. parseParenthesis fuel depth p = Some r \<Longrightarrow> parseParenthesis (Suc fuel) depth p = Some r"
    and pl: "\<And>depth node p r. parenthesis_loop fuel depth node p = Some r \<Longrightarrow>
      parenthesis_loop (Suc fuel) depth node p = Some r" by blast+
  have "parseParenthesis (Suc (Suc fuel)) depth p = Some r"
    if "parseParenthesis (Suc fuel) depth p = Some r" for depth p r
    using that unfolding parseParenthesis.simps(2)
    by (auto split: option.splits if_splits elim!: bindO_Some_mono intro: pl)
  moreover have "parenthesis_loop (Suc (Suc fuel)) depth node p = Some r"
    if "parenthesis_loop (Suc fuel) depth node p = Some r" for depth node p r
    unfolding parenthesis_loop_round [of "Suc fuel"]
    by (rule loop_round_mono [OF that [unfolded parenthesis_loop_round]]) (erule pp, erule pl)
  ultimately show ?case by blast
qed simp

section \<open>The nesting bound\<close>

fun paren_depth :: "ASTNode \<Rightarrow> nat" where
  "paren_depth (ASTParenthesis n) = Suc (paren_depth n)"
| "paren_depth (ASTAndOperator None r) = paren_depth r"
| "paren_depth (ASTAndOperator (Some l) r) = max (paren_depth l) (paren_depth r)"
| "paren_depth (ASTOrOperator None r) = paren_depth r"
| "paren_depth (ASTOrOperator (Some l) r) = max (paren_depth l) (paren_depth r)"
| "paren_depth n = 0"

definition depth_within :: "nat \<Rightarrow> ASTNode option \<Rightarrow> bool" where
  "depth_within b node = (case node of None \<Rightarrow> True | Some n \<Rightarrow> paren_depth n \<le> b)"

lemma depth_within_simps [simp]:
  "depth_within b None" "depth_within b (Some n) = (paren_depth n \<le> b)"
  by (simp_all add: depth_within_def)

lemma paren_depth_mk_operator [simp]:
  "paren_depth (mk_operator ty l r) \<le> b \<longleftrightarrow> depth_within b l \<and> paren_depth r \<le> b"
  by (cases l) (auto simp: mk_operator_def)

lemma getNextToken_max: "getNextToken p = Inr p' \<Longrightarrow> maxParenthesisDepth p' = maxParenthesisDepth p"
  by (auto simp: getNextToken_def bindE_Inr_iff)

lemma parseQuotedString_max:
  "parseQuotedString p = Inr (q, p') \<Longrightarrow> maxParenthesisDepth p' = maxParenthesisDepth p"
  by (auto simp: parseQuotedString_def bindE_Inr_iff Let_def split: if_splits dest!: getNextToken_max)

lemma parseRelationshipExpression_flat:
  "parseRelationshipExpression p = Inr (n, p') \<Longrightarrow>
   paren_depth n = 0 \<and> maxParenthesisDepth p' = maxParenthesisDepth p"
  by (auto simp: parseRelationshipExpression_def bindE_Inr_iff split: if_splits
      dest!: getNextToken_max parseQuotedString_max)

lemma parenthesis_end_Inr:
  "parenthesis_end node p = Some (Inr (n, p')) \<Longrightarrow> \<exists>m. node = Some m \<and> n = ASTParenthesis m \<and> p' = p"
  by (auto simp: parenthesis_end_def split: option.splits)

lemma loop_round_Inr:
  assumes "loop_round pp pl node p = Some (Inr (n, p'))"
  obtains (finish) m where "node = Some m" "n = ASTParenthesis m" "p' = p"
  | (relation) m p1 p2 where "parseRelationshipExpression p = Inr (m, p1)" "getNextToken p1 = Inr p2"
      "pl (Some m) p2 = Some (Inr (n, p'))"
  | (operator) ty p1 rhs p2 p3 where "getNextToken p = Inr p1"
      "pp p1 = Some (Inr (rhs, p2)) \<or> parseRelationshipExpression p1 = Inr (rhs, p2)"
      "getNextToken p2 = Inr p3" "pl (Some (mk_operator ty node rhs)) p3 = Some (Inr (n, p'))"
  | (group) m p1 p2 where "pp p = Some (Inr (m, p1))" "getNextToken p1 = Inr p2"
      "pl (Some m) p2 = Some (Inr (n, p'))"
  | (stuck) "pl node p = Some (Inr (n, p'))"
proof (cases "currentToken p")
  case None
  with assms finish show ?thesis by (auto simp: loop_round_def dest: parenthesis_end_Inr)
next
  case (Some t)
  consider "getType t = RPAREN" | "getType t = PROPERTY" | "getType t = AND \<or> getType t = OR"
    | "getType t = LPAREN" | "getType t \<notin> {RPAREN, PROPERTY, AND, OR, LPAREN}" by auto
  then show ?thesis
  proof cases
    case 1
    with assms Some finish show ?thesis by (auto simp: loop_round_def dest: parenthesis_end_Inr)
  next
    case 2
    with assms Some relation show ?thesis by (auto simp: loop_round_def bindO_Inr_iff)
  next
    case 3
    then have "bindO (Some (getNextToken p)) (\<lambda>p1.
              bindO (case currentToken p1 of None \<Rightarrow> Some (Inl Null_dereference)
                     | Some t1 \<Rightarrow> if getType t1 = LPAREN then pp p1
                         else Some (parseRelationshipExpression p1)) (\<lambda>(rhs, p2).
                bindO (Some (getNextToken p2)) (pl (Some (mk_operator (getType t) node rhs))))) = Some (Inr (n, p'))"
      using assms Some by (auto simp: loop_round_def)
    then show ?thesis
      using operator by (auto simp: bindO_Inr_iff split: option.splits if_splits) blast+
  next
    case 4
    with assms Some group show ?thesis by (auto simp: loop_round_def bindO_Inr_iff)
  next
    case 5
    with assms Some stuck show ?thesis by (simp add: loop_round_def)
  qed
qed

lemma parenthesis_depth:
  "(\<forall>depth p n p'. parseParenthesis fuel depth p = Some (Inr (n, p')) \<longrightarrow>
      depth + paren_depth n \<le> maxParenthesisDepth p \<and> maxParenthesisDepth p' = maxParenthesisDepth p) \<and>
   (\<forall>depth node p n p'. parenthesis_loop fuel depth node p = Some (Inr (n, p')) \<longrightarrow>
      depth < maxParenthesisDepth p \<longrightarrow> depth_within (maxParenthesisDepth p - Suc depth) node \<longrightarrow>
      depth + paren_depth n \<le> maxParenthesisDepth p \<and> maxParenthesisDepth p' = maxParenthesisDepth p)"
proof (induction fuel)
  case (Suc fuel)
  have pp: "depth + paren_depth n \<le> maxParenthesisDepth p \<and> maxParenthesisDepth p' = maxParenthesisDepth p"
    if "parseParenthesis fuel depth p = Some (Inr (n, p'))" for depth p n p'
    using that Suc.IH by blast
  have pl: "depth + paren_depth n \<le> maxParenthesisDepth p \<and> maxParenthesisDepth p' = maxParenthesisDepth p"
    if "parenthesis_loop fuel depth node p = Some (Inr (n, p'))" "depth < maxParenthesisDepth p"
      "depth_within (maxParenthesisDepth p - Suc depth) node" for depth node p n p'
    using that Suc.IH by blast
  have "depth + paren_depth n \<le> maxParenthesisDepth p \<and> maxParenthesisDepth p' = maxParenthesisDepth p"
    if "parseParenthesis (Suc fuel) depth p = Some (Inr (n, p'))" for depth p n p'
  proof -
    from that obtain p1 where "\<not> maxParenthesisDepth p \<le> depth" "getNextToken p = Inr p1"
      "parenthesis_loop fuel depth None p1 = Some (Inr (n, p'))"
      by (auto simp: bindO_Inr_iff split: if_splits option.splits)
    with pl [of depth None p1 n p'] getNextToken_max [of p p1] show ?thesis by simp
  qed
  moreover have "depth + paren_depth n \<le> maxParenthesisDepth p \<and> maxParenthesisDepth p' = maxParenthesisDepth p"
    if l: "parenthesis_loop (Suc fuel) depth node p = Some (Inr (n, p'))" and d: "depth < maxParenthesisDepth p"
      and w: "depth_within (maxParenthesisDepth p - Suc depth) node" for depth node p n p'
    using l unfolding parenthesis_loop_round
  proof (cases rule: loop_round_Inr)
    case finish
    with d w show ?thesis by simp
  next
    case (relation m p1 p2)
    with pl [of depth "Some m" p2] d parseRelationshipExpression_flat [OF relation(1)]
      getNextToken_max [OF relation(2)] show ?thesis by simp
  next
    case (operator ty p1 rhs p2 p3)
    have "Suc depth + paren_depth rhs \<le> maxParenthesisDepth p \<and> maxParenthesisDepth p2 = maxParenthesisDepth p"
      using operator(2) pp [of "depth + 1" p1 rhs p2] parseRelationshipExpression_flat [of p1 rhs p2]
        getNextToken_max [OF operator(1)] d by auto
    moreover from this have "paren_depth rhs \<le> maxParenthesisDepth p - Suc depth" by linarith
    ultimately show ?thesis
      using pl [OF operator(4)] getNextToken_max [OF operator(3)] d w by simp
  next
    case (group m p1 p2)
    have "paren_depth m \<le> maxParenthesisDepth p - Suc depth" using pp [OF group(1)] by linarith
    with pl [of depth "Some m" p2] pp [OF group(1)] getNextToken_max [OF group(2)] group(3) d
    show ?thesis by simp
  next
    case stuck
    with pl d w show ?thesis by blast
  qed
  ultimately show ?case by blast
qed simp

lemma expression_loop_depth:
  "expression_loop fuel ns os cur p = Some (Inr (ns', os', p')) \<Longrightarrow>
   \<forall>n \<in> set ns. paren_depth n \<le> maxParenthesisDepth p \<Longrightarrow>
   \<forall>n \<in> set ns'. paren_depth n \<le> maxParenthesisDepth p"
proof (induction fuel arbitrary: ns os cur p)
  case (Suc fuel)
  show ?case
  proof (cases "currentToken p")
    case None
    with Suc.prems show ?thesis by simp
  next
    case (Some t)
    have group: ?thesis if ty: "getType t = LPAREN"
    proof -
      obtain n p1 p2 where "parseParenthesis fuel 0 p = Some (Inr (n, p1))" "getNextToken p1 = Inr p2"
        "expression_loop fuel (n # ns) os cur p2 = Some (Inr (ns', os', p'))"
        using Suc.prems(1) Some ty by (auto simp: bindO_Inr_iff)
      with Suc.IH [of "n # ns" os cur p2] Suc.prems(2) getNextToken_max [of p1 p2] parenthesis_depth
      show ?thesis by fastforce
    qed
    have rel: ?thesis if ty: "getType t = PROPERTY"
    proof -
      obtain n p1 ns1 os1 p2 where "parseRelationshipExpression p = Inr (n, p1)"
        "push_relation cur n ns os = Inr (ns1, os1)" "getNextToken p1 = Inr p2"
        "expression_loop fuel ns1 os1 INVALID p2 = Some (Inr (ns', os', p'))"
        using Suc.prems(1) Some ty by (auto simp: bindO_Inr_iff)
      moreover have "\<forall>m \<in> set ns1. paren_depth m \<le> maxParenthesisDepth p"
        using calculation(1,2) Suc.prems(2) parseRelationshipExpression_flat [of p n p1]
        by (auto simp: push_relation_def split: if_splits list.splits)
      ultimately show ?thesis
        using Suc.IH [of ns1 os1 INVALID p2] parseRelationshipExpression_flat [of p n p1] getNextToken_max [of p1 p2]
        by simp
    qed
    have op: ?thesis if ty: "getType t = AND \<or> getType t = OR"
    proof -
      obtain p1 where "getNextToken p = Inr p1"
        "expression_loop fuel ns (getType t # os) (getType t) p1 = Some (Inr (ns', os', p'))"
        using Suc.prems(1) Some ty by (auto simp: bindO_Inr_iff)
      with Suc.IH [of ns "getType t # os" "getType t" p1] Suc.prems(2) getNextToken_max [of p p1]
      show ?thesis by simp
    qed
    show ?thesis
      using Suc Some group rel op by (cases "getType t \<in> {LPAREN, PROPERTY, AND, OR}") auto
  qed
qed simp

lemma fold_stacks_depth:
  "fold_stacks root ns os = Inr root' \<Longrightarrow> depth_within b root \<Longrightarrow> \<forall>n \<in> set ns. paren_depth n \<le> b \<Longrightarrow>
   depth_within b root'"
  by (induction root ns os rule: fold_stacks.induct) auto

text \<open>C40: No tree the parser returns nests parentheses deeper than \<open>maxParenthesisDepth\<close>.\<close>

theorem parse_depth:
  assumes "parse fuel searchCriteria maxDepth = Some (Inr (Some root))"
  shows "paren_depth root \<le> maxDepth"
proof -
  obtain p where p: "getNextToken \<lparr>currentToken = None,
      lexer = \<lparr>unread = searchCriteria, inQuotes = False\<rparr>, maxParenthesisDepth = maxDepth\<rparr> = Inr p"
    and r: "(if current_is p ASTERISK then bindO (Some (current_value p)) (\<lambda>v. Some (Inr (Some (ASTAsterisk v))))
       else parseSearchExpression fuel p) = Some (Inr (Some root))"
    using assms unfolding parse_def bindO_Inr_iff by auto
  show ?thesis
  proof (cases "current_is p ASTERISK")
    case True
    with r show ?thesis unfolding bindO_Inr_iff by (auto simp: bindO_Inr_iff)
  next
    case False
    with r obtain ns os p1 where "expression_loop fuel [] [] INVALID p = Some (Inr (ns, os, p1))"
      "fold_stacks None ns os = Inr (Some root)"
      by (auto simp: parseSearchExpression_def bindO_Inr_iff)
    with expression_loop_depth [of fuel "[]" "[]" INVALID p] fold_stacks_depth [of None ns os "Some root" maxDepth]
      getNextToken_max [OF p] show ?thesis by simp
  qed
qed

lemma parse_depth_witness: "paren_depth (ASTParenthesis (ASTCompareExpression ''a'' ''=''
    (ASTQuotedString [CHR 0x22] ''1'' [CHR 0x22]))) \<le> 1"
proof -
  have e: "parse 9 (''(a = '' @ quoted ''1'' @ '')'') 1 = Some (Inr (Some (ASTParenthesis
      (ASTCompareExpression ''a'' ''='' (ASTQuotedString [CHR 0x22] ''1'' [CHR 0x22])))))"
    by code_simp
  show ?thesis by (rule parse_depth [OF e])
qed

end
