(* ===== verification/Search_Grammar.thy ===== *)
theory Search_Grammar
  imports Search_Parser
begin

text \<open>
  A specification of search criteria as an abstract syntax with its text, its tokens and its
  tree, and the proof that the parser of \<open>Search_Parser\<close> turns the text into the tree. A
  criterion is a first term followed by operators and terms; a term is a relation or a
  parenthesised criterion.
\<close>

datatype relation =
    Compare string string string
  | Matches string string string
  | Exists string bool

datatype criteria_term = Rel relation | Group criteria_term "(bool \<times> criteria_term) list"

section \<open>Text, tokens and tree\<close>

definition bool_name :: "bool \<Rightarrow> string" where
  "bool_name b = (if b then ''true'' else ''false'')"

fun relation_text :: "relation \<Rightarrow> string" where
  "relation_text (Compare prp op v) = prp @ '' '' @ op @ '' '' @ quoted v"
| "relation_text (Matches prp op v) = prp @ '' '' @ op @ '' '' @ quoted v"
| "relation_text (Exists prp b) = prp @ '' exists '' @ bool_name b"

fun relation_tokens :: "relation \<Rightarrow> SearchToken list" where
  "relation_tokens (Compare prp op v) =
     SearchToken PROPERTY prp # SearchToken COMPAREOP op # literal_tokens v"
| "relation_tokens (Matches prp op v) =
     SearchToken PROPERTY prp # SearchToken STRINGOP op # literal_tokens v"
| "relation_tokens (Exists prp b) =
     [SearchToken PROPERTY prp, SearchToken EXISTS ''exists'', SearchToken BOOLVAL (bool_name b)]"

definition quoted_node :: "string \<Rightarrow> ASTQuotedString" where
  "quoted_node v = ASTQuotedString [CHR 0x22] v [CHR 0x22]"

fun relation_node :: "relation \<Rightarrow> ASTNode" where
  "relation_node (Compare prp op v) = ASTCompareExpression prp op (quoted_node v)"
| "relation_node (Matches prp op v) = ASTStringExpression prp op (quoted_node v)"
| "relation_node (Exists prp b) = ASTExistsExpression prp ''exists'' (bool_name b)"

definition op_text :: "bool \<Rightarrow> string" where
  "op_text cj = (if cj then '' and '' else '' or '')"

definition op_type :: "bool \<Rightarrow> TokenType" where
  "op_type cj = (if cj then AND else OR)"

definition op_token :: "bool \<Rightarrow> SearchToken" where
  "op_token cj = (if cj then SearchToken AND ''and'' else SearchToken OR ''or'')"

fun term_text :: "criteria_term \<Rightarrow> string" where
  "term_text (Rel r) = relation_text r"
| "term_text (Group t ts) =
     ''('' @ term_text t @ concat (map (\<lambda>(o1, u). op_text o1 @ term_text u) ts) @ '')''"

definition tail_text :: "(bool \<times> criteria_term) list \<Rightarrow> string" where
  "tail_text ts = concat (map (\<lambda>(o1, u). op_text o1 @ term_text u) ts)"

fun term_tokens :: "criteria_term \<Rightarrow> SearchToken list" where
  "term_tokens (Rel r) = relation_tokens r"
| "term_tokens (Group t ts) =
     SearchToken LPAREN ''('' # term_tokens t @
     concat (map (\<lambda>(o1, u). op_token o1 # term_tokens u) ts) @ [SearchToken RPAREN '')'']"

definition tail_tokens :: "(bool \<times> criteria_term) list \<Rightarrow> SearchToken list" where
  "tail_tokens ts = concat (map (\<lambda>(o1, u). op_token o1 # term_tokens u) ts)"

text \<open>Operators inside a group associate to the left.\<close>

fun term_node :: "criteria_term \<Rightarrow> ASTNode" where
  "term_node (Rel r) = relation_node r"
| "term_node (Group t ts) =
     ASTParenthesis (foldl (\<lambda>n (o1, u). mk_operator (op_type o1) (Some n) u) (term_node t)
       (map (\<lambda>(o1, u). (o1, term_node u)) ts))"

fun term_depth :: "criteria_term \<Rightarrow> nat" where
  "term_depth (Rel r) = 0"
| "term_depth (Group t ts) =
     Suc (max (term_depth t) (foldr (\<lambda>(o1, u) m. max (term_depth u) m) ts 0))"

definition property_ok :: "string \<Rightarrow> bool" where
  "property_ok s = (s \<noteq> [] \<and> list_all name_char s \<and> tokenTypes (toLower s) = None)"

definition string_op_ok :: "string \<Rightarrow> bool" where
  "string_op_ok s = (s \<noteq> [] \<and> list_all name_char s \<and> tokenTypes (toLower s) = Some STRINGOP)"

fun relation_ok :: "relation \<Rightarrow> bool" where
  "relation_ok (Compare prp op v) = (property_ok prp \<and> op \<in> set compare_ops \<and> literal_ok v)"
| "relation_ok (Matches prp op v) = (property_ok prp \<and> string_op_ok op \<and> literal_ok v)"
| "relation_ok (Exists prp b) = property_ok prp"

fun term_ok :: "criteria_term \<Rightarrow> bool" where
  "term_ok (Rel r) = relation_ok r"
| "term_ok (Group t ts) = (term_ok t \<and> (\<forall>x \<in> set ts. term_ok (snd x)))"

section \<open>From text to tokens\<close>

definition ends_name :: "string \<Rightarrow> bool" where
  "ends_name s = (s \<noteq> [] \<longrightarrow> \<not> name_char (hd s))"

lemma ends_name_simps [simp]: "ends_name []" "ends_name (CHR '' '' # s)" "ends_name (CHR '')'' # s)"
  by (simp_all add: ends_name_def name_char_def char_defs)

lemma ends_name_op [simp]: "ends_name (op_text cj @ s)"
  by (simp add: op_text_def)

lemma lex_name':
  "n \<noteq> [] \<Longrightarrow> list_all name_char n \<Longrightarrow> ends_name s \<Longrightarrow> lex_all (outside s) = Inr ts \<Longrightarrow>
   lex_all (outside (n @ s)) = Inr (makeToken n # ts)"
  by (rule lex_name) (auto simp: ends_name_def)

lemma makeToken_simps:
  "property_ok s \<Longrightarrow> makeToken s = SearchToken PROPERTY s"
  "string_op_ok s \<Longrightarrow> makeToken s = SearchToken STRINGOP s"
  by (simp_all add: makeToken_def property_ok_def string_op_ok_def)

lemma makeToken_bool_name: "makeToken (bool_name b) = SearchToken BOOLVAL (bool_name b) \<and>
    list_all name_char (bool_name b)"
proof -
  have "makeToken ''true'' = SearchToken BOOLVAL ''true'' \<and> list_all name_char ''true''"
    "makeToken ''false'' = SearchToken BOOLVAL ''false'' \<and> list_all name_char ''false''"
    by - code_simp+
  then show ?thesis by (simp add: bool_name_def)
qed

lemma makeToken_names:
  "makeToken ''exists'' = SearchToken EXISTS ''exists'' \<and> list_all name_char ''exists''"
  "makeToken ''and'' = SearchToken AND ''and'' \<and> list_all name_char ''and''"
  "makeToken ''or'' = SearchToken OR ''or'' \<and> list_all name_char ''or''"
  by - code_simp+

lemma lex_property:
  assumes "property_ok prp" and "lex_all (outside s) = Inr ts"
  shows "lex_all (outside (prp @ CHR '' '' # s)) = Inr (SearchToken PROPERTY prp # ts)"
  using lex_name' [of prp "CHR '' '' # s" ts] assms
  by (simp add: lex_space makeToken_simps property_ok_def)

lemma lex_relation:
  assumes "relation_ok r" and "ends_name s" and "lex_all (outside s) = Inr ts"
  shows "lex_all (outside (relation_text r @ s)) = Inr (relation_tokens r @ ts)"
proof (cases r)
  case (Compare prp op v)
  with assms have "lex_all (outside (CHR '' '' # quoted v @ s)) = Inr (literal_tokens v @ ts)"
    by (simp add: lex_space lex_quoted)
  with Compare assms show ?thesis by (simp add: lex_property lex_compare)
next
  case (Matches prp op v)
  with assms have "lex_all (outside (CHR '' '' # quoted v @ s)) = Inr (literal_tokens v @ ts)"
    by (simp add: lex_space lex_quoted)
  with Matches assms have "lex_all (outside (op @ CHR '' '' # quoted v @ s))
      = Inr (SearchToken STRINGOP op # literal_tokens v @ ts)"
    using lex_name' [of op "CHR '' '' # quoted v @ s"] by (simp add: makeToken_simps string_op_ok_def)
  with Matches assms show ?thesis by (simp add: lex_property)
next
  case (Exists prp b)
  have "lex_all (outside (bool_name b @ s)) = Inr (SearchToken BOOLVAL (bool_name b) # ts)"
    using lex_name' [of "bool_name b" s] assms makeToken_bool_name [of b] makeToken_names
    by (simp add: bool_name_def)
  then have "lex_all (outside (''exists'' @ CHR '' '' # bool_name b @ s))
      = Inr (SearchToken EXISTS ''exists'' # SearchToken BOOLVAL (bool_name b) # ts)"
    using lex_name' [of "''exists''" "CHR '' '' # bool_name b @ s"] makeToken_bool_name [of b] makeToken_names
    by (simp add: lex_space)
  with Exists assms show ?thesis
    using lex_property [of prp "''exists'' @ CHR '' '' # bool_name b @ s"] by simp
qed

lemma lex_op:
  assumes "lex_all (outside s) = Inr ts"
  shows "lex_all (outside (op_text cj @ s)) = Inr (op_token cj # ts)"
proof -
  have "lex_all (outside (''and'' @ CHR '' '' # s)) = Inr (SearchToken AND ''and'' # ts)"
    "lex_all (outside (''or'' @ CHR '' '' # s)) = Inr (SearchToken OR ''or'' # ts)"
    using lex_name' [of "''and''" "CHR '' '' # s"] lex_name' [of "''or''" "CHR '' '' # s"]
      makeToken_names assms by (simp_all add: lex_space)
  then show ?thesis by (simp add: op_text_def op_token_def lex_space)
qed

lemma lex_term:
  "term_ok t \<Longrightarrow> ends_name s \<Longrightarrow> lex_all (outside s) = Inr toks \<Longrightarrow>
   lex_all (outside (term_text t @ s)) = Inr (term_tokens t @ toks)"
proof (induction t arbitrary: s toks)
  case (Rel r)
  then show ?case by (simp add: lex_relation)
next
  case (Group t ts)
  let ?e = "SearchToken RPAREN '')''"
  have close: "lex_all (outside ('')'' @ s)) = Inr (?e # toks)"
    using lex_single [of "CHR '')''" s toks] Group.prems by (simp add: tokenTypes_def)
  have tail: "lex_all (outside (concat (map (\<lambda>(o1, u). op_text o1 @ term_text u) us) @ '')'' @ s))
      = Inr (concat (map (\<lambda>(o1, u). op_token o1 # term_tokens u) us) @ ?e # toks) \<and>
      ends_name (concat (map (\<lambda>(o1, u). op_text o1 @ term_text u) us) @ '')'' @ s)"
    if "set us \<subseteq> set ts" for us
    using that
  proof (induction us)
    case Nil
    with close show ?case by simp
  next
    case (Cons x us)
    obtain o1 u where x: "x = (o1, u)" by fastforce
    with Cons.prems have "(o1, u) \<in> set ts" by simp
    with Group.prems(1) have "term_ok u" by fastforce
    with Group.IH(2) [OF \<open>(o1, u) \<in> set ts\<close>, of u] Cons x show ?case
      by (simp add: lex_op)
  qed
  have "lex_all (outside (term_text t @ concat (map (\<lambda>(o1, u). op_text o1 @ term_text u) ts) @ '')'' @ s))
      = Inr (term_tokens t @ concat (map (\<lambda>(o1, u). op_token o1 # term_tokens u) ts) @ ?e # toks)"
    using Group.IH(1) Group.prems(1) tail [of ts] by simp
  then show ?case
    using lex_single [of "CHR ''(''"] by (simp add: tokenTypes_def)
qed

lemma lex_tail:
  "\<forall>x \<in> set ts. term_ok (snd x) \<Longrightarrow> lex_all (outside (tail_text ts)) = Inr (tail_tokens ts) \<and>
   ends_name (tail_text ts)"
proof (induction ts)
  case Nil
  then show ?case by (simp add: tail_text_def tail_tokens_def lex_end)
next
  case (Cons x ts)
  then show ?case
    using lex_term [of "snd x" "tail_text ts" "tail_tokens ts"]
    by (cases x) (auto simp: tail_text_def tail_tokens_def lex_op)
qed

section \<open>From tokens to the tree\<close>

text \<open>The parser stands before the tokens \<open>ts\<close>: the first is the current one, the lexer has the rest.\<close>

definition stands_at :: "SearchParser \<Rightarrow> SearchToken list \<Rightarrow> bool" where
  "stands_at p ts =
     (case ts of [] \<Rightarrow> currentToken p = None
      | t # ts' \<Rightarrow> currentToken p = Some t \<and> lex_all (lexer p) = Inr ts')"

lemma stands_at_Cons [simp]:
  "stands_at p (t # ts) \<longleftrightarrow> currentToken p = Some t \<and> lex_all (lexer p) = Inr ts"
  by (simp add: stands_at_def)

lemma stands_at_Nil [simp]: "stands_at p [] \<longleftrightarrow> currentToken p = None"
  by (simp add: stands_at_def)

lemma lex_all_next:
  assumes "lex_all lx = Inr ts"
  obtains lx' where "ts = []" "nextToken lx = Inr (None, lx')"
  | t lx' ts' where "ts = t # ts'" "nextToken lx = Inr (Some t, lx')" "lex_all lx' = Inr ts'"
  using assms by (subst (asm) lex_all.simps) (auto split: sum.splits option.splits)

lemma getNextToken_at:
  assumes "stands_at p (t # ts)"
  obtains p' where "getNextToken p = Inr p'" "stands_at p' ts"
    "maxParenthesisDepth p' = maxParenthesisDepth p"
proof -
  from assms have "lex_all (lexer p) = Inr ts" by simp
  then show ?thesis
    by (cases rule: lex_all_next) (auto intro!: that simp: getNextToken_def)
qed

lemma current_simps:
  "stands_at p (t # ts) \<Longrightarrow> current_is p ty = (getType t = ty) \<and> current_value p = Inr (getValue t)"
  by (simp add: current_is_def current_value_def)

lemma parseQuotedString_at:
  assumes "stands_at p (literal_tokens v @ rest)"
  obtains p' where "parseQuotedString p = Inr (quoted_node v, p')"
    "stands_at p' (SearchToken DQUOTE [CHR 0x22] # rest)" "maxParenthesisDepth p' = maxParenthesisDepth p"
proof -
  let ?q = "SearchToken DQUOTE [CHR 0x22]"
  have s0: "stands_at p (?q # (if v = [] then [] else [SearchToken ESCAPEDSTRING v]) @ ?q # rest)"
    using assms by (simp add: literal_tokens_def)
  note c0 = current_simps [OF s0]
  from s0 obtain p1 where p1: "getNextToken p = Inr p1"
    "stands_at p1 ((if v = [] then [] else [SearchToken ESCAPEDSTRING v]) @ ?q # rest)"
    "maxParenthesisDepth p1 = maxParenthesisDepth p" by (rule getNextToken_at)
  show ?thesis
  proof (cases "v = []")
    case True
    with p1(2) have "stands_at p1 (?q # rest)" by simp
    with current_simps [OF this] c0 p1 True that [of p1] show ?thesis
      by (simp add: parseQuotedString_def quoted_node_def)
  next
    case False
    with p1(2) have s1: "stands_at p1 (SearchToken ESCAPEDSTRING v # ?q # rest)" by simp
    then obtain p2 where p2: "getNextToken p1 = Inr p2" "stands_at p2 (?q # rest)"
      "maxParenthesisDepth p2 = maxParenthesisDepth p1" by (rule getNextToken_at)
    with current_simps [OF s1] current_simps [OF p2(2)] c0 p1 that [of p2] show ?thesis
      by (simp add: parseQuotedString_def quoted_node_def)
  qed
qed

lemma parseRelation_at:
  assumes "stands_at p (relation_tokens r @ rest)"
  obtains p' x where "parseRelationshipExpression p = Inr (relation_node r, p')"
    "stands_at p' (x # rest)" "maxParenthesisDepth p' = maxParenthesisDepth p"
proof -
  obtain prp t2 tl2 where toks: "relation_tokens r = SearchToken PROPERTY prp # t2 # tl2"
    by (cases r) auto
  with assms have s0: "stands_at p (SearchToken PROPERTY prp # t2 # tl2 @ rest)" by simp
  note c0 = current_simps [OF s0]
  from s0 obtain p1 where p1: "getNextToken p = Inr p1" "stands_at p1 (t2 # tl2 @ rest)"
    "maxParenthesisDepth p1 = maxParenthesisDepth p" by (rule getNextToken_at)
  note c1 = current_simps [OF p1(2)]
  from p1(2) obtain p2 where p2: "getNextToken p1 = Inr p2" "stands_at p2 (tl2 @ rest)"
    "maxParenthesisDepth p2 = maxParenthesisDepth p1" by (rule getNextToken_at)
  show ?thesis
  proof (cases r)
    case (Compare prp' op v)
    with toks p2(2) obtain p3 where "parseQuotedString p2 = Inr (quoted_node v, p3)"
      "stands_at p3 (SearchToken DQUOTE [CHR 0x22] # rest)" "maxParenthesisDepth p3 = maxParenthesisDepth p2"
      by (auto elim: parseQuotedString_at)
    with Compare toks c0 c1 p1 p2 that [of p3] show ?thesis
      by (auto simp: parseRelationshipExpression_def)
  next
    case (Matches prp' op v)
    with toks p2(2) obtain p3 where "parseQuotedString p2 = Inr (quoted_node v, p3)"
      "stands_at p3 (SearchToken DQUOTE [CHR 0x22] # rest)" "maxParenthesisDepth p3 = maxParenthesisDepth p2"
      by (auto elim: parseQuotedString_at)
    with Matches toks c0 c1 p1 p2 that [of p3] show ?thesis
      by (auto simp: parseRelationshipExpression_def)
  next
    case (Exists prp' b)
    with toks p2(2) have s2: "stands_at p2 (SearchToken BOOLVAL (bool_name b) # rest)" by auto
    with current_simps [OF s2] Exists toks c0 c1 p1 p2 that [OF _ s2] show ?thesis
      by (auto simp: parseRelationshipExpression_def)
  qed
qed

lemma relation_tokens_first:
  "\<exists>prp ts. relation_tokens r = SearchToken PROPERTY prp # ts"
  by (cases r) auto

text \<open>What the parser does with a term at hand, and with the rest of a group.\<close>

definition term_parses :: "criteria_term \<Rightarrow> bool" where
  "term_parses t =
     (\<forall>p rest depth fuel.
        stands_at p (term_tokens t @ rest) \<longrightarrow> depth + term_depth t \<le> maxParenthesisDepth p \<longrightarrow>
        length (term_tokens t) \<le> fuel \<longrightarrow>
        (\<exists>p' x. stands_at p' (x # rest) \<and> maxParenthesisDepth p' = maxParenthesisDepth p \<and>
           (case t of Rel r \<Rightarrow> parseRelationshipExpression p = Inr (term_node t, p')
            | Group _ _ \<Rightarrow> parseParenthesis fuel depth p = Some (Inr (term_node t, p')))))"

lemma term_parsesD:
  assumes "term_parses t" and "stands_at p (term_tokens t @ rest)"
    and "depth + term_depth t \<le> maxParenthesisDepth p" and "length (term_tokens t) \<le> fuel"
  shows "\<exists>p' x. stands_at p' (x # rest) \<and> maxParenthesisDepth p' = maxParenthesisDepth p \<and>
    (case t of Rel r \<Rightarrow> parseRelationshipExpression p = Inr (term_node t, p')
     | Group _ _ \<Rightarrow> parseParenthesis fuel depth p = Some (Inr (term_node t, p')))"
  using assms unfolding term_parses_def by blast

lemma term_tokens_first:
  "\<exists>tk ts. term_tokens t = tk # ts \<and>
     getType tk = (case t of Rel _ \<Rightarrow> PROPERTY | Group _ _ \<Rightarrow> LPAREN)"
  using relation_tokens_first by (cases t) fastforce+

definition extend_group :: "ASTNode \<Rightarrow> (bool \<times> criteria_term) list \<Rightarrow> ASTNode" where
  "extend_group n ts =
     foldl (\<lambda>n (o1, u). mk_operator (op_type o1) (Some n) u) n (map (\<lambda>(o1, u). (o1, term_node u)) ts)"

lemma extend_group_simps [simp]:
  "extend_group n [] = n"
  "extend_group n ((o1, u) # ts) = extend_group (mk_operator (op_type o1) (Some n) (term_node u)) ts"
  by (simp_all add: extend_group_def)

lemma op_token_type [simp]: "getType (op_token o1) = op_type o1" "op_type o1 = AND \<or> op_type o1 = OR"
  by (simp_all add: op_token_def op_type_def)

lemma op_type_not [simp]: "op_type o1 \<noteq> RPAREN" "op_type o1 \<noteq> PROPERTY" "op_type o1 \<noteq> LPAREN"
  by (simp_all add: op_type_def)

lemma group_tail_parses:
  assumes "\<forall>x \<in> set ts. term_parses (snd x)"
    and "stands_at p (tail_tokens ts @ SearchToken RPAREN '')'' # rest)"
    and "\<forall>x \<in> set ts. Suc depth + term_depth (snd x) \<le> maxParenthesisDepth p"
    and "length (tail_tokens ts) < fuel"
  shows "\<exists>p'. parenthesis_loop fuel depth (Some n) p = Some (Inr (ASTParenthesis (extend_group n ts), p')) \<and>
    stands_at p' (SearchToken RPAREN '')'' # rest) \<and> maxParenthesisDepth p' = maxParenthesisDepth p"
  using assms
proof (induction ts arbitrary: p n fuel)
  case Nil
  then obtain f where f: "fuel = Suc f" by (cases fuel) auto
  from Nil have "stands_at p (SearchToken RPAREN '')'' # rest)" by (simp add: tail_tokens_def)
  then show ?case
    unfolding f parenthesis_loop_round by (auto simp: loop_round_def parenthesis_end_def)
next
  case (Cons x ts)
  obtain o1 u where x: "x = (o1, u)" by fastforce
  from Cons.prems(4) obtain f where f: "fuel = Suc f" by (cases fuel) auto
  let ?rest = "tail_tokens ts @ SearchToken RPAREN '')'' # rest"
  have s: "stands_at p (op_token o1 # term_tokens u @ ?rest)"
    using Cons.prems(2) x by (simp add: tail_tokens_def)
  then obtain p1 where p1: "getNextToken p = Inr p1" "stands_at p1 (term_tokens u @ ?rest)"
    "maxParenthesisDepth p1 = maxParenthesisDepth p" by (rule getNextToken_at)
  have len: "length (term_tokens u) \<le> f" "length (tail_tokens ts) < f"
    using Cons.prems(4) x f by (auto simp: tail_tokens_def)
  obtain p2 y where p2: "stands_at p2 (y # ?rest)" "maxParenthesisDepth p2 = maxParenthesisDepth p"
    "case u of Rel r \<Rightarrow> parseRelationshipExpression p1 = Inr (term_node u, p2)
     | Group _ _ \<Rightarrow> parseParenthesis f (depth + 1) p1 = Some (Inr (term_node u, p2))"
    using term_parsesD [of u p1 ?rest "depth + 1" f] Cons.prems(1,3) p1(2,3) len(1) x by auto
  from p2(1) obtain p3 where p3: "getNextToken p2 = Inr p3" "stands_at p3 ?rest"
    "maxParenthesisDepth p3 = maxParenthesisDepth p2" by (rule getNextToken_at)
  have rhs: "(case currentToken p1 of None \<Rightarrow> Some (Inl Null_dereference)
      | Some t1 \<Rightarrow> if getType t1 = LPAREN then parseParenthesis f (Suc depth) p1
                   else Some (parseRelationshipExpression p1)) = Some (Inr (term_node u, p2))"
    using term_tokens_first [of u] p1(2) p2(3) by (cases u) auto
  have "parenthesis_loop fuel depth (Some n) p
      = parenthesis_loop f depth (Some (mk_operator (op_type o1) (Some n) (term_node u))) p3"
    unfolding f parenthesis_loop_round using s p1(1) p3(1) rhs
    by (simp add: loop_round_def)
  moreover have "\<exists>p'. parenthesis_loop f depth (Some (mk_operator (op_type o1) (Some n) (term_node u))) p3
      = Some (Inr (ASTParenthesis (extend_group (mk_operator (op_type o1) (Some n) (term_node u)) ts), p')) \<and>
      stands_at p' (SearchToken RPAREN '')'' # rest) \<and> maxParenthesisDepth p' = maxParenthesisDepth p3"
    using Cons.prems p3(2,3) p2(2) len(2) by (intro Cons.IH) auto
  ultimately show ?case using x p3(3) p2(2) by auto
qed

lemma foldr_max_mem: "x \<in> set ts \<Longrightarrow> term_depth (snd x) \<le> foldr (\<lambda>(o1, u) m. max (term_depth u) m) ts 0"
  by (induction ts) (auto split: prod.splits)

lemma term_parses: "term_parses t"
proof (induction t)
  case (Rel r)
  show ?case
    unfolding term_parses_def by (auto elim!: parseRelation_at)
next
  case (Group t ts)
  have tl: "\<forall>x \<in> set ts. term_parses (snd x)" using Group.IH(2) by fastforce
  show ?case
    unfolding term_parses_def
  proof (intro allI impI)
    fix p rest depth fuel
    assume s: "stands_at p (term_tokens (Group t ts) @ rest)"
      and d: "depth + term_depth (Group t ts) \<le> maxParenthesisDepth p"
      and l: "length (term_tokens (Group t ts)) \<le> fuel"
    let ?close = "SearchToken RPAREN '')'' # rest"
    have s0: "stands_at p (SearchToken LPAREN ''('' # term_tokens t @ tail_tokens ts @ ?close)"
      using s by (simp add: tail_tokens_def)
    then obtain p1 where p1: "getNextToken p = Inr p1" "stands_at p1 (term_tokens t @ tail_tokens ts @ ?close)"
      "maxParenthesisDepth p1 = maxParenthesisDepth p" by (rule getNextToken_at)
    obtain f where f: "fuel = Suc (Suc f)" using l by (cases fuel; cases "fuel - 1") auto
    have len: "length (term_tokens t) \<le> f" "length (tail_tokens ts) < f"
      using l f term_tokens_first [of t] by (auto simp: tail_tokens_def)
    have dt: "depth + 1 + term_depth t \<le> maxParenthesisDepth p1"
      using d p1(3) by (auto simp: max_def split: if_splits)
    obtain p2 y where p2: "stands_at p2 (y # tail_tokens ts @ ?close)"
      "maxParenthesisDepth p2 = maxParenthesisDepth p"
      "case t of Rel r \<Rightarrow> parseRelationshipExpression p1 = Inr (term_node t, p2)
       | Group _ _ \<Rightarrow> parseParenthesis f (depth + 1) p1 = Some (Inr (term_node t, p2))"
      using term_parsesD [OF Group.IH(1) p1(2), of "depth + 1" f] dt p1(3) len(1) by auto
    from p2(1) obtain p3 where p3: "getNextToken p2 = Inr p3" "stands_at p3 (tail_tokens ts @ ?close)"
      "maxParenthesisDepth p3 = maxParenthesisDepth p2" by (rule getNextToken_at)
    have first: "parenthesis_loop (Suc f) depth None p1 = parenthesis_loop f depth (Some (term_node t)) p3"
      unfolding parenthesis_loop_round
      using term_tokens_first [of t] p1(2) p2(3) p3(1) by (cases t) (auto simp: loop_round_def)
    have "\<forall>x \<in> set ts. Suc depth + term_depth (snd x) \<le> maxParenthesisDepth p3"
      using foldr_max_mem [of _ ts] d p2(2) p3(3) by fastforce
    with group_tail_parses [OF tl p3(2) _ len(2)] obtain p4 where
      p4: "parenthesis_loop f depth (Some (term_node t)) p3
           = Some (Inr (ASTParenthesis (extend_group (term_node t) ts), p4))"
        "stands_at p4 ?close" "maxParenthesisDepth p4 = maxParenthesisDepth p3"
      by blast
    have "parseParenthesis fuel depth p = Some (Inr (term_node (Group t ts), p4))"
      using s0 d p1(1) p4(1) first unfolding f by (simp add: extend_group_def)
    with p4 p3 p2 show "\<exists>p' x. stands_at p' (x # rest) \<and> maxParenthesisDepth p' = maxParenthesisDepth p \<and>
        (case Group t ts of Rel r \<Rightarrow> parseRelationshipExpression p = Inr (term_node (Group t ts), p')
         | Group _ _ \<Rightarrow> parseParenthesis fuel depth p = Some (Inr (term_node (Group t ts), p')))"
      by auto
  qed
qed

text \<open>The stacks after the rest of a criterion: a relation joins the top node, a group is pushed.\<close>

fun run_stacks ::
  "ASTNode list \<Rightarrow> TokenType list \<Rightarrow> (bool \<times> criteria_term) list \<Rightarrow> ASTNode list \<times> TokenType list" where
  "run_stacks ns os [] = (ns, os)"
| "run_stacks ns os ((o1, Rel r) # ts) =
     run_stacks (mk_operator (op_type o1) (Some (hd ns)) (relation_node r) # tl ns) os ts"
| "run_stacks ns os ((o1, Group t us) # ts) =
     run_stacks (term_node (Group t us) # ns) (op_type o1 # os) ts"

lemma expression_loop_tail:
  assumes "stands_at p (tail_tokens ts)" and "ns \<noteq> []"
    and "\<forall>x \<in> set ts. term_depth (snd x) \<le> maxParenthesisDepth p" and "length (tail_tokens ts) < fuel"
  shows "\<exists>p'. expression_loop fuel ns os cur p
      = Some (Inr (fst (run_stacks ns os ts), snd (run_stacks ns os ts), p'))"
  using assms
proof (induction ts arbitrary: p ns os cur fuel)
  case Nil
  then show ?case by (cases fuel) (auto simp: tail_tokens_def)
next
  case (Cons x ts)
  obtain o1 u where x: "x = (o1, u)" by fastforce
  have s: "stands_at p (op_token o1 # term_tokens u @ tail_tokens ts)"
    using Cons.prems(1) x by (simp add: tail_tokens_def)
  then obtain p1 where p1: "getNextToken p = Inr p1" "stands_at p1 (term_tokens u @ tail_tokens ts)"
    "maxParenthesisDepth p1 = maxParenthesisDepth p" by (rule getNextToken_at)
  obtain f where f: "fuel = Suc (Suc f)"
    using Cons.prems(4) x term_tokens_first [of u]
    by (cases fuel; cases "fuel - 1") (auto simp: tail_tokens_def)
  have len: "length (term_tokens u) \<le> f" "length (tail_tokens ts) < f"
    using Cons.prems(4) x f term_tokens_first [of u] by (auto simp: tail_tokens_def)
  obtain p2 y where p2: "stands_at p2 (y # tail_tokens ts)" "maxParenthesisDepth p2 = maxParenthesisDepth p"
    "case u of Rel r \<Rightarrow> parseRelationshipExpression p1 = Inr (term_node u, p2)
     | Group _ _ \<Rightarrow> parseParenthesis f 0 p1 = Some (Inr (term_node u, p2))"
    using term_parsesD [OF term_parses p1(2), of 0 f] Cons.prems(3) p1(3) x len(1) by auto
  from p2(1) obtain p3 where p3: "getNextToken p2 = Inr p3" "stands_at p3 (tail_tokens ts)"
    "maxParenthesisDepth p3 = maxParenthesisDepth p2" by (rule getNextToken_at)
  have op: "expression_loop fuel ns os cur p = expression_loop (Suc f) ns (op_type o1 # os) (op_type o1) p1"
    using s p1(1) f by simp
  have d3: "\<forall>x \<in> set ts. term_depth (snd x) \<le> maxParenthesisDepth p3"
    using Cons.prems(3) p2(2) p3(3) by simp
  show ?case
  proof (cases u)
    case (Rel r)
    obtain n ns' where ns: "ns = n # ns'" using Cons.prems(2) by (cases ns) auto
    have "expression_loop (Suc f) ns (op_type o1 # os) (op_type o1) p1
        = expression_loop f (mk_operator (op_type o1) (Some n) (relation_node r) # ns') os INVALID p3"
      using Rel term_tokens_first [of u] p1(2) p2(3) p3(1) ns
      by (cases o1) (auto simp: push_relation_def op_type_def)
    with op x Rel ns Cons.IH [OF p3(2) _ d3 len(2)] show ?thesis by simp
  next
    case (Group t us)
    have "expression_loop (Suc f) ns (op_type o1 # os) (op_type o1) p1
        = expression_loop f (term_node u # ns) (op_type o1 # os) (op_type o1) p3"
      using Group term_tokens_first [of u] p1(2) p2(3) p3(1) by auto
    with op x Group Cons.IH [OF p3(2) _ d3 len(2)] show ?thesis by simp
  qed
qed

definition criteria_text :: "criteria_term \<Rightarrow> (bool \<times> criteria_term) list \<Rightarrow> string" where
  "criteria_text t ts = term_text t @ tail_text ts"

definition criteria_ok :: "criteria_term \<Rightarrow> (bool \<times> criteria_term) list \<Rightarrow> nat \<Rightarrow> bool" where
  "criteria_ok t ts maxDepth =
     (term_ok t \<and> term_depth t \<le> maxDepth \<and>
      (\<forall>x \<in> set ts. term_ok (snd x) \<and> term_depth (snd x) \<le> maxDepth))"

lemma lex_all_length: "lex_all lx = Inr ts \<Longrightarrow> length ts \<le> length (unread lx)"
proof (induction lx arbitrary: ts rule: lex_all.induct)
  case (1 lx)
  from "1.prems" show ?case
  proof (cases rule: lex_all_next)
    case (2 t lx' ts')
    with "1.IH" [OF 2(2)] nextToken_progress [OF 2(2)] show ?thesis by fastforce
  qed simp
qed

lemma parse_criteria:
  assumes ok: "criteria_ok t ts maxDepth" and fuel: "length (criteria_text t ts) < fuel"
  shows "parse fuel (criteria_text t ts) maxDepth
    = Some (fold_stacks None (fst (run_stacks [term_node t] [] ts)) (snd (run_stacks [term_node t] [] ts)))"
proof -
  let ?lx = "\<lparr>unread = criteria_text t ts, inQuotes = False\<rparr>"
  have toks: "lex_all ?lx = Inr (term_tokens t @ tail_tokens ts)"
    using lex_term [of t "tail_text ts" "tail_tokens ts"] lex_tail [of ts] ok
    by (simp add: criteria_ok_def criteria_text_def)
  have len: "length (term_tokens t @ tail_tokens ts) < fuel"
    using lex_all_length [OF toks] fuel by simp
  obtain tk tks where tk: "term_tokens t = tk # tks"
    and ty: "getType tk = (case t of Rel _ \<Rightarrow> PROPERTY | Group _ _ \<Rightarrow> LPAREN)"
    using term_tokens_first by blast
  obtain p where p: "getNextToken \<lparr>currentToken = None, lexer = ?lx, maxParenthesisDepth = maxDepth\<rparr> = Inr p"
    "stands_at p (term_tokens t @ tail_tokens ts)" "maxParenthesisDepth p = maxDepth"
    using toks tk by (auto simp: getNextToken_def elim: lex_all_next)
  obtain f where f: "fuel = Suc f" using len by (cases fuel) auto
  have fl: "length (term_tokens t) \<le> f" "length (tail_tokens ts) < f"
    using len f tk by auto
  obtain p2 y where p2: "stands_at p2 (y # tail_tokens ts)" "maxParenthesisDepth p2 = maxDepth"
    "case t of Rel r \<Rightarrow> parseRelationshipExpression p = Inr (term_node t, p2)
     | Group _ _ \<Rightarrow> parseParenthesis f 0 p = Some (Inr (term_node t, p2))"
    using term_parsesD [OF term_parses p(2), of 0 f] ok p(3) fl(1) by (auto simp: criteria_ok_def)
  from p2(1) obtain p3 where p3: "getNextToken p2 = Inr p3" "stands_at p3 (tail_tokens ts)"
    "maxParenthesisDepth p3 = maxParenthesisDepth p2" by (rule getNextToken_at)
  have "expression_loop fuel [] [] INVALID p = expression_loop f [term_node t] [] INVALID p3"
    using p(2) tk ty p2(3) p3(1) f by (cases t) (auto simp: push_relation_def)
  moreover obtain p4 where "expression_loop f [term_node t] [] INVALID p3
      = Some (Inr (fst (run_stacks [term_node t] [] ts), snd (run_stacks [term_node t] [] ts), p4))"
    using expression_loop_tail [OF p3(2) _ _ fl(2), of "[term_node t]" "[]" INVALID] ok p2(2) p3(3)
    by (auto simp: criteria_ok_def)
  moreover have "\<not> current_is p ASTERISK"
    using p(2) tk ty by (cases t) (auto simp: current_is_def)
  ultimately show ?thesis using p(1) by (simp add: parse_def parseSearchExpression_def)
qed

end
