(* ===== verification/Column_Mapper.thy ===== *)
theory Column_Mapper
  imports Search_Lexer
begin

text \<open>
  The column mappers of \<open>src/src/database/search_handler.h\<close>: the interface \<open>ColumnMapper\<close>
  with its one implementation \<open>EnumColumnMapper\<close>, which prints quoted SQL names for search
  tags. The enumeration parameter is a number; a \<open>std::map::at\<close> that misses is an error.
\<close>

datatype FieldType = FT_String | FT_Integer | FT_Bool | FT_Date

record SearchProperty =
  colAlias :: string
  field :: string
  ftype :: FieldType
  flength :: nat

definition sp_print :: "char \<Rightarrow> char \<Rightarrow> bool \<Rightarrow> SearchProperty \<Rightarrow> string" where
  "sp_print table_quote_begin table_quote_end noAlias sp =
     (if colAlias sp = [] \<or> noAlias then [table_quote_begin] @ field sp @ [table_quote_end]
      else [table_quote_begin] @ colAlias sp @ [table_quote_end] @ ''.'' @
           [table_quote_begin] @ field sp @ [table_quote_end])"

definition sp_print_table :: "char \<Rightarrow> char \<Rightarrow> string \<Rightarrow> SearchProperty \<Rightarrow> string" where
  "sp_print_table table_quote_begin table_quote_end tabAlias sp =
     (if tabAlias = [] then [table_quote_begin] @ field sp @ [table_quote_end]
      else [table_quote_begin] @ tabAlias @ [table_quote_end] @ ''.'' @
           [table_quote_begin] @ field sp @ [table_quote_end])"

definition sp_convert :: "char \<Rightarrow> char \<Rightarrow> SearchProperty \<Rightarrow> string" where
  "sp_convert table_quote_begin table_quote_end sp =
     (if colAlias sp = [] then ''LOWER('' @ [table_quote_begin] @ field sp @ [table_quote_end] @ '')''
      else ''LOWER('' @ [table_quote_begin] @ colAlias sp @ [table_quote_end] @ ''.'' @
           [table_quote_begin] @ field sp @ [table_quote_end] @ '')'')"

definition sp_convert_table :: "char \<Rightarrow> char \<Rightarrow> string \<Rightarrow> SearchProperty \<Rightarrow> string" where
  "sp_convert_table table_quote_begin table_quote_end tabAlias sp =
     (if tabAlias = [] then ''LOWER('' @ [table_quote_begin] @ field sp @ [table_quote_end] @ '')''
      else ''LOWER('' @ [table_quote_begin] @ tabAlias @ [table_quote_end] @ ''.'' @
           [table_quote_begin] @ field sp @ [table_quote_end] @ '')'')"

record EnumColumnMapper =
  table_quote_begin :: char
  table_quote_end :: char
  tableAlias :: string
  tableName :: string
  keyMap :: "(string \<times> nat) list"
  colMap :: "nat \<Rightarrow> SearchProperty option"
  metaCnt :: nat
  joins :: "string list"

definition hasEntry :: "EnumColumnMapper \<Rightarrow> string \<Rightarrow> bool" where
  "hasEntry m tag = list_ex (\<lambda>kv. fst kv = tag) (keyMap m)"

definition getTableName :: "EnumColumnMapper \<Rightarrow> string" where
  "getTableName m = [table_quote_begin m] @ tableName m @ [table_quote_end m]"

definition setAlias :: "string \<Rightarrow> EnumColumnMapper \<Rightarrow> EnumColumnMapper" where
  "setAlias prp m = m\<lparr>tableAlias := prp @ show_nat (metaCnt m), metaCnt := metaCnt m + 1\<rparr>"

definition addJoin :: "string \<Rightarrow> EnumColumnMapper \<Rightarrow> EnumColumnMapper" where
  "addJoin j m = m\<lparr>joins := joins m @ [j]\<rparr>"

definition getJoin :: "EnumColumnMapper \<Rightarrow> string" where
  "getJoin m = join '' '' (joins m)"

definition resetCnt :: "EnumColumnMapper \<Rightarrow> EnumColumnMapper" where
  "resetCnt m = m\<lparr>joins := [], metaCnt := 0\<rparr>"

definition tableQuoted :: "EnumColumnMapper \<Rightarrow> string" where
  "tableQuoted m =
     [table_quote_begin m] @ tableName m @ [table_quote_end m] @ '' '' @
     [table_quote_begin m] @ tableAlias m @ [table_quote_end m]"

definition mapper_quote :: "EnumColumnMapper \<Rightarrow> string \<Rightarrow> string" where
  "mapper_quote m tag =
     (if tag \<noteq> [] then [table_quote_begin m] @ tag @ [table_quote_end m] else [])"

text \<open>The look-up all \<open>map\<dots>\<close> functions share: \<open>keyMap\<close> first, then \<open>colMap.at\<close>.\<close>

definition map_tag :: "EnumColumnMapper \<Rightarrow> string \<Rightarrow> (SearchProperty \<Rightarrow> 'a) \<Rightarrow> 'a \<Rightarrow> search_error + 'a" where
  "map_tag m tag f d =
     (case map_of (keyMap m) tag of None \<Rightarrow> Inr d
      | Some en \<Rightarrow> (case colMap m en of None \<Rightarrow> Inl Map_at_out_of_range | Some sp \<Rightarrow> Inr (f sp)))"

definition mapQuoted :: "EnumColumnMapper \<Rightarrow> string \<Rightarrow> bool \<Rightarrow> search_error + string" where
  "mapQuoted m tag noAlias =
     map_tag m tag (sp_print (table_quote_begin m) (table_quote_end m) noAlias) []"

definition mapQuotedTable :: "EnumColumnMapper \<Rightarrow> string \<Rightarrow> search_error + string" where
  "mapQuotedTable m tag =
     map_tag m tag (sp_print_table (table_quote_begin m) (table_quote_end m) (tableAlias m)) []"

definition mapQuotedLower :: "EnumColumnMapper \<Rightarrow> string \<Rightarrow> search_error + string" where
  "mapQuotedLower m tag = map_tag m tag (sp_convert (table_quote_begin m) (table_quote_end m)) []"

definition mapQuotedTableLower :: "EnumColumnMapper \<Rightarrow> string \<Rightarrow> search_error + string" where
  "mapQuotedTableLower m tag =
     map_tag m tag (sp_convert_table (table_quote_begin m) (table_quote_end m) (tableAlias m)) []"

definition getFieldType :: "EnumColumnMapper \<Rightarrow> string \<Rightarrow> search_error + FieldType" where
  "getFieldType m tag = map_tag m tag ftype FT_String"

text \<open>\<open>mapQuotedList\<close>: every key equal to the tag adds its column, unless the list has it.\<close>

fun mapQuotedList_loop ::
  "EnumColumnMapper \<Rightarrow> string \<Rightarrow> string \<Rightarrow> (string \<times> nat) list \<Rightarrow> string list \<Rightarrow> bool \<Rightarrow>
   search_error + string list \<times> bool" where
  "mapQuotedList_loop m tag desc [] srt result = Inr (srt, result)"
| "mapQuotedList_loop m tag desc ((key, val) # kvs) srt result =
     (if key = tag then
        (case colMap m val of None \<Rightarrow> Inl Map_at_out_of_range
         | Some sp \<Rightarrow>
             let sortCol = sp_print (table_quote_begin m) (table_quote_end m) False sp in
             mapQuotedList_loop m tag desc kvs
               (if list_ex (\<lambda>col. prefix sortCol col) srt then srt else srt @ [sortCol @ '' '' @ desc]) True)
      else mapQuotedList_loop m tag desc kvs srt result)"

definition mapQuotedList ::
  "EnumColumnMapper \<Rightarrow> string list \<Rightarrow> string \<Rightarrow> string \<Rightarrow> search_error + string list \<times> bool" where
  "mapQuotedList m srt tag desc = mapQuotedList_loop m tag desc (keyMap m) srt False"

section \<open>Facts\<close>

text \<open>A mapper whose keys all have a column never throws.\<close>

definition mapper_total :: "EnumColumnMapper \<Rightarrow> bool" where
  "mapper_total m = list_all (\<lambda>kv. colMap m (snd kv) \<noteq> None) (keyMap m)"

lemma hasEntry_map_of: "hasEntry m tag \<longleftrightarrow> map_of (keyMap m) tag \<noteq> None"
  by (auto simp: hasEntry_def list_ex_iff map_of_eq_None_iff image_iff)

lemma map_tag_total: "mapper_total m \<Longrightarrow> \<exists>r. map_tag m tag f d = Inr r"
  by (auto simp: map_tag_def mapper_total_def list_all_iff dest!: map_of_SomeD split: option.splits)

lemma mapQuotedList_result:
  "mapQuotedList_loop m tag desc kvs srt res = Inr (srt', res') \<Longrightarrow>
   res' = (res \<or> tag \<in> fst ` set kvs)"
proof (induction kvs arbitrary: srt res)
  case (Cons kv kvs)
  obtain key val where kv: "kv = (key, val)" by fastforce
  show ?case
  proof (cases "key = tag")
    case True
    then obtain sp where "colMap m val = Some sp"
      using Cons.prems kv by (cases "colMap m val") auto
    with True kv Cons.prems Cons.IH show ?thesis by (auto simp: Let_def)
  next
    case False
    with kv Cons show ?thesis by auto
  qed
qed simp

lemma mapQuotedList_hasEntry:
  "mapQuotedList m srt tag desc = Inr (srt', res) \<Longrightarrow> res = hasEntry m tag"
  by (auto simp: mapQuotedList_def hasEntry_map_of map_of_eq_None_iff dest!: mapQuotedList_result)

end
