(* ===== verification/Search_Emitter.thy ===== *)
theory Search_Emitter
  imports Search_Grammar Column_Mapper
begin

text \<open>
  Class \<open>DefaultSQLEmitter\<close> of \<open>src/src/database/search_handler.cc\<close>: SQL text from a syntax
  tree. The meta data mapper is state (it counts aliases and collects joins). Outside the
  sources are \<open>quote\<close> (the database client's literal quoting), the clock and the parsing
  of a date by the C library: fields of the emitter. C++ leaves the order of the two
  operand calls open; the model emits the left operand first.
\<close>

record DefaultSQLEmitter =
  database_quote :: "string \<Rightarrow> string"
  currentTime :: int
  parseSimpleDate :: "string \<Rightarrow> int option"
  colMapper :: "EnumColumnMapper option"
  resMapper :: "EnumColumnMapper option"
  plyMapper :: "EnumColumnMapper option"

datatype emit_error = Parse_error search_error | Not_supported | Signed_overflow | No_SQL

fun lift_error :: "search_error + 'a \<Rightarrow> emit_error + 'a" where
  "lift_error (Inl e) = Inl (Parse_error e)"
| "lift_error (Inr a) = Inr a"

type_synonym 'a emission = "EnumColumnMapper option \<Rightarrow> emit_error + 'a \<times> EnumColumnMapper option"

section \<open>Templates\<close>

text \<open>
  The two format tables \<open>logicOperator\<close> and \<open>valueOperator\<close>: \<open>{1}\<close> is the name, \<open>{2}\<close> its
  lower case form, \<open>{3}\<close> the value. An unknown key is an \<open>at\<close> that throws.
\<close>

definition logicOperator :: "string \<Rightarrow> (string \<Rightarrow> string \<Rightarrow> string \<Rightarrow> string) option" where
  "logicOperator = map_of
     [(''contains'', \<lambda>f1 f2 f3. ''('' @ f2 @ '' LIKE LOWER('' @ f3 @ ''))''),
      (''doesnotcontain'', \<lambda>f1 f2 f3. ''('' @ f2 @ '' NOT LIKE LOWER('' @ f3 @ ''))''),
      (''startswith'', \<lambda>f1 f2 f3. ''('' @ f2 @ '' LIKE LOWER('' @ f3 @ ''))''),
      (''derivedfrom'', \<lambda>f1 f2 f3. ''('' @ f2 @ '' LIKE LOWER('' @ f3 @ ''))''),
      (''exists'', \<lambda>f1 f2 f3. ''('' @ f1 @ '' IS '' @ f3 @ '')''),
      (''@exists'', \<lambda>f1 f2 f3. ''('' @ f1 @ '' IS '' @ f3 @ '')''),
      (''newer'', \<lambda>f1 f2 f3. ''('' @ f1 @ '' '' @ f3 @ '')''),
      (''compare'', \<lambda>f1 f2 f3. ''('' @ f2 @ ''LOWER('' @ f3 @ ''))''),
      (''@compare'', \<lambda>f1 f2 f3. ''('' @ f2 @ ''LOWER('' @ f3 @ ''))''),
      (''neq'', \<lambda>f1 f2 f3. ''('' @ f2 @ ''LOWER('' @ f3 @ ''))''),
      (''@neq'', \<lambda>f1 f2 f3. ''('' @ f2 @ ''LOWER('' @ f3 @ ''))'')]"

definition valueOperator :: "string \<Rightarrow> (string \<Rightarrow> string) option" where
  "valueOperator = map_of
     [(''contains'', \<lambda>v. ''%'' @ v @ ''%''), (''doesnotcontain'', \<lambda>v. ''%'' @ v @ ''%''),
      (''startswith'', \<lambda>v. v @ ''%''), (''derivedfrom'', \<lambda>v. v @ ''%''),
      (''exists'', \<lambda>v. v), (''@exists'', \<lambda>v. v), (''newer'', \<lambda>v. v), (''compare'', \<lambda>v. v),
      (''@compare'', \<lambda>v. v), (''neq'', \<lambda>v. v), (''@neq'', \<lambda>v. v)]"

definition fmt_logic :: "string \<Rightarrow> string \<Rightarrow> string \<Rightarrow> string \<Rightarrow> emit_error + string" where
  "fmt_logic op f1 f2 f3 =
     (case logicOperator op of None \<Rightarrow> Inl (Parse_error Map_at_out_of_range) | Some f \<Rightarrow> Inr (f f1 f2 f3))"

definition fmt_value :: "string \<Rightarrow> string \<Rightarrow> emit_error + string" where
  "fmt_value op v =
     (case valueOperator op of None \<Rightarrow> Inl (Parse_error Map_at_out_of_range) | Some f \<Rightarrow> Inr (f v))"

section \<open>Properties\<close>

definition mapper_statement :: "EnumColumnMapper \<Rightarrow> string \<Rightarrow> emit_error + string \<times> string \<times> FieldType" where
  "mapper_statement m property =
     lift_error (bindE (mapQuoted m property False) (\<lambda>u. bindE (mapQuotedLower m property) (\<lambda>l.
       bindE (getFieldType m property) (\<lambda>t. Inr (u, l, t)))))"

definition meta_statement ::
  "EnumColumnMapper option \<Rightarrow> EnumColumnMapper \<Rightarrow> string \<Rightarrow>
   emit_error + (string \<times> string \<times> FieldType) \<times> EnumColumnMapper option" where
  "meta_statement colM metaMapper property =
     (let m1 = setAlias ''meta_query'' metaMapper in
      case colM of None \<Rightarrow> Inl (Parse_error Null_dereference)
      | Some cm \<Rightarrow>
        lift_error (bindE (mapQuoted cm ''@id'' False) (\<lambda>cid. bindE (mapQuotedTable m1 ''@id'') (\<lambda>mid.
          let m2 = addJoin (''LEFT JOIN '' @ tableQuoted m1 @ '' ON '' @ cid @ '' = '' @ mid) m1 in
          bindE (mapQuotedTable m2 ''name'') (\<lambda>nm. bindE (mapQuotedTable m2 ''value'') (\<lambda>v.
            bindE (mapQuotedTableLower m2 ''value'') (\<lambda>vl. bindE (getFieldType m2 property) (\<lambda>ft.
              Inr ((nm @ ''='' @ [CHR 0x27] @ property @ [CHR 0x27] @ '' AND '' @ v,
                    nm @ ''='' @ [CHR 0x27] @ property @ [CHR 0x27] @ '' AND '' @ vl, ft), Some m2)))))))))"

definition has_entry :: "EnumColumnMapper option \<Rightarrow> string \<Rightarrow> bool" where
  "has_entry mo property = (case mo of None \<Rightarrow> False | Some m \<Rightarrow> hasEntry m property)"

definition getPropertyStatement :: "DefaultSQLEmitter \<Rightarrow> string \<Rightarrow> (string \<times> string \<times> FieldType) emission" where
  "getPropertyStatement em property st =
     (if has_entry (colMapper em) property then
        bindE (mapper_statement (the (colMapper em)) property) (\<lambda>r. Inr (r, st))
      else if has_entry (resMapper em) property then
        bindE (mapper_statement (the (resMapper em)) property) (\<lambda>r. Inr (r, st))
      else if has_entry (plyMapper em) property then
        bindE (mapper_statement (the (plyMapper em)) property) (\<lambda>r. Inr (r, st))
      else case st of None \<Rightarrow> Inr (([], [], FT_String), st)
        | Some metaMapper \<Rightarrow> meta_statement (colMapper em) metaMapper property)"

section \<open>Leaves\<close>

definition order_op :: "string \<Rightarrow> bool" where
  "order_op operatr = (operatr = ''>'' \<or> operatr = ''>='' \<or> operatr = ''<'' \<or> operatr = ''<='')"

text \<open>\<open>std::chrono::hours(24 * n)\<close>: the product is an \<open>int\<close>.\<close>

definition days_before :: "int \<Rightarrow> int \<Rightarrow> emit_error + int" where
  "days_before now n =
     (if - (2 ^ 31) \<le> 24 * n \<and> 24 * n < 2 ^ 31 then Inr (now - 24 * n * 3600) else Inl Signed_overflow)"

definition at_property :: "string \<Rightarrow> bool" where
  "at_property property = (property \<noteq> [] \<and> hd property = CHR ''@'')"

definition emit_equality ::
  "DefaultSQLEmitter \<Rightarrow> string \<Rightarrow> string \<Rightarrow> string \<Rightarrow> string \<times> string \<times> FieldType \<Rightarrow> string emission" where
  "emit_equality em operatr property val prp st =
     (if operatr \<noteq> ''!='' \<and> operatr \<noteq> ''='' then Inl Not_supported
      else
        let cmpOp = (if operatr = ''!='' then (if at_property property then ''@neq'' else ''neq'')
                     else if at_property property then ''@compare'' else ''compare'') in
        bindE (getPropertyStatement em ''upnp:class'' st) (\<lambda>(cls, st1).
          bindE (fmt_value cmpOp val) (\<lambda>v.
            bindE (fmt_logic cmpOp (fst prp @ operatr) (fst (snd prp) @ operatr) (database_quote em v))
              (\<lambda>s. Inr (s, st1)))))"

definition emit_compare :: "DefaultSQLEmitter \<Rightarrow> string \<Rightarrow> string \<Rightarrow> string \<Rightarrow> string emission" where
  "emit_compare em operatr property val st =
     bindE (getPropertyStatement em property st) (\<lambda>((prpUpper, prpLower, prpType), st1).
       if prpType = FT_Date \<and> (operatr = ''>'' \<or> operatr = ''>='') \<and> prefix ''@last'' val then
         bindE (days_before (currentTime em) (stoiString (drop 5 val) 0)) (\<lambda>dateVal.
           bindE (fmt_logic ''newer'' (prpUpper @ '' '' @ operatr) (prpLower @ '' '' @ operatr) (show_int dateVal))
             (\<lambda>s. Inr (s, st1)))
       else if prpType = FT_Date \<and> order_op operatr \<and> parseSimpleDate em val \<noteq> None then
         bindE (fmt_logic ''newer'' (prpUpper @ '' '' @ operatr) (prpLower @ '' '' @ operatr)
             (show_int (the (parseSimpleDate em val))))
           (\<lambda>s. Inr (s, st1))
       else if prpType = FT_Integer \<and> order_op operatr then
         Inr (prpUpper @ '' '' @ operatr @ '' '' @ show_int (stoiString val 0), st1)
       else emit_equality em operatr property val (prpUpper, prpLower, prpType) st1)"

definition emit_string :: "DefaultSQLEmitter \<Rightarrow> string \<Rightarrow> string \<Rightarrow> string \<Rightarrow> string emission" where
  "emit_string em operatr property val st =
     (let stringOperator = toLower operatr in
      if logicOperator stringOperator = None then Inl (Parse_error SearchParseException)
      else bindE (getPropertyStatement em property st) (\<lambda>((prpUpper, prpLower, prpType), st1).
        bindE (getPropertyStatement em ''upnp:class'' st1) (\<lambda>(cls, st2).
          bindE (fmt_value stringOperator val) (\<lambda>v.
            bindE (fmt_logic stringOperator prpUpper prpLower (database_quote em v)) (\<lambda>s. Inr (s, st2))))))"

definition emit_exists :: "DefaultSQLEmitter \<Rightarrow> string \<Rightarrow> string \<Rightarrow> string emission" where
  "emit_exists em property val st =
     (if val \<noteq> ''true'' \<and> val \<noteq> ''false'' then Inl (Parse_error SearchParseException)
      else bindE (getPropertyStatement em property st) (\<lambda>((prpUpper, prpLower, prpType), st1).
        bindE (getPropertyStatement em ''upnp:class'' st1) (\<lambda>(cls, st2).
          bindE (fmt_logic (if at_property property then ''@exists'' else ''exists'') prpUpper prpLower
              (if val = ''true'' then ''NOT NULL'' else ''NULL'')) (\<lambda>s. Inr (s, st2)))))"

section \<open>Nodes\<close>

text \<open>A quoted string is emitted with its quotes, which \<open>emit(ASTDQuote)\<close> prints as nothing.\<close>

definition emit_quoted :: "ASTQuotedString \<Rightarrow> string" where
  "emit_quoted q = [] @ escapedString q @ []"

definition seq_emit :: "string emission \<Rightarrow> string emission \<Rightarrow> string \<Rightarrow> string emission" where
  "seq_emit f g sep st =
     bindE (f st) (\<lambda>(l, st1). bindE (g st1) (\<lambda>(r, st2). Inr (l @ sep @ r, st2)))"

fun emit :: "DefaultSQLEmitter \<Rightarrow> ASTNode \<Rightarrow> string emission" where
  "emit em (ASTAsterisk v) st = Inr ([], st)"
| "emit em (ASTCompareExpression property operatr q) st = emit_compare em operatr property (emit_quoted q) st"
| "emit em (ASTStringExpression property operatr q) st = emit_string em operatr property (emit_quoted q) st"
| "emit em (ASTExistsExpression property operatr b) st = emit_exists em property b st"
| "emit em (ASTParenthesis n) st = bindE (emit em n st) (\<lambda>(s, st1). Inr (''('' @ s @ '')'', st1))"
| "emit em (ASTAndOperator None r) st = Inl (Parse_error Null_dereference)"
| "emit em (ASTAndOperator (Some l) r) st = seq_emit (emit em l) (emit em r) '' AND '' st"
| "emit em (ASTOrOperator None r) st = Inl (Parse_error Null_dereference)"
| "emit em (ASTOrOperator (Some l) r) st = seq_emit (emit em l) (emit em r) '' OR '' st"

definition emitSQL :: "DefaultSQLEmitter \<Rightarrow> ASTNode \<Rightarrow> EnumColumnMapper option \<Rightarrow>
    emit_error + string \<times> string" where
  "emitSQL em node st =
     (case st of None \<Rightarrow> Inl (Parse_error Null_dereference)
      | Some m \<Rightarrow> bindE (emit em node (Some (resetCnt m))) (\<lambda>(predicates, st1).
          if predicates \<noteq> [] then
            (case st1 of None \<Rightarrow> Inl (Parse_error Null_dereference) | Some m1 \<Rightarrow> Inr (predicates, getJoin m1))
          else Inl No_SQL))"

end
