(* ===== verification/Search_SQL.thy ===== *)
theory Search_SQL
  imports Search_Emitter
begin

text \<open>
  What the search path promises as a whole: the SQL condition of a well-formed criterion has
  the criterion's relations, operators and parentheses in the criterion's own order; values
  stay inside SQL literals. Then the inputs the code does not handle as it means to.
\<close>

section \<open>The specified SQL\<close>

definition op_sql :: "bool \<Rightarrow> string" where
  "op_sql cj = (if cj then '' AND '' else '' OR '')"

text \<open>Emit a list of operators and operands after an operand.\<close>

fun emit_rest :: "(string \<times> string emission) list \<Rightarrow> string emission" where
  "emit_rest [] st = Inr ([], st)"
| "emit_rest ((sep, e) # es) st =
     bindE (e st) (\<lambda>(a, st1). bindE (emit_rest es st1) (\<lambda>(b, st2). Inr (sep @ a @ b, st2)))"

definition emit_list :: "string emission \<Rightarrow> (string \<times> string emission) list \<Rightarrow> string emission" where
  "emit_list e es st = bindE (e st) (\<lambda>(a, st1). bindE (emit_rest es st1) (\<lambda>(b, st2). Inr (a @ b, st2)))"

definition in_parens :: "string emission \<Rightarrow> string emission" where
  "in_parens e st = bindE (e st) (\<lambda>(s, st1). Inr (''('' @ s @ '')'', st1))"

fun term_sql :: "DefaultSQLEmitter \<Rightarrow> criteria_term \<Rightarrow> string emission" where
  "term_sql em (Rel r) = emit em (relation_node r)"
| "term_sql em (Group t ts) =
     in_parens (emit_list (term_sql em t) (map (\<lambda>(o1, u). (op_sql o1, term_sql em u)) ts))"

definition criteria_sql :: "DefaultSQLEmitter \<Rightarrow> criteria_term \<Rightarrow> (bool \<times> criteria_term) list \<Rightarrow> string emission" where
  "criteria_sql em t ts = emit_list (term_sql em t) (map (\<lambda>(o1, u). (op_sql o1, term_sql em u)) ts)"

lemma emit_mk_operator:
  "emit em (mk_operator (op_type o1) (Some l) r) = seq_emit (emit em l) (emit em r) (op_sql o1)"
  by (rule ext) (simp add: mk_operator_def op_type_def op_sql_def)

lemma bind_pair_assoc:
  "bindE (bindE m (\<lambda>(a, s). f a s)) g = bindE m (\<lambda>(a, s). bindE (f a s) g)"
  by (cases m) auto

lemma emit_list_Nil [simp]: "emit_list e [] = e"
proof
  fix st
  show "emit_list e [] st = e st" by (cases "e st") (auto simp: emit_list_def)
qed

lemma emit_list_Cons: "emit_list e ((sep, f) # es) = emit_list (seq_emit e f sep) es"
proof
  fix st
  show "emit_list e ((sep, f) # es) st = emit_list (seq_emit e f sep) es st"
  proof (cases "e st")
    case (Inr x)
    obtain a st1 where x: "x = (a, st1)" by fastforce
    show ?thesis
    proof (cases "f st1")
      case (Inr y)
      then show ?thesis
        using \<open>e st = Inr x\<close> x
        by (cases y; cases "emit_rest es (snd y)") (auto simp: emit_list_def seq_emit_def)
    qed (simp add: emit_list_def seq_emit_def \<open>e st = Inr x\<close> x)
  qed (simp add: emit_list_def seq_emit_def)
qed

lemma emit_list_append: "emit_list e (xs @ ys) = emit_list (emit_list e xs) ys"
proof (induction xs arbitrary: e)
  case (Cons x xs)
  then show ?case by (cases x) (simp add: emit_list_Cons)
qed simp

lemma seq_emit_list:
  "seq_emit e (emit_list f es) sep = emit_list e ((sep, f) # es)"
proof (induction es arbitrary: f)
  case Nil
  then show ?case by (simp add: emit_list_Cons)
next
  case (Cons x es)
  obtain s g where x: "x = (s, g)" by fastforce
  have "seq_emit (seq_emit e f sep) g s = seq_emit e (seq_emit f g s) sep"
  proof
    fix st
    show "seq_emit (seq_emit e f sep) g s st = seq_emit e (seq_emit f g s) sep st"
    proof (cases "e st")
      case (Inr y)
      then show ?thesis
        by (cases y; cases "f (snd y)"; cases "g (snd (projr (f (snd y))))")
           (auto simp: seq_emit_def)
    qed (simp add: seq_emit_def)
  qed
  with Cons x show ?case by (simp add: emit_list_Cons)
qed

lemma emit_extend_group:
  assumes "\<forall>x \<in> set ts. emit em (term_node (snd x)) = term_sql em (snd x)"
  shows "emit em (extend_group n ts) = emit_list (emit em n) (map (\<lambda>(o1, u). (op_sql o1, term_sql em u)) ts)"
  using assms
proof (induction ts arbitrary: n)
  case (Cons x ts)
  then show ?case by (cases x) (simp add: emit_mk_operator emit_list_Cons)
qed simp

lemma emit_term: "emit em (term_node t) = term_sql em t"
proof (induction t)
  case (Group t ts)
  have "\<forall>x \<in> set ts. emit em (term_node (snd x)) = term_sql em (snd x)"
    using Group.IH(2) by fastforce
  from emit_extend_group [OF this, of "term_node t"] Group.IH(1)
  show ?case by (intro ext) (simp add: in_parens_def extend_group_def)
qed simp

lemma emit_extend_group':
  "emit em (extend_group n ts) = emit_list (emit em n) (map (\<lambda>(o1, u). (op_sql o1, term_sql em u)) ts)"
  by (rule emit_extend_group) (simp add: emit_term)

section \<open>The parser's stacks on criteria with one group after the first term\<close>

definition is_group :: "criteria_term \<Rightarrow> bool" where
  "is_group t = (case t of Rel _ \<Rightarrow> False | Group _ _ \<Rightarrow> True)"

definition at_most_one_group :: "(bool \<times> criteria_term) list \<Rightarrow> bool" where
  "at_most_one_group ts = (length (filter (\<lambda>x. is_group (snd x)) ts) \<le> 1)"

lemma run_stacks_relations:
  "\<forall>x \<in> set ts. \<not> is_group (snd x) \<Longrightarrow> run_stacks (n # ns) os (ts @ us) = run_stacks (extend_group n ts # ns) os us"
proof (induction ts arbitrary: n)
  case (Cons x ts)
  obtain o1 u where x: "x = (o1, u)" by fastforce
  with Cons.prems obtain r where "u = Rel r" by (cases u) (auto simp: is_group_def)
  with Cons x show ?case by simp
qed simp

lemma run_stacks_one_group:
  assumes "at_most_one_group ts"
  obtains (none) "run_stacks [n] [] ts = ([extend_group n ts], [])"
  | (one) rs1 o1 g rs2 where "ts = rs1 @ (o1, g) # rs2"
      "run_stacks [n] [] ts = ([extend_group (term_node g) rs2, extend_group n rs1], [op_type o1])"
proof (cases "\<forall>x \<in> set ts. \<not> is_group (snd x)")
  case True
  with none run_stacks_relations [of ts n "[]" "[]" "[]"] show ?thesis by simp
next
  case False
  then obtain rs1 x rs2 where ts: "ts = rs1 @ x # rs2" and x: "is_group (snd x)"
    and rs1: "\<forall>y \<in> set rs1. \<not> is_group (snd y)"
    using split_list_first_prop [of ts "\<lambda>x. is_group (snd x)"] by blast
  obtain o1 g where xg: "x = (o1, g)" by fastforce
  have "filter (\<lambda>x. is_group (snd x)) rs2 = []"
    using assms ts x rs1 by (auto simp: at_most_one_group_def)
  then have rs2: "\<forall>y \<in> set rs2. \<not> is_group (snd y)" by (simp add: filter_empty_conv)
  obtain t us where g: "g = Group t us" using x xg by (cases g) (auto simp: is_group_def)
  have "run_stacks [n] [] ts = run_stacks [extend_group n rs1] [] ((o1, g) # rs2)"
    using run_stacks_relations [OF rs1, of n "[]" "[]"] ts xg by simp
  also have "\<dots> = run_stacks [term_node g, extend_group n rs1] [op_type o1] rs2"
    using g by simp
  also have "\<dots> = ([extend_group (term_node g) rs2, extend_group n rs1], [op_type o1])"
    using run_stacks_relations [OF rs2, of "term_node g" "[extend_group n rs1]" "[op_type o1]" "[]"] by simp
  finally show ?thesis using one ts xg by simp
qed


definition sample_first :: criteria_term where
  "sample_first = Rel (Matches ''upnp:class'' ''derivedfrom'' ''object.item.audioItem'')"

definition sample_rest :: "(bool \<times> criteria_term) list" where
  "sample_rest =
     [(True, Group (Rel (Compare ''dc:title'' ''='' ''Wall''))
               [(False, Rel (Matches ''dc:creator'' ''contains'' ''Floyd''))]),
      (True, Rel (Exists ''@refID'' False))]"


section \<open>Criteria the parser mishandles\<close>

definition title_is :: "string \<Rightarrow> relation" where
  "title_is v = Compare ''title'' ''='' v"

text \<open>With three parenthesised terms after the first one, the conditions after the first of
  them are lost: the tree holds two of the four relations.\<close>

theorem parse_drops_conditions:
  "parse 300 (criteria_text (Rel (title_is ''1''))
      [(True, Group (Rel (title_is ''2'')) []), (True, Group (Rel (title_is ''3'')) []),
       (True, Group (Rel (title_is ''4'')) [])]) 32
   = Some (Inr (Some (mk_operator AND (Some (relation_node (title_is ''1'')))
       (ASTParenthesis (relation_node (title_is ''2''))))))"
proof -
  let ?ts = "[(True, Group (Rel (title_is ''2'')) []), (True, Group (Rel (title_is ''3'')) []),
       (True, Group (Rel (title_is ''4'')) [])]"
  have "criteria_ok (Rel (title_is ''1'')) ?ts 32" by code_simp
  moreover have "length (criteria_text (Rel (title_is ''1'')) ?ts) < 300" by code_simp
  ultimately show ?thesis by (subst parse_criteria) (simp_all add: op_type_def)
qed

text \<open>With two of them the parser refuses the criterion.\<close>

lemma parse_refuses_two_groups:
  "parse 300 (criteria_text (Rel (title_is ''1''))
      [(True, Group (Rel (title_is ''2'')) []), (True, Group (Rel (title_is ''3'')) [])]) 32
   = Some (Inl SearchParseException)"
proof -
  let ?ts = "[(True, Group (Rel (title_is ''2'')) []), (True, Group (Rel (title_is ''3'')) [])]"
  have "criteria_ok (Rel (title_is ''1'')) ?ts 32" by code_simp
  moreover have "length (criteria_text (Rel (title_is ''1'')) ?ts) < 300" by code_simp
  ultimately show ?thesis by (subst parse_criteria) (simp_all add: op_type_def)
qed

lemma expression_loop_stuck:
  assumes "currentToken p = Some tk" and "getType tk \<notin> {PROPERTY, LPAREN, AND, OR}"
  shows "expression_loop fuel ns os cur p = None"
  using assms by (induction fuel) auto

text \<open>A criterion with one closing parenthesis too many is never answered: the parser has no
  result for any fuel.\<close>

theorem parse_extra_parenthesis_diverges:
  "parse fuel (''a = '' @ quoted ''1'' @ '')'') 32 = None"
proof -
  define p where "p = \<lparr>currentToken = Some (SearchToken RPAREN '')''),
    lexer = \<lparr>unread = [], inQuotes = False\<rparr>, maxParenthesisDepth = 32\<rparr>"
  define p0 where "p0 = \<lparr>currentToken = Some (SearchToken PROPERTY ''a''),
    lexer = \<lparr>unread = '' = '' @ quoted ''1'' @ '')'', inQuotes = False\<rparr>, maxParenthesisDepth = 32\<rparr>"
  have g0: "getNextToken \<lparr>currentToken = None, lexer = \<lparr>unread = ''a = '' @ quoted ''1'' @ '')'',
      inQuotes = False\<rparr>, maxParenthesisDepth = 32\<rparr> = Inr p0"
    unfolding p0_def by code_simp
  have r0: "bindE (parseRelationshipExpression p0) (\<lambda>(n, q). bindE (getNextToken q) (\<lambda>q. Inr (n, q)))
      = Inr (relation_node (Compare ''a'' ''='' ''1''), p)"
    unfolding p0_def p_def by code_simp
  then obtain q where q: "parseRelationshipExpression p0 = Inr (relation_node (Compare ''a'' ''='' ''1''), q)"
    "getNextToken q = Inr p" by (auto simp: bindE_Inr_iff)
  have "expression_loop fuel [] [] INVALID p0 = None"
  proof (cases fuel)
    case (Suc f)
    have "currentToken p0 = Some (SearchToken PROPERTY ''a'')" by (simp add: p0_def)
    then show ?thesis
      using q expression_loop_stuck [of p "SearchToken RPAREN '')''" f] Suc
      by (simp add: push_relation_def p_def)
  qed simp
  moreover have "\<not> current_is p0 ASTERISK" by (simp add: p0_def current_is_def)
  ultimately show ?thesis unfolding parse_def g0 by (simp add: parseSearchExpression_def)
qed

end
