(* ===== verification/Search_Injection.thy ===== *)
theory Search_Injection
  imports Search_SQL
begin

text \<open>
  Values from the network never change the structure of the SQL text. The structure is the
  text outside the quoted literals; a literal ends at a quote, and a doubled quote ends and
  reopens it with nothing in between.
\<close>

section \<open>Text outside literals\<close>

fun in_literal :: "bool \<Rightarrow> string \<Rightarrow> bool" where
  "in_literal q [] = q"
| "in_literal q (c # cs) = in_literal (if c = CHR 0x27 then \<not> q else q) cs"

fun skeleton :: "bool \<Rightarrow> string \<Rightarrow> string" where
  "skeleton q [] = []"
| "skeleton q (c # cs) =
     (if c = CHR 0x27 then skeleton (\<not> q) cs else if q then skeleton q cs else c # skeleton q cs)"

definition closed_sql :: "string \<Rightarrow> bool" where
  "closed_sql s = (\<not> in_literal False s)"

definition no_quote :: "string \<Rightarrow> bool" where
  "no_quote s = (CHR 0x27 \<notin> set s)"

lemma in_literal_append [simp]: "in_literal q (xs @ ys) = in_literal (in_literal q xs) ys"
  by (induction xs arbitrary: q) auto

lemma skeleton_append [simp]: "skeleton q (xs @ ys) = skeleton q xs @ skeleton (in_literal q xs) ys"
  by (induction xs arbitrary: q) auto

lemma no_quote_in_literal: "no_quote s \<Longrightarrow> in_literal q s = q"
  by (induction s arbitrary: q) (auto simp: no_quote_def)

lemma no_quote_append [simp]: "no_quote (xs @ ys) = (no_quote xs \<and> no_quote ys)"
  "no_quote [] = True" "no_quote (c # cs) = (c \<noteq> CHR 0x27 \<and> no_quote cs)"
  by (auto simp: no_quote_def)

lemma closed_append: "closed_sql xs \<Longrightarrow> closed_sql ys \<Longrightarrow> closed_sql (xs @ ys)"
  by (simp add: closed_sql_def)

lemma no_quote_closed: "no_quote s \<Longrightarrow> closed_sql s"
  by (simp add: closed_sql_def no_quote_in_literal)

text \<open>What every database client documents of its literal quoting: one closed literal.\<close>

definition literal_quote :: "(string \<Rightarrow> string) \<Rightarrow> bool" where
  "literal_quote quote = (\<forall>v. closed_sql (quote v) \<and> skeleton False (quote v) = [])"

text \<open>The rule of SQLite's \<open>%Q\<close>: quotes doubled, a quote at both ends.\<close>

definition sqlite_quote :: "string \<Rightarrow> string" where
  "sqlite_quote v =
     [CHR 0x27] @ concat (map (\<lambda>c. if c = CHR 0x27 then [c, c] else [c]) v) @ [CHR 0x27]"

lemma literal_quote_sqlite: "literal_quote sqlite_quote"
proof -
  have "in_literal True (concat (map (\<lambda>c. if c = CHR 0x27 then [c, c] else [c]) v)) \<and>
    skeleton True (concat (map (\<lambda>c. if c = CHR 0x27 then [c, c] else [c]) v)) = []" for v
    by (induction v) auto
  then show ?thesis by (simp add: literal_quote_def sqlite_quote_def closed_sql_def)
qed

section \<open>Mappers with clean names\<close>

definition property_clean :: "SearchProperty \<Rightarrow> bool" where
  "property_clean sp = (no_quote (colAlias sp) \<and> no_quote (field sp))"

definition mapper_clean :: "EnumColumnMapper \<Rightarrow> bool" where
  "mapper_clean m =
     (table_quote_begin m \<noteq> CHR 0x27 \<and> table_quote_end m \<noteq> CHR 0x27 \<and>
      no_quote (tableAlias m) \<and> no_quote (tableName m) \<and>
      (\<forall>en sp. colMap m en = Some sp \<longrightarrow> property_clean sp))"

definition emitter_clean :: "DefaultSQLEmitter \<Rightarrow> bool" where
  "emitter_clean em =
     (literal_quote (database_quote em) \<and>
      (\<forall>m \<in> set_option (colMapper em) \<union> set_option (resMapper em) \<union> set_option (plyMapper em). mapper_clean m))"

lemma show_nat_no_quote: "no_quote (show_nat n)"
  using show_nat_digits [of n] by (auto simp: no_quote_def isdigit_def)

lemma map_tag_clean:
  assumes "mapper_clean m" and "map_tag m tag f [] = Inr s" and "\<And>sp. property_clean sp \<Longrightarrow> no_quote (f sp)"
  shows "no_quote s"
  using assms by (auto simp: map_tag_def mapper_clean_def split: option.splits)

lemma sp_clean:
  assumes "mapper_clean m" and "property_clean sp"
  shows "no_quote (sp_print (table_quote_begin m) (table_quote_end m) b sp)"
    "no_quote (sp_convert (table_quote_begin m) (table_quote_end m) sp)"
    "no_quote (sp_print_table (table_quote_begin m) (table_quote_end m) (tableAlias m) sp)"
    "no_quote (sp_convert_table (table_quote_begin m) (table_quote_end m) (tableAlias m) sp)"
  using assms by (auto simp: sp_print_def sp_convert_def sp_print_table_def sp_convert_table_def
      mapper_clean_def property_clean_def)

lemma map_clean:
  assumes "mapper_clean m"
  shows "mapQuoted m tag b = Inr s \<Longrightarrow> no_quote s" "mapQuotedLower m tag = Inr s \<Longrightarrow> no_quote s"
    "mapQuotedTable m tag = Inr s \<Longrightarrow> no_quote s" "mapQuotedTableLower m tag = Inr s \<Longrightarrow> no_quote s"
  unfolding mapQuoted_def mapQuotedLower_def mapQuotedTable_def mapQuotedTableLower_def
  by (erule map_tag_clean [OF assms], erule sp_clean [OF assms])+

lemma lift_error_Inr: "lift_error r = Inr x \<longleftrightarrow> r = Inr x"
  by (cases r) auto

lemma mapper_statement_clean:
  "mapper_clean m \<Longrightarrow> mapper_statement m property = Inr (u, l, t) \<Longrightarrow> closed_sql u \<and> closed_sql l"
  by (auto simp: mapper_statement_def lift_error_Inr bindE_Inr_iff intro: no_quote_closed map_clean)

lemma meta_statement_clean:
  assumes "mapper_clean metaMapper" and "no_quote property"
    and "meta_statement colM metaMapper property = Inr ((u, l, t), st)"
  shows "closed_sql u \<and> closed_sql l \<and> (\<forall>m \<in> set_option st. mapper_clean m)"
proof -
  let ?m1 = "setAlias ''meta_query'' metaMapper"
  have m1: "mapper_clean ?m1"
    using assms(1) show_nat_no_quote [of "metaCnt metaMapper"] by (simp add: mapper_clean_def setAlias_def)
  then have m2: "mapper_clean (addJoin j ?m1)" for j by (simp add: mapper_clean_def addJoin_def)
  have lit: "closed_sql (nm @ ''='' @ [CHR 0x27] @ property @ [CHR 0x27] @ '' AND '' @ v)"
    if "no_quote nm" "no_quote v" for nm v
    using that assms(2) by (simp add: closed_sql_def no_quote_in_literal)
  show ?thesis
    using assms(3) unfolding meta_statement_def Let_def
    by (auto simp: lift_error_Inr bindE_Inr_iff split: option.splits intro!: lit [simplified] m2
        dest!: map_clean(3,4) [OF m2])
qed

lemma getPropertyStatement_clean:
  assumes "emitter_clean em" and "\<forall>m \<in> set_option st. mapper_clean m" and "no_quote property"
    and "getPropertyStatement em property st = Inr ((u, l, t), st')"
  shows "closed_sql u \<and> closed_sql l \<and> (\<forall>m \<in> set_option st'. mapper_clean m)"
proof -
  have *: "closed_sql u \<and> closed_sql l" if "mapper_statement (the mo) property = Inr (u, l, t)"
    "has_entry mo property" "mo \<in> {colMapper em, resMapper em, plyMapper em}" for mo
    using that assms(1) mapper_statement_clean [of "the mo" property u l t]
    by (cases mo) (auto simp: has_entry_def emitter_clean_def)
  consider "has_entry (colMapper em) property" | "\<not> has_entry (colMapper em) property" "has_entry (resMapper em) property"
    | "\<not> has_entry (colMapper em) property" "\<not> has_entry (resMapper em) property" "has_entry (plyMapper em) property"
    | "\<not> has_entry (colMapper em) property" "\<not> has_entry (resMapper em) property" "\<not> has_entry (plyMapper em) property"
    by blast
  then show ?thesis
  proof cases
    case 4
    then show ?thesis
      using assms by (cases st) (auto simp: getPropertyStatement_def closed_sql_def dest!: meta_statement_clean)
  qed (use assms(2,4) * in \<open>auto simp: getPropertyStatement_def bindE_Inr_iff\<close>)
qed

section \<open>Templates keep the structure\<close>

lemma fmt_logic_skeleton:
  assumes "fmt_logic op f1 f2 a = Inr s" and "fmt_logic op f1 f2 b = Inr s'"
    and "closed_sql f1" "closed_sql f2" "closed_sql a" "closed_sql b"
    and "skeleton False a = skeleton False b"
  shows "skeleton False s = skeleton False s' \<and> closed_sql s \<and> closed_sql s'"
  using assms
  by (auto simp: fmt_logic_def logicOperator_def closed_sql_def split: option.splits if_splits)

lemma quote_skeleton:
  "literal_quote q \<Longrightarrow> skeleton False (q a) = skeleton False (q b) \<and> closed_sql (q a) \<and> closed_sql (q b)"
  by (simp add: literal_quote_def)

lemma emit_string_Inr:
  assumes "emit_string em operatr property v st = Inr (s, st1)"
  shows "\<exists>u l t stp cls w. getPropertyStatement em property st = Inr ((u, l, t), stp) \<and>
    getPropertyStatement em ''upnp:class'' stp = Inr (cls, st1) \<and>
    fmt_logic (toLower operatr) u l (database_quote em w) = Inr s"
proof -
  from assms have "bindE (getPropertyStatement em property st) (\<lambda>((prpUpper, prpLower, prpType), st1).
        bindE (getPropertyStatement em ''upnp:class'' st1) (\<lambda>(cls, st2).
          bindE (fmt_value (toLower operatr) v) (\<lambda>v.
            bindE (fmt_logic (toLower operatr) prpUpper prpLower (database_quote em v)) (\<lambda>s. Inr (s, st2)))))
      = Inr (s, st1)"
    by (simp add: emit_string_def Let_def split: if_splits)
  then show ?thesis by (auto simp: bindE_Inr_iff split: prod.splits)
qed


definition sample_mapper :: EnumColumnMapper where
  "sample_mapper = \<lparr>table_quote_begin = CHR ''`'', table_quote_end = CHR ''`'', tableAlias = ''c'',
     tableName = ''mt_cds_object'', keyMap = [(''upnp:class'', 0), (''dc:title'', 1)],
     colMap = [0 \<mapsto> \<lparr>colAlias = ''c'', field = ''upnp_class'', ftype = FT_String, flength = 0\<rparr>,
               1 \<mapsto> \<lparr>colAlias = ''c'', field = ''dc_title'', ftype = FT_String, flength = 0\<rparr>],
     metaCnt = 0, joins = []\<rparr>"

definition sample_emitter :: DefaultSQLEmitter where
  "sample_emitter = \<lparr>database_quote = sqlite_quote, currentTime = 0, parseSimpleDate = (\<lambda>_. None),
     colMapper = Some sample_mapper, resMapper = None, plyMapper = None\<rparr>"

lemma sample_emitter_clean: "emitter_clean sample_emitter \<and> mapper_clean sample_mapper"
  by (auto simp: emitter_clean_def sample_emitter_def literal_quote_sqlite mapper_clean_def
      sample_mapper_def property_clean_def split: if_splits)


end
