(* ===== verification/IO_Buffer.thy ===== *)
theory IO_Buffer
  imports Prelude
begin

text \<open>
  The ring buffer between a reading thread and a filling thread:
  \<open>src/src/iohandler/io_handler_buffer_helper.cc\<close> (the reader's side, class
  \<open>IOHandlerBufferHelper\<close>) and \<open>src/src/iohandler/buffered_io_handler.cc\<close> (the thread that
  fills it, \<open>BufferedIOHandler::threadProc\<close>). This theory holds the state and the operations;
  \<open>IO_Threads\<close> interleaves them. Sizes are below \<open>2^31\<close>, where the casts to \<open>int\<close> are exact.
\<close>

datatype whence = SEEK_SET | SEEK_CUR | SEEK_END

datatype io_error = Zero_buffer | Fill_above_buffer | No_chunk | Already_open | Seek_disabled | Assertion_failed

datatype 'b read_result = Bytes "'b list" | Read_end | Read_error

record 'b iobuf =
  bufSize :: nat
  initialFillSize :: nat
  maxChunkSize :: nat
  buffer :: "'b list"
  isOpen :: bool
  eof :: bool
  readError :: bool
  waitForInitialFillSize :: bool
  signalAfterEveryRead :: bool
  isFresh :: bool
  emptyFlag :: bool
  startIndex :: nat
  endIndex :: nat
  posRead :: int
  seekEnabled :: bool
  doSeek :: bool
  seekOffset :: int
  seekWhence :: whence
  threadShutdown :: bool

section \<open>Construction and opening\<close>

definition IOHandlerBufferHelper :: "nat \<Rightarrow> nat \<Rightarrow> io_error + 'b iobuf" where
  "IOHandlerBufferHelper size0 fill0 =
     (if size0 = 0 then Inl Zero_buffer
      else if fill0 > size0 then Inl Fill_above_buffer
      else Inr \<lparr>bufSize = size0, initialFillSize = fill0, maxChunkSize = 0, buffer = [],
        isOpen = False, eof = False, readError = False, waitForInitialFillSize = (fill0 > 0),
        signalAfterEveryRead = False, isFresh = False, emptyFlag = True, startIndex = 0, endIndex = 0,
        posRead = 0, seekEnabled = False, doSeek = False, seekOffset = 0, seekWhence = SEEK_SET,
        threadShutdown = False\<rparr>)"

definition BufferedIOHandler :: "nat \<Rightarrow> nat \<Rightarrow> nat \<Rightarrow> io_error + 'b iobuf" where
  "BufferedIOHandler size0 chunk fill0 =
     bindE (IOHandlerBufferHelper size0 fill0) (\<lambda>b.
       if chunk = 0 then Inl No_chunk else Inr (b\<lparr>maxChunkSize := chunk\<rparr>))"

text \<open>\<open>open\<close>: a new array with undetermined contents \<open>mem\<close>.\<close>

definition open_buffer :: "'b list \<Rightarrow> 'b iobuf \<Rightarrow> io_error + 'b iobuf" where
  "open_buffer mem b =
     (if isOpen b then Inl Already_open
      else Inr (b\<lparr>buffer := mem, isOpen := True, isFresh := True\<rparr>))"

section \<open>The reader\<close>

text \<open>The span from a start index to an end index of a buffer that is not empty.\<close>

definition fill_span :: "nat \<Rightarrow> nat \<Rightarrow> nat \<Rightarrow> nat" where
  "fill_span size0 s e = (if s < e then e - s else size0 - s + e)"

definition read_must_wait :: "'b iobuf \<Rightarrow> bool" where
  "read_must_wait b =
     ((emptyFlag b \<or> waitForInitialFillSize b) \<and> \<not> threadShutdown b \<and> \<not> eof b \<and> \<not> readError b)"

text \<open>The part of \<open>read\<close> without the lock: what it copies for a length and an end position.\<close>

definition read_copy :: "'b iobuf \<Rightarrow> nat \<Rightarrow> nat \<Rightarrow> 'b list" where
  "read_copy b len endPosition =
     (let currentFillSize = fill_span (bufSize b) (startIndex b) endPosition;
          maxRead = (if startIndex b < endPosition then endPosition - startIndex b else bufSize b - startIndex b);
          read1 = min len maxRead;
          remaining = (if len > read1 then len - read1 else 0);
          read2 = min remaining (currentFillSize - read1)
      in take read1 (drop (startIndex b) (buffer b)) @ take read2 (buffer b))"

text \<open>The last part of \<open>read\<close>, with the lock again; the flag says whether it notified.\<close>

definition read_commit :: "'b iobuf \<Rightarrow> nat \<Rightarrow> 'b iobuf \<times> bool" where
  "read_commit b didRead =
     (let signalled = (signalAfterEveryRead b \<or> startIndex b = endIndex b);
          s1 = startIndex b + didRead;
          s2 = (if s1 \<ge> bufSize b then s1 - bufSize b else s1);
          becomesEmpty = (s2 = endIndex b)
      in (b\<lparr>startIndex := s2, emptyFlag := emptyFlag b \<or> becomesEmpty, posRead := posRead b + int didRead\<rparr>,
          signalled \<or> becomesEmpty))"

text \<open>
  \<open>seek\<close> up to the wait: an exception, an early return (\<open>None\<close>) or a request to the thread.
\<close>

definition seek_request :: "'b iobuf \<Rightarrow> int \<Rightarrow> whence \<Rightarrow> io_error + 'b iobuf \<times> bool" where
  "seek_request b offset whc =
     (if \<not> seekEnabled b \<and> (offset > 0 \<or> \<not> isFresh b) then Inl Seek_disabled
      else if offset = 0 \<and> isFresh b then Inr (b, False)
      else let b1 = b\<lparr>isFresh := False\<rparr> in
        if \<not> isOpen b1 \<or> (whc = SEEK_SET \<and> offset < 0) \<or> (whc = SEEK_END \<and> offset > 0) then Inl Assertion_failed
        else if whc = SEEK_CUR \<and> offset = 0 then Inr (b1, False)
        else Inr (b1\<lparr>doSeek := True, seekOffset := offset, seekWhence := whc\<rparr>, True))"

definition seek_must_wait :: "'b iobuf \<Rightarrow> bool" where
  "seek_must_wait b = (doSeek b \<and> \<not> threadShutdown b \<and> \<not> eof b \<and> \<not> readError b)"

section \<open>The filling thread\<close>

definition wrap64 :: "int \<Rightarrow> nat" where
  "wrap64 i = nat (i mod 2 ^ 64)"

text \<open>
  A pending seek, at the top of the loop: inside the buffered bytes if they reach far enough
  (\<open>startIndex\<close> is unsigned, so adding a negative distance wraps), otherwise by the handler
  below, whose success is \<open>seekOk\<close>. The flag says whether the thread notified.
\<close>

definition in_buffer_seek :: "'b iobuf \<Rightarrow> bool" where
  "in_buffer_seek b =
     (doSeek b \<and> \<not> emptyFlag b \<and> (seekWhence b = SEEK_SET \<or> (seekWhence b = SEEK_CUR \<and> seekOffset b > 0)))"

definition rel_seek :: "'b iobuf \<Rightarrow> int" where
  "rel_seek b = (if seekWhence b = SEEK_SET then seekOffset b - posRead b else seekOffset b)"

definition buffer_seek :: "'b iobuf \<Rightarrow> 'b iobuf \<times> bool" where
  "buffer_seek b =
     (if in_buffer_seek b \<and> rel_seek b \<le> int (fill_span (bufSize b) (startIndex b) (endIndex b)) then
        (let s1 = wrap64 (int (startIndex b) + rel_seek b);
             s2 = (if s1 \<ge> bufSize b then s1 - bufSize b else s1);
             b1 = b\<lparr>startIndex := s2, posRead := posRead b + rel_seek b, doSeek := False\<rparr>
         in (if s2 = endIndex b then b1\<lparr>emptyFlag := True, startIndex := 0, endIndex := 0\<rparr> else b1, True))
      else (b, False))"

definition thread_seek :: "bool \<Rightarrow> 'b iobuf \<Rightarrow> 'b iobuf \<times> bool" where
  "thread_seek seekOk b =
     (let (b1, notified) = buffer_seek b in
      if doSeek b1 then
        (let b2 = (if seekOk then b1\<lparr>emptyFlag := True, startIndex := 0, endIndex := 0\<rparr> else b1)
         in (b2\<lparr>waitForInitialFillSize := (initialFillSize b > 0), doSeek := False\<rparr>, True))
      else (b1, notified))"

definition max_write :: "'b iobuf \<Rightarrow> nat" where
  "max_write b =
     (if emptyFlag b then bufSize b
      else if startIndex b < endIndex b then bufSize b - endIndex b else startIndex b - endIndex b)"

text \<open>From the top of the loop to the point where the thread waits or starts to read.\<close>

definition thread_top :: "bool \<Rightarrow> 'b iobuf \<Rightarrow> 'b iobuf \<times> bool" where
  "thread_top seekOk b =
     thread_seek seekOk (if emptyFlag b then b\<lparr>startIndex := 0, endIndex := 0\<rparr> else b)"

definition chunk_size :: "'b iobuf \<Rightarrow> nat" where
  "chunk_size b = (if maxChunkSize b > max_write b then max_write b else maxChunkSize b)"

text \<open>The handler below writes its bytes at \<open>buffer + endIndex\<close>, without the lock.\<close>

definition thread_store :: "'b list \<Rightarrow> 'b iobuf \<Rightarrow> 'b iobuf" where
  "thread_store bs b =
     b\<lparr>buffer := take (endIndex b) (buffer b) @ bs @ drop (endIndex b + length bs) (buffer b)\<rparr>"

text \<open>After the read, with the lock; the flag says whether the thread notified.\<close>

definition thread_commit :: "nat \<Rightarrow> 'b iobuf \<Rightarrow> 'b iobuf \<times> bool" where
  "thread_commit readBytes b =
     (let e1 = endIndex b + readBytes;
          e2 = (if e1 = bufSize b then 0 else e1);
          b1 = b\<lparr>endIndex := e2, emptyFlag := False\<rparr>;
          filled = (waitForInitialFillSize b \<and> fill_span (bufSize b) (startIndex b) e2 \<ge> initialFillSize b)
      in (b1\<lparr>waitForInitialFillSize := waitForInitialFillSize b \<and> \<not> filled\<rparr>, emptyFlag b \<or> filled))"

text \<open>After the loop.\<close>

definition thread_end :: "int \<Rightarrow> 'b iobuf \<Rightarrow> 'b iobuf" where
  "thread_end readBytes b =
     (if threadShutdown b then b
      else b\<lparr>eof := eof b \<or> readBytes = 0, readError := readError b \<or> readBytes < 0\<rparr>)"

section \<open>Ring arithmetic\<close>

definition fill :: "'b iobuf \<Rightarrow> nat" where
  "fill b = (if emptyFlag b then 0 else fill_span (bufSize b) (startIndex b) (endIndex b))"

definition ring_slice :: "'b list \<Rightarrow> nat \<Rightarrow> nat \<Rightarrow> nat \<Rightarrow> 'b list" where
  "ring_slice mem size0 s n = map (\<lambda>i. mem ! ((s + i) mod size0)) [0..<n]"

definition contents :: "'b iobuf \<Rightarrow> 'b list" where
  "contents b = ring_slice (buffer b) (bufSize b) (startIndex b) (fill b)"

definition ring_ok :: "'b iobuf \<Rightarrow> bool" where
  "ring_ok b =
     (0 < bufSize b \<and> length (buffer b) = bufSize b \<and> startIndex b < bufSize b \<and> endIndex b < bufSize b \<and>
      (emptyFlag b \<longrightarrow> startIndex b = endIndex b))"

lemma length_ring_slice [simp]: "length (ring_slice mem size0 s n) = n"
  by (simp add: ring_slice_def)

lemma ring_slice_0 [simp]: "ring_slice mem size0 s 0 = []"
  by (simp add: ring_slice_def)

lemma ring_slice_take: "m \<le> n \<Longrightarrow> take m (ring_slice mem size0 s n) = ring_slice mem size0 s m"
  by (simp add: ring_slice_def take_map min_absorb1)

lemma ring_slice_add:
  "ring_slice mem size0 s (m + n) = ring_slice mem size0 s m @ ring_slice mem size0 ((s + m) mod size0) n"
  by (rule nth_equalityI) (auto simp: ring_slice_def nth_append mod_add_left_eq add.assoc)

lemma ring_slice_flat:
  "s + n \<le> size0 \<Longrightarrow> length mem = size0 \<Longrightarrow> ring_slice mem size0 s n = take n (drop s mem)"
  by (rule nth_equalityI) (auto simp: ring_slice_def)

lemma fill_span_bounds:
  "s < size0 \<Longrightarrow> e < size0 \<Longrightarrow> 0 < fill_span size0 s e \<and> fill_span size0 s e \<le> size0"
  by (auto simp: fill_span_def)

lemma fill_span_end: "s < size0 \<Longrightarrow> e < size0 \<Longrightarrow> (s + fill_span size0 s e) mod size0 = e"
  by (auto simp: fill_span_def)

lemma fill_le: "ring_ok b \<Longrightarrow> fill b \<le> bufSize b"
  by (auto simp: ring_ok_def fill_def dest: fill_span_bounds)

text \<open>A length up to the ring size determines the end, and the end the length.\<close>

lemma fill_span_unique:
  assumes "s < size0" "0 < n" "n \<le> size0"
  shows "fill_span size0 s ((s + n) mod size0) = n"
proof (cases "s + n < size0")
  case True
  then show ?thesis using assms by (simp add: fill_span_def)
next
  case False
  then have "(s + n) mod size0 = s + n - size0" using assms by (simp add: mod_if)
  then show ?thesis using assms False by (auto simp: fill_span_def)
qed

lemma read_copy_eq:
  assumes "ring_ok b" and "e < bufSize b"
  shows "read_copy b len e =
    ring_slice (buffer b) (bufSize b) (startIndex b) (min len (fill_span (bufSize b) (startIndex b) e))"
proof (cases "startIndex b < e")
  case True
  then have "min len (e - startIndex b) + startIndex b \<le> bufSize b" using assms by auto
  then show ?thesis
    using True assms
    by (simp add: read_copy_def fill_span_def ring_slice_flat ring_ok_def Let_def min_def)
next
  case False
  let ?n = "bufSize b" and ?s = "startIndex b"
  have ok: "?s < ?n" "length (buffer b) = ?n" using assms by (auto simp: ring_ok_def)
  show ?thesis
  proof (cases "len \<le> ?n - ?s")
    case True
    then have "ring_slice (buffer b) ?n ?s (min len (?n - ?s + e)) = take len (drop ?s (buffer b))"
      using ok by (simp add: ring_slice_flat min_absorb1)
    with True False show ?thesis by (simp add: read_copy_def fill_span_def Let_def min_absorb1)
  next
    case long: False
    let ?r2 = "min (len - (?n - ?s)) e"
    have m: "min len (?n - ?s + e) = (?n - ?s) + ?r2" using long by simp
    have "ring_slice (buffer b) ?n ?s ((?n - ?s) + ?r2)
        = take (?n - ?s) (drop ?s (buffer b)) @ take ?r2 (buffer b)"
      unfolding ring_slice_add using ok assms(2) by (simp add: ring_slice_flat)
    then show ?thesis
      using long False unfolding m by (simp add: read_copy_def fill_span_def Let_def m)
  qed
qed

lemma read_commit_ring:
  assumes ok: "ring_ok b" and ne: "\<not> emptyFlag b" and d: "0 < d" "d \<le> fill b"
  shows "ring_ok (fst (read_commit b d))"
    and "contents (fst (read_commit b d)) = drop d (contents b)"
    and "fill (fst (read_commit b d)) = fill b - d"
    and "endIndex (fst (read_commit b d)) = endIndex b"
proof -
  let ?n = "bufSize b" and ?s = "startIndex b" and ?c = "fst (read_commit b d)"
  have sz: "?s < ?n" "endIndex b < ?n" "d \<le> ?n" using ok fill_le [OF ok] d by (auto simp: ring_ok_def)
  then have s': "startIndex ?c = (?s + d) mod ?n"
    by (auto simp: read_commit_def Let_def mod_if)
  have keep: "buffer ?c = buffer b" "bufSize ?c = ?n" "endIndex ?c = endIndex b"
    "emptyFlag ?c = ((?s + d) mod ?n = endIndex b)"
    using s' ne by (simp_all add: read_commit_def Let_def)
  then show "endIndex ?c = endIndex b" by simp
  show "ring_ok ?c" using ok s' keep by (auto simp: ring_ok_def)
  have f: "fill b = fill_span ?n ?s (endIndex b)" using ne by (simp add: fill_def)
  have e: "(?s + fill b) mod ?n = endIndex b" unfolding f using sz fill_span_end by blast
  show fc: "fill ?c = fill b - d"
  proof (cases "d = fill b")
    case True
    then show ?thesis using e keep by (simp add: fill_def)
  next
    case False
    then have r: "0 < fill b - d" "fill b - d \<le> ?n" "fill b \<le> ?n" using d fill_le [OF ok] by auto
    have e': "((?s + d) mod ?n + (fill b - d)) mod ?n = endIndex b"
    proof -
      have "((?s + d) mod ?n + (fill b - d)) mod ?n = (?s + d + (fill b - d)) mod ?n"
        by (rule mod_add_left_eq)
      also have "?s + d + (fill b - d) = ?s + fill b" using d by simp
      finally show ?thesis using e by simp
    qed
    have "(?s + d) mod ?n \<noteq> endIndex b"
    proof
      assume eq: "(?s + d) mod ?n = endIndex b"
      have "fill_span ?n ?s ((?s + d) mod ?n) = d" using sz d by (intro fill_span_unique) auto
      with eq f False show False by simp
    qed
    moreover have "fill_span ?n ((?s + d) mod ?n) (endIndex b) = fill b - d"
      using fill_span_unique [of "(?s + d) mod ?n" ?n "fill b - d"] r sz e' by simp
    ultimately show ?thesis using s' keep by (simp add: fill_def)
  qed
  have "contents b = ring_slice (buffer b) ?n ?s (d + (fill b - d))" using d by (simp add: contents_def)
  then show "contents ?c = drop d (contents b)"
    unfolding contents_def fc keep(1,2) s' by (simp add: ring_slice_add contents_def)
qed

section \<open>What the thread adds\<close>

lemma ring_slice_store:
  assumes "length mem = size0" "0 < size0" "e < size0" "e + length bs \<le> size0" "s < size0"
    and "n + length bs \<le> size0" and "n = 0 \<or> (s + n) mod size0 = e"
  shows "ring_slice (take e mem @ bs @ drop (e + length bs) mem) size0 s n = ring_slice mem size0 s n"
proof (rule nth_equalityI)
  fix i assume "i < length (ring_slice (take e mem @ bs @ drop (e + length bs) mem) size0 s n)"
  then have i: "i < n" by simp
  let ?p = "(s + i) mod size0"
  have p: "?p < size0" using assms(2) by simp
  have e: "(s + n) mod size0 = e" using assms(7) i by auto
  have out: "?p < e \<or> e + length bs \<le> ?p"
  proof (cases "s + n < size0")
    case True
    then have "?p < e" using e i by simp
    then show ?thesis ..
  next
    case False
    then have e': "e = s + n - size0" using e assms by (simp add: mod_if split: if_splits)
    show ?thesis
    proof (cases "s + i < size0")
      case True
      then have "?p = s + i" by simp
      then show ?thesis using e' assms(6) False by linarith
    next
      case wrapped: False
      then have "?p = s + i - size0" using i assms by (simp add: mod_if)
      then show ?thesis using e' i wrapped by linarith
    qed
  qed
  then have "(take e mem @ bs @ drop (e + length bs) mem) ! ?p = mem ! ?p"
    using p assms(1,4) by (auto simp: nth_append)
  then show "ring_slice (take e mem @ bs @ drop (e + length bs) mem) size0 s n ! i = ring_slice mem size0 s n ! i"
    using i by (simp add: ring_slice_def)
qed simp

lemma fill_end: "ring_ok b \<Longrightarrow> (startIndex b + fill b) mod bufSize b = endIndex b"
  by (auto simp: ring_ok_def fill_def fill_span_end)

text \<open>Room for a write at \<open>endIndex\<close>: up to the end of the array, and not over unread bytes.\<close>

definition write_room :: "'b iobuf \<Rightarrow> nat \<Rightarrow> bool" where
  "write_room b n = (endIndex b + n \<le> bufSize b \<and> fill b + n \<le> bufSize b)"

lemma max_write_room:
  "ring_ok b \<Longrightarrow> (emptyFlag b \<longrightarrow> startIndex b = 0) \<Longrightarrow> n \<le> max_write b \<Longrightarrow> write_room b n"
  by (auto simp: max_write_def write_room_def ring_ok_def fill_def fill_span_def split: if_splits)

lemma max_write_full: "ring_ok b \<Longrightarrow> max_write b = 0 \<longleftrightarrow> \<not> emptyFlag b \<and> startIndex b = endIndex b"
  by (auto simp: max_write_def ring_ok_def)

lemma full_fill: "\<not> emptyFlag b \<Longrightarrow> startIndex b = endIndex b \<Longrightarrow> startIndex b \<le> bufSize b \<Longrightarrow> fill b = bufSize b"
  by (simp add: fill_def fill_span_def)

lemma thread_store_ring:
  assumes "ring_ok b" and "write_room b (length bs)"
  shows "ring_ok (thread_store bs b)" and "contents (thread_store bs b) = contents b"
    and "fill (thread_store bs b) = fill b"
    and "take (length bs) (drop (endIndex b) (buffer (thread_store bs b))) = bs"
proof -
  show "ring_ok (thread_store bs b)" using assms by (auto simp: ring_ok_def thread_store_def write_room_def)
  show f: "fill (thread_store bs b) = fill b" by (simp add: fill_def thread_store_def)
  show "take (length bs) (drop (endIndex b) (buffer (thread_store bs b))) = bs"
    using assms by (simp add: thread_store_def ring_ok_def write_room_def)
  show "contents (thread_store bs b) = contents b"
    unfolding contents_def f
    using assms fill_end [OF assms(1)]
    by (simp add: thread_store_def ring_slice_store ring_ok_def write_room_def)
qed

lemma thread_commit_ring:
  assumes ok: "ring_ok b" and room: "write_room b n" and n: "0 < n"
  shows "ring_ok (fst (thread_commit n b))"
    and "contents (fst (thread_commit n b)) = contents b @ take n (drop (endIndex b) (buffer b))"
    and "fill (fst (thread_commit n b)) = fill b + n"
proof -
  let ?n = "bufSize b" and ?c = "fst (thread_commit n b)"
  have sz: "startIndex b < ?n" "endIndex b < ?n" "length (buffer b) = ?n" "0 < ?n"
    using ok by (auto simp: ring_ok_def)
  have keep: "buffer ?c = buffer b" "bufSize ?c = ?n" "startIndex ?c = startIndex b" "\<not> emptyFlag ?c"
    by (simp_all add: thread_commit_def Let_def)
  have e: "endIndex ?c = (endIndex b + n) mod ?n"
    using room sz by (auto simp: thread_commit_def Let_def write_room_def mod_if)
  then show "ring_ok ?c" using sz keep by (simp add: ring_ok_def)
  have "(startIndex b + (fill b + n)) mod ?n = endIndex ?c"
    unfolding e using fill_end [OF ok] by (metis add.assoc mod_add_left_eq)
  then have "fill_span ?n (startIndex b) (endIndex ?c) = fill b + n"
    using fill_span_unique [of "startIndex b" ?n "fill b + n"] room n sz by (simp add: write_room_def)
  then show f: "fill ?c = fill b + n" using keep by (simp add: fill_def)
  have "ring_slice (buffer b) ?n (endIndex b) n = take n (drop (endIndex b) (buffer b))"
    using room sz by (intro ring_slice_flat) (auto simp: write_room_def)
  then show "contents ?c = contents b @ take n (drop (endIndex b) (buffer b))"
    unfolding contents_def f keep by (simp add: ring_slice_add fill_end [OF ok])
qed

end
