(* ===== verification/IO_Threads.thy ===== *)
theory IO_Threads
  imports IO_Buffer Transition
begin

text \<open>
  The reader and the filling thread of \<open>BufferedIOHandler\<close> interleaved: a step is one region under
  the lock, one wake-up of the condition variable, or one of the two regions without the lock
  (the reader's copy, the read of the handler below). The handler below is the environment: it
  returns any non-empty list of at most the requested length, 0 or a negative number. The client
  reads and closes; seeks are treated as operations in \<open>IO_Seek\<close>.
\<close>

datatype 'b reader =
  RReturned "'b read_result option" | RWait nat | RWoken nat | RCopy nat nat | RCommit "'b list" |
  RClosing | RClosed

datatype 'b writer = WStart | WWait | WWoken | WRead nat nat | WStored nat "'b list" | WDone

record 'b system =
  buf :: "'b iobuf"
  rpc :: "'b reader"
  wpc :: "'b writer"
  produced :: "'b list"
  delivered :: "'b list"

text \<open>\<open>notify\<close> wakes the thread that waits on the condition variable.\<close>

fun wake_writer :: "bool \<Rightarrow> 'b writer \<Rightarrow> 'b writer" where
  "wake_writer True WWait = WWoken"
| "wake_writer notified w = w"

fun wake_reader :: "bool \<Rightarrow> 'b reader \<Rightarrow> 'b reader" where
  "wake_reader True (RWait len) = RWoken len"
| "wake_reader notified r = r"

text \<open>\<open>read\<close> from the test of its waiting condition to the unlock, the wait or the return.\<close>

definition read_start :: "nat \<Rightarrow> 'b iobuf \<Rightarrow> 'b reader" where
  "read_start len b =
     (if read_must_wait b then RWait len
      else if readError b \<or> threadShutdown b then RReturned (Some Read_error)
      else if emptyFlag b \<and> eof b then RReturned (Some Read_end)
      else RCopy len (endIndex b))"

text \<open>\<open>threadProc\<close> from the top of the loop to the wait or to the unlock before reading.\<close>

definition thread_start :: "bool \<Rightarrow> 'b iobuf \<Rightarrow> 'b iobuf \<times> 'b writer \<times> bool" where
  "thread_start seekOk b =
     (let (b1, notified) = thread_top seekOk b
      in (b1, if max_write b1 = 0 then WWait else WRead (max_write b1) (chunk_size b1), notified))"

text \<open>The condition of the loop, and what follows it in the same locked region.\<close>

definition thread_next :: "int \<Rightarrow> nat \<Rightarrow> bool \<Rightarrow> 'b iobuf \<Rightarrow> 'b iobuf \<times> 'b writer \<times> bool" where
  "thread_next readBytes maxWrite seekOk b =
     (if (maxWrite = 0 \<or> readBytes > 0) \<and> \<not> threadShutdown b then thread_start seekOk b
      else (thread_end readBytes b, WDone, True))"

text \<open>\<open>stopBufferThread\<close> called by \<open>close\<close>, up to the join.\<close>

definition close_buffer :: "'b iobuf \<Rightarrow> 'b iobuf" where
  "close_buffer b = b\<lparr>isOpen := False, threadShutdown := True\<rparr>"

inductive io_step :: "'b system \<Rightarrow> 'b system \<Rightarrow> bool" where
  r_call: "\<lbrakk>rpc s = RReturned r; 0 < len\<rbrakk> \<Longrightarrow> io_step s (s\<lparr>rpc := read_start len (buf s)\<rparr>)"
| r_again: "rpc s = RWoken len \<Longrightarrow> io_step s (s\<lparr>rpc := read_start len (buf s)\<rparr>)"
| r_spurious: "rpc s = RWait len \<Longrightarrow> io_step s (s\<lparr>rpc := RWoken len\<rparr>)"
| r_copy: "rpc s = RCopy len e \<Longrightarrow> io_step s (s\<lparr>rpc := RCommit (read_copy (buf s) len e)\<rparr>)"
| r_commit: "\<lbrakk>rpc s = RCommit bs; read_commit (buf s) (length bs) = (b', n)\<rbrakk> \<Longrightarrow>
    io_step s (s\<lparr>buf := b', rpc := RReturned (Some (Bytes bs)), wpc := wake_writer n (wpc s),
      delivered := delivered s @ bs\<rparr>)"
| r_close: "rpc s = RReturned r \<Longrightarrow>
    io_step s (s\<lparr>buf := close_buffer (buf s), rpc := RClosing, wpc := wake_writer True (wpc s)\<rparr>)"
| r_join: "\<lbrakk>rpc s = RClosing; wpc s = WDone\<rbrakk> \<Longrightarrow> io_step s (s\<lparr>rpc := RClosed\<rparr>)"
| w_start: "\<lbrakk>wpc s = WStart; thread_start seekOk (buf s) = (b', w, n)\<rbrakk> \<Longrightarrow>
    io_step s (s\<lparr>buf := b', wpc := w, rpc := wake_reader n (rpc s)\<rparr>)"
| w_again: "\<lbrakk>wpc s = WWoken; thread_next readBytes 0 seekOk (buf s) = (b', w, n)\<rbrakk> \<Longrightarrow>
    io_step s (s\<lparr>buf := b', wpc := w, rpc := wake_reader n (rpc s)\<rparr>)"
| w_spurious: "wpc s = WWait \<Longrightarrow> io_step s (s\<lparr>wpc := WWoken\<rparr>)"
| w_read: "\<lbrakk>wpc s = WRead m chunk; bs \<noteq> []; length bs \<le> chunk\<rbrakk> \<Longrightarrow>
    io_step s (s\<lparr>buf := thread_store bs (buf s), wpc := WStored m bs\<rparr>)"
| w_fail: "\<lbrakk>wpc s = WRead m chunk; readBytes \<le> 0; thread_next readBytes m seekOk (buf s) = (b', w, n)\<rbrakk> \<Longrightarrow>
    io_step s (s\<lparr>buf := b', wpc := w, rpc := wake_reader n (rpc s)\<rparr>)"
| w_commit: "\<lbrakk>wpc s = WStored m bs; thread_commit (length bs) (buf s) = (b1, n1);
      thread_next (int (length bs)) m seekOk b1 = (b', w, n)\<rbrakk> \<Longrightarrow>
    io_step s (s\<lparr>buf := b', wpc := w, rpc := wake_reader (n1 \<or> n) (rpc s), produced := produced s @ bs\<rparr>)"

text \<open>Right after \<open>open\<close>: nothing read, the thread at its start.\<close>

definition io_start :: "'b iobuf \<Rightarrow> 'b system" where
  "io_start b = \<lparr>buf = b, rpc = RReturned None, wpc = WStart, produced = [], delivered = []\<rparr>"

definition io_init :: "'b system \<Rightarrow> bool" where
  "io_init s = (\<exists>size0 chunk fill0 mem b b'. BufferedIOHandler size0 chunk fill0 = Inr b \<and>
     length mem = size0 \<and> open_buffer mem b = Inr b' \<and> s = io_start b')"

abbreviation io_reachable :: "'b system \<Rightarrow> bool" where
  "io_reachable \<equiv> reach io_init io_step"

lemma opened:
  "\<lbrakk>BufferedIOHandler size0 chunk fill0 = Inr b; length mem = size0; open_buffer mem b = Inr b'\<rbrakk>
   \<Longrightarrow> io_reachable (io_start b')"
  by (rule reach_init) (unfold io_init_def, blast)

lemmas stepped = reach_step [of io_init io_step]

section \<open>The invariant\<close>

definition base_ok :: "'b iobuf \<Rightarrow> bool" where
  "base_ok b =
     (ring_ok b \<and> \<not> doSeek b \<and> 0 < maxChunkSize b \<and> initialFillSize b \<le> bufSize b \<and>
      (waitForInitialFillSize b \<longrightarrow> fill b < initialFillSize b))"

definition reader_ok :: "'b iobuf \<Rightarrow> 'b writer \<Rightarrow> 'b reader \<Rightarrow> bool" where
  "reader_ok b w r =
     (case r of
        RReturned None \<Rightarrow> \<not> threadShutdown b
      | RReturned (Some Read_end) \<Rightarrow> \<not> threadShutdown b \<and> emptyFlag b \<and> w = WDone
      | RReturned (Some _) \<Rightarrow> \<not> threadShutdown b
      | RWait len \<Rightarrow> 0 < len \<and> read_must_wait b
      | RWoken len \<Rightarrow> 0 < len \<and> \<not> threadShutdown b
      | RCopy len e \<Rightarrow> 0 < len \<and> \<not> threadShutdown b \<and> \<not> emptyFlag b \<and> e < bufSize b \<and>
          fill_span (bufSize b) (startIndex b) e \<le> fill b
      | RCommit bs \<Rightarrow> \<not> threadShutdown b \<and> \<not> emptyFlag b \<and> 0 < length bs \<and> length bs \<le> fill b \<and>
          bs = take (length bs) (contents b)
      | _ \<Rightarrow> threadShutdown b)"

definition writer_ok :: "'b iobuf \<Rightarrow> 'b writer \<Rightarrow> bool" where
  "writer_ok b w =
     (case w of
        WStart \<Rightarrow> emptyFlag b
      | WWait \<Rightarrow> \<not> emptyFlag b \<and> startIndex b = endIndex b \<and> \<not> threadShutdown b
      | WRead m c \<Rightarrow> 0 < m \<and> 0 < c \<and> write_room b c
      | WStored m bs \<Rightarrow> 0 < m \<and> bs \<noteq> [] \<and> write_room b (length bs) \<and>
          take (length bs) (drop (endIndex b) (buffer b)) = bs
      | _ \<Rightarrow> True)"

definition ended_ok :: "'b iobuf \<Rightarrow> 'b writer \<Rightarrow> bool" where
  "ended_ok b w =
     (if w = WDone then eof b \<or> readError b \<or> threadShutdown b else \<not> eof b \<and> \<not> readError b)"

definition sys_ok :: "'b system \<Rightarrow> bool" where
  "sys_ok s =
     (base_ok (buf s) \<and> reader_ok (buf s) (wpc s) (rpc s) \<and> writer_ok (buf s) (wpc s) \<and>
      ended_ok (buf s) (wpc s) \<and> produced s = delivered s @ contents (buf s))"

text \<open>What the filling thread may do to the buffer under a reader that holds no lock.\<close>

definition extends :: "'b iobuf \<Rightarrow> 'b iobuf \<Rightarrow> bool" where
  "extends b b' =
     (threadShutdown b' = threadShutdown b \<and>
      (\<not> emptyFlag b \<longrightarrow> \<not> emptyFlag b' \<and> bufSize b' = bufSize b \<and> startIndex b' = startIndex b \<and>
         fill b \<le> fill b' \<and> take (fill b) (contents b') = contents b))"

lemma length_contents [simp]: "length (contents b) = fill b"
  by (simp add: contents_def)

lemma empty_contents: "emptyFlag b \<Longrightarrow> contents b = []"
  by (simp add: contents_def fill_def)

lemma reader_ok_extends:
  assumes "reader_ok b w r" "extends b b'" "w \<noteq> WDone" "\<And>len. r \<noteq> RWait len"
  shows "reader_ok b' w' r"
proof (cases r)
  case (RCommit bs)
  then have "bs = take (length bs) (take (fill b) (contents b'))"
    using assms(1,2) by (simp add: reader_ok_def extends_def)
  then show ?thesis using RCommit assms(1,2) by (simp add: reader_ok_def extends_def min_absorb1)
qed (use assms in \<open>auto simp: reader_ok_def extends_def split: option.splits read_result.splits\<close>)

lemma wake_reader_other: "(\<And>len. r \<noteq> RWait len) \<Longrightarrow> wake_reader n r = r"
  by (cases n; cases r) auto

lemma reader_ok_wake:
  assumes "reader_ok b w r" "extends b b'" "w \<noteq> WDone" "\<not> n \<Longrightarrow> read_must_wait b \<Longrightarrow> read_must_wait b'"
  shows "reader_ok b' w' (wake_reader n r)"
proof (cases "\<exists>len. r = RWait len")
  case True
  then obtain len where r: "r = RWait len" ..
  then have "read_must_wait b" "0 < len" "threadShutdown b' = threadShutdown b"
    using assms(1,2) by (auto simp: reader_ok_def extends_def)
  then show ?thesis using r assms(4) by (cases n) (auto simp: reader_ok_def read_must_wait_def)
next
  case False
  then show ?thesis using reader_ok_extends [OF assms(1-3)] by (simp add: wake_reader_other)
qed

section \<open>The thread keeps the invariant\<close>

lemma extends_trans: "extends a b \<Longrightarrow> extends b c \<Longrightarrow> extends a c"
proof -
  assume ab: "extends a b" and bc: "extends b c"
  show "extends a c"
  proof (cases "emptyFlag a")
    case False
    then have b: "\<not> emptyFlag b" "fill a \<le> fill b" "take (fill a) (contents b) = contents a"
      using ab by (simp_all add: extends_def)
    then have "take (fill a) (contents c) = take (fill a) (take (fill b) (contents c))"
      by (simp add: min_absorb1)
    also have "\<dots> = contents a" using b bc by (simp add: extends_def)
    finally show ?thesis using ab bc False b by (auto simp: extends_def)
  qed (use ab bc in \<open>simp add: extends_def\<close>)
qed

lemma thread_top_base:
  assumes "base_ok b" "thread_top seekOk b = (b', n)"
  shows "base_ok b'" "extends b b'" "contents b' = contents b" "\<not> n" "emptyFlag b' \<longrightarrow> startIndex b' = 0"
    "emptyFlag b' = emptyFlag b" "eof b' = eof b" "readError b' = readError b" "read_must_wait b' = read_must_wait b"
    "threadShutdown b' = threadShutdown b"
  using assms
  by (auto simp: thread_top_def thread_seek_def buffer_seek_def in_buffer_seek_def base_ok_def ring_ok_def fill_def extends_def
      contents_def read_must_wait_def split: if_splits)

lemma thread_start_ok:
  assumes b: "base_ok b" and t: "thread_start seekOk b = (b', w, n)" and live: "emptyFlag b \<or> \<not> threadShutdown b"
  shows "base_ok b'" "extends b b'" "contents b' = contents b" "\<not> n" "writer_ok b' w" "w \<noteq> WDone"
    "eof b' = eof b" "readError b' = readError b" "read_must_wait b' = read_must_wait b"
proof -
  have top: "thread_top seekOk b = (b', n)" and w: "w = (if max_write b' = 0 then WWait else WRead (max_write b') (chunk_size b'))"
    using t by (auto simp: thread_start_def split: prod.splits)
  note f = thread_top_base [OF b top]
  show "base_ok b'" "extends b b'" "contents b' = contents b" "\<not> n" "w \<noteq> WDone" "eof b' = eof b"
    "readError b' = readError b" "read_must_wait b' = read_must_wait b"
    using f w by auto
  have ring: "ring_ok b'" "0 < maxChunkSize b'" using f(1) by (auto simp: base_ok_def)
  show "writer_ok b' w"
  proof (cases "max_write b' = 0")
    case True
    then show ?thesis using w max_write_full [OF ring(1)] f(6,10) live by (auto simp: writer_ok_def)
  next
    case False
    then have "0 < chunk_size b'" "chunk_size b' \<le> max_write b'" using ring by (auto simp: chunk_size_def)
    then show ?thesis using False w max_write_room [OF ring(1) f(5)] by (simp add: writer_ok_def)
  qed
qed

lemma thread_end_base:
  assumes "base_ok b"
  shows "base_ok (thread_end r b)" "extends b (thread_end r b)" "contents (thread_end r b) = contents b"
  using assms by (auto simp: thread_end_def base_ok_def ring_ok_def extends_def contents_def fill_def)

lemma thread_next_ok:
  assumes b: "base_ok b" and t: "thread_next r m seekOk b = (b', w, n)" and l: "\<not> eof b" "\<not> readError b"
  shows "base_ok b'" "extends b b'" "contents b' = contents b" "writer_ok b' w" "ended_ok b' w"
    "\<not> n \<Longrightarrow> read_must_wait b' = read_must_wait b"
proof -
  have "base_ok b' \<and> extends b b' \<and> contents b' = contents b \<and> writer_ok b' w \<and> ended_ok b' w \<and>
      (\<not> n \<longrightarrow> read_must_wait b' = read_must_wait b)"
  proof (cases "(m = 0 \<or> r > 0) \<and> \<not> threadShutdown b")
    case True
    then have "thread_start seekOk b = (b', w, n)" using t by (simp add: thread_next_def)
    from thread_start_ok [OF b this] True l show ?thesis by (auto simp: ended_ok_def)
  next
    case False
    then have e: "b' = thread_end r b" "w = WDone" n using t by (auto simp: thread_next_def split: if_splits)
    then show ?thesis using thread_end_base [OF b] False l
      by (auto simp: writer_ok_def ended_ok_def thread_end_def)
  qed
  then show "base_ok b'" "extends b b'" "contents b' = contents b" "writer_ok b' w" "ended_ok b' w"
    "\<not> n \<Longrightarrow> read_must_wait b' = read_must_wait b" by auto
qed

lemma thread_commit_ok:
  assumes b: "base_ok b" and w: "writer_ok b (WStored m bs)" and t: "thread_commit (length bs) b = (b', n)"
  shows "base_ok b'" "extends b b'" "contents b' = contents b @ bs" "eof b' = eof b" "readError b' = readError b"
    "\<not> n \<Longrightarrow> read_must_wait b \<Longrightarrow> read_must_wait b'"
proof -
  have pre: "ring_ok b" "write_room b (length bs)" "0 < length bs"
    using b w by (auto simp: base_ok_def writer_ok_def)
  have b': "b' = fst (thread_commit (length bs) b)" using t by simp
  note c = thread_commit_ring [OF pre, folded b']
  show cont: "contents b' = contents b @ bs" using c(2) w by (simp add: writer_ok_def)
  have keep: "startIndex b' = startIndex b" "bufSize b' = bufSize b" "\<not> emptyFlag b'"
    "eof b' = eof b" "readError b' = readError b" "threadShutdown b' = threadShutdown b"
    "initialFillSize b' = initialFillSize b" "maxChunkSize b' = maxChunkSize b" "doSeek b' = doSeek b"
    by (simp_all add: b' thread_commit_def Let_def)
  then show "eof b' = eof b" "readError b' = readError b" by simp_all
  have e: "fill_span (bufSize b) (startIndex b) (endIndex b') = fill b'"
    using keep by (simp add: fill_def)
  have wi: "waitForInitialFillSize b' \<longrightarrow> waitForInitialFillSize b \<and> fill b' < initialFillSize b"
    using t e by (auto simp: b' thread_commit_def Let_def)
  show "base_ok b'" using c(1) b wi keep by (auto simp: base_ok_def)
  show "extends b b'" using keep cont c(3) by (auto simp: extends_def)
  show "read_must_wait b'" if "\<not> n" "read_must_wait b"
    using that t keep by (auto simp: read_must_wait_def thread_commit_def Let_def)
qed

section \<open>The reader keeps the invariant\<close>

lemma ended_ok_keep: "ended_ok b w \<Longrightarrow> eof b' = eof b \<Longrightarrow> readError b' = readError b \<Longrightarrow>
    threadShutdown b' = threadShutdown b \<Longrightarrow> ended_ok b' (wake_writer n w)"
  by (cases n; cases w) (auto simp: ended_ok_def)

lemma read_start_ok:
  assumes b: "base_ok b" and e: "ended_ok b w" and live: "0 < len" "\<not> threadShutdown b"
  shows "reader_ok b w (read_start len b)"
proof -
  consider "read_must_wait b" | "\<not> read_must_wait b" "readError b" | "\<not> read_must_wait b" "\<not> readError b" "emptyFlag b"
    | "\<not> read_must_wait b" "\<not> readError b" "\<not> emptyFlag b" by blast
  then show ?thesis
  proof cases
    case 4
    then have "fill_span (bufSize b) (startIndex b) (endIndex b) \<le> fill b" by (simp add: fill_def)
    with 4 b live show ?thesis by (simp add: read_start_def reader_ok_def base_ok_def ring_ok_def)
  qed (use e live in \<open>auto simp: read_start_def reader_ok_def ended_ok_def read_must_wait_def split: if_splits\<close>)
qed

lemma read_copy_ok:
  assumes b: "base_ok b" and r: "reader_ok b w (RCopy len e)"
  shows "reader_ok b w (RCommit (read_copy b len e))"
proof -
  let ?f = "fill_span (bufSize b) (startIndex b) e"
  have ok: "ring_ok b" "e < bufSize b" "?f \<le> fill b" "0 < len"
    using b r by (auto simp: base_ok_def reader_ok_def)
  have "0 < ?f" using ok fill_span_bounds by (auto simp: ring_ok_def)
  moreover have c: "read_copy b len e = take (min len ?f) (contents b)"
    unfolding contents_def using ok by (simp add: read_copy_eq ring_slice_take)
  ultimately show ?thesis using r ok by (simp add: reader_ok_def)
qed

lemma read_commit_ok:
  assumes b: "base_ok b" and r: "reader_ok b w (RCommit bs)" and w: "writer_ok b w" and e: "ended_ok b w"
    and c: "read_commit b (length bs) = (b', n)"
  shows "base_ok b'" "contents b = bs @ contents b'" "writer_ok b' (wake_writer n w)"
    "ended_ok b' (wake_writer n w)" "threadShutdown b' = threadShutdown b"
proof -
  have pre: "ring_ok b" "\<not> emptyFlag b" "0 < length bs" "length bs \<le> fill b" "bs = take (length bs) (contents b)"
    using b r by (auto simp: base_ok_def reader_ok_def)
  have b': "b' = fst (read_commit b (length bs))" using c by simp
  note f = read_commit_ring [OF pre(1-4), folded b']
  have keep: "bufSize b' = bufSize b" "buffer b' = buffer b" "eof b' = eof b" "readError b' = readError b"
    "threadShutdown b' = threadShutdown b" "initialFillSize b' = initialFillSize b" "maxChunkSize b' = maxChunkSize b"
    "doSeek b' = doSeek b" "waitForInitialFillSize b' = waitForInitialFillSize b"
    by (simp_all add: b' read_commit_def Let_def)
  show "threadShutdown b' = threadShutdown b" by fact
  show "base_ok b'" using b f keep by (auto simp: base_ok_def)
  show "contents b = bs @ contents b'"
    unfolding f(2) using pre(5) by (metis append_take_drop_id)
  show "ended_ok b' (wake_writer n w)" using e keep by (intro ended_ok_keep) auto
  show "writer_ok b' (wake_writer n w)"
  proof (cases w)
    case WWait
    then have n using w c by (auto simp: writer_ok_def read_commit_def Let_def)
    then show ?thesis using WWait by (simp add: writer_ok_def)
  next
    case WStart
    then show ?thesis using w pre by (simp add: writer_ok_def)
  next
    case (WRead m k)
    then show ?thesis using w f keep by (cases n) (auto simp: writer_ok_def write_room_def)
  next
    case (WStored m k)
    then show ?thesis using w f keep by (cases n) (auto simp: writer_ok_def write_room_def)
  qed (cases n; simp add: writer_ok_def)+
qed

section \<open>Every step\<close>

lemma close_buffer_keeps:
  "base_ok (close_buffer b) = base_ok b" "contents (close_buffer b) = contents b"
  "fill (close_buffer b) = fill b"
  by (auto simp: close_buffer_def base_ok_def ring_ok_def contents_def fill_def)

lemma writer_ok_close: "writer_ok b w \<Longrightarrow> writer_ok (close_buffer b) (wake_writer True w)"
  by (cases w) (auto simp: writer_ok_def close_buffer_def write_room_def fill_def)

lemma ended_ok_close: "ended_ok b w \<Longrightarrow> ended_ok (close_buffer b) (wake_writer True w)"
  by (cases w) (auto simp: ended_ok_def close_buffer_def)

lemma returned_live: "reader_ok b w (RReturned r) \<Longrightarrow> \<not> threadShutdown b"
  by (auto simp: reader_ok_def split: option.splits read_result.splits)

lemma store_extends:
  assumes "ring_ok b" "write_room b (length bs)"
  shows "extends b (thread_store bs b)"
  using thread_store_ring [OF assms] by (auto simp: extends_def thread_store_def)

lemma io_step_ok:
  assumes "io_step s t" and "sys_ok s"
  shows "sys_ok t"
  using assms
proof (induction rule: io_step.induct)
  case (r_call s r len)
  then have "\<not> threadShutdown (buf s)" using returned_live [of "buf s" "wpc s" r] by (simp add: sys_ok_def)
  with r_call have "reader_ok (buf s) (wpc s) (read_start len (buf s))"
    by (intro read_start_ok) (simp_all add: sys_ok_def)
  then show ?case using r_call by (simp add: sys_ok_def)
next
  case (r_again s len)
  then have "\<not> threadShutdown (buf s)" "0 < len" by (simp_all add: sys_ok_def reader_ok_def)
  with r_again have "reader_ok (buf s) (wpc s) (read_start len (buf s))"
    by (intro read_start_ok) (simp_all add: sys_ok_def)
  then show ?case using r_again by (simp add: sys_ok_def)
next
  case (r_spurious s len)
  then show ?case by (auto simp: sys_ok_def reader_ok_def read_must_wait_def)
next
  case (r_copy s len e)
  then have "reader_ok (buf s) (wpc s) (RCommit (read_copy (buf s) len e))"
    by (intro read_copy_ok) (simp_all add: sys_ok_def)
  then show ?case using r_copy by (simp add: sys_ok_def)
next
  case (r_commit s bs b' n)
  then have s: "base_ok (buf s)" "reader_ok (buf s) (wpc s) (RCommit bs)" "writer_ok (buf s) (wpc s)"
    "ended_ok (buf s) (wpc s)" by (auto simp: sys_ok_def)
  note f = read_commit_ok [OF s r_commit(2)]
  have "\<not> threadShutdown b'" using s(2) f(5) by (simp add: reader_ok_def)
  then show ?case using f r_commit by (auto simp: sys_ok_def reader_ok_def)
next
  case (r_close s r)
  then show ?case
    by (auto simp: sys_ok_def close_buffer_keeps intro: writer_ok_close ended_ok_close)
      (simp add: reader_ok_def close_buffer_def)
next
  case (r_join s)
  then show ?case by (auto simp: sys_ok_def reader_ok_def)
next
  case (w_start s seekOk b' w n)
  then have s: "base_ok (buf s)" "emptyFlag (buf s)" "ended_ok (buf s) WStart" "reader_ok (buf s) WStart (rpc s)"
    by (auto simp: sys_ok_def writer_ok_def)
  note f = thread_start_ok [OF s(1) w_start(2)]
  show ?case
    using f s w_start reader_ok_wake [OF s(4) f(2), of n w] by (auto simp: sys_ok_def ended_ok_def)
next
  case (w_again s r seekOk b' w n)
  then have s: "base_ok (buf s)" "ended_ok (buf s) WWoken" "reader_ok (buf s) WWoken (rpc s)"
    by (auto simp: sys_ok_def)
  then have l: "\<not> eof (buf s)" "\<not> readError (buf s)" by (auto simp: ended_ok_def)
  note f = thread_next_ok [OF s(1) w_again(2) l]
  show ?case using f w_again reader_ok_wake [OF s(3) f(2), of n w] by (auto simp: sys_ok_def)
next
  case (w_spurious s)
  then show ?case by (auto simp: sys_ok_def writer_ok_def ended_ok_def reader_ok_def
        split: reader.splits option.splits read_result.splits)
next
  case (w_read s m chunk bs)
  then have s: "base_ok (buf s)" "ring_ok (buf s)" "writer_ok (buf s) (WRead m chunk)" "ended_ok (buf s) (WRead m chunk)"
    "reader_ok (buf s) (WRead m chunk) (rpc s)" by (auto simp: sys_ok_def base_ok_def)
  then have room: "write_room (buf s) (length bs)" "0 < m" using w_read by (auto simp: writer_ok_def write_room_def)
  note f = thread_store_ring [OF s(2) room(1)]
  let ?b = "thread_store bs (buf s)"
  have "base_ok ?b" using s(1) f by (auto simp: base_ok_def) (auto simp: thread_store_def)
  moreover have "writer_ok ?b (WStored m bs)"
    using room w_read(2) f by (auto simp: writer_ok_def write_room_def) (auto simp: thread_store_def)
  moreover have "ended_ok ?b (WStored m bs)" using s(4) by (simp add: ended_ok_def thread_store_def)
  moreover have "reader_ok ?b (WStored m bs) (wake_reader False (rpc s))"
    by (rule reader_ok_wake [OF s(5) store_extends [OF s(2) room(1)]])
      (auto simp: read_must_wait_def thread_store_def)
  ultimately show ?case using f w_read by (auto simp: sys_ok_def)
next
  case (w_fail s m chunk r seekOk b' w n)
  then have s: "base_ok (buf s)" "ended_ok (buf s) (WRead m chunk)" "reader_ok (buf s) (WRead m chunk) (rpc s)"
    by (auto simp: sys_ok_def)
  then have l: "\<not> eof (buf s)" "\<not> readError (buf s)" by (auto simp: ended_ok_def)
  note f = thread_next_ok [OF s(1) w_fail(3) l]
  show ?case using f w_fail reader_ok_wake [OF s(3) f(2), of n w] by (auto simp: sys_ok_def)
next
  case (w_commit s m bs b1 n1 seekOk b' w n)
  then have s: "base_ok (buf s)" "writer_ok (buf s) (WStored m bs)" "ended_ok (buf s) (WStored m bs)"
    "reader_ok (buf s) (WStored m bs) (rpc s)" by (auto simp: sys_ok_def)
  note c = thread_commit_ok [OF s(1,2) w_commit(2)]
  have l: "\<not> eof b1" "\<not> readError b1" using s(3) c by (auto simp: ended_ok_def)
  note f = thread_next_ok [OF c(1) w_commit(3) l]
  have "extends (buf s) b'" using c(2) f(2) by (rule extends_trans)
  then have "reader_ok b' w (wake_reader (n1 \<or> n) (rpc s))"
    using c(6) f(6) by (intro reader_ok_wake [OF s(4)]) auto
  then show ?case using f c w_commit by (auto simp: sys_ok_def)
qed

lemma opened_ok:
  assumes "BufferedIOHandler size0 chunk fill0 = Inr b" "length mem = size0" "open_buffer mem b = Inr b'"
  shows "sys_ok (io_start b')"
  using assms
  by (auto simp: BufferedIOHandler_def IOHandlerBufferHelper_def open_buffer_def io_start_def sys_ok_def
      base_ok_def ring_ok_def reader_ok_def writer_ok_def ended_ok_def contents_def fill_def split: if_splits)

interpretation io: step_invariant io_init io_step sys_ok
  by unfold_locales (auto simp: io_init_def intro: opened_ok io_step_ok)

lemmas io_reachable_ok = io.reach_inv

section \<open>Schedules\<close>

text \<open>One named step, for the runs below: the environment's choices are arguments.\<close>

datatype 'b io_action =
  Call nat | Read_again | Copy | Commit_read | Close | Join | Start_thread | Thread_again |
  Fetch "'b list" | Fetch_none int | Commit_fetch

fun act :: "'b io_action \<Rightarrow> 'b system \<Rightarrow> 'b system option" where
  "act (Call len) s = (case rpc s of RReturned r \<Rightarrow>
     if 0 < len then Some (s\<lparr>rpc := read_start len (buf s)\<rparr>) else None | _ \<Rightarrow> None)"
| "act Read_again s = (case rpc s of RWoken len \<Rightarrow> Some (s\<lparr>rpc := read_start len (buf s)\<rparr>) | _ \<Rightarrow> None)"
| "act Copy s = (case rpc s of RCopy len e \<Rightarrow> Some (s\<lparr>rpc := RCommit (read_copy (buf s) len e)\<rparr>) | _ \<Rightarrow> None)"
| "act Commit_read s = (case rpc s of RCommit bs \<Rightarrow>
     (let (b', n) = read_commit (buf s) (length bs)
      in Some (s\<lparr>buf := b', rpc := RReturned (Some (Bytes bs)), wpc := wake_writer n (wpc s),
           delivered := delivered s @ bs\<rparr>)) | _ \<Rightarrow> None)"
| "act Close s = (case rpc s of RReturned r \<Rightarrow>
     Some (s\<lparr>buf := close_buffer (buf s), rpc := RClosing, wpc := wake_writer True (wpc s)\<rparr>) | _ \<Rightarrow> None)"
| "act Join s = (case (rpc s, wpc s) of (RClosing, WDone) \<Rightarrow> Some (s\<lparr>rpc := RClosed\<rparr>) | _ \<Rightarrow> None)"
| "act Start_thread s = (case wpc s of WStart \<Rightarrow>
     (let (b', w, n) = thread_start True (buf s)
      in Some (s\<lparr>buf := b', wpc := w, rpc := wake_reader n (rpc s)\<rparr>)) | _ \<Rightarrow> None)"
| "act Thread_again s = (case wpc s of WWoken \<Rightarrow>
     (let (b', w, n) = thread_next 0 0 True (buf s)
      in Some (s\<lparr>buf := b', wpc := w, rpc := wake_reader n (rpc s)\<rparr>)) | _ \<Rightarrow> None)"
| "act (Fetch bs) s = (case wpc s of WRead m chunk \<Rightarrow>
     if bs \<noteq> [] \<and> length bs \<le> chunk then Some (s\<lparr>buf := thread_store bs (buf s), wpc := WStored m bs\<rparr>) else None
     | _ \<Rightarrow> None)"
| "act (Fetch_none r) s = (case wpc s of WRead m chunk \<Rightarrow>
     if r \<le> 0 then (let (b', w, n) = thread_next r m True (buf s)
       in Some (s\<lparr>buf := b', wpc := w, rpc := wake_reader n (rpc s)\<rparr>)) else None
     | _ \<Rightarrow> None)"
| "act Commit_fetch s = (case wpc s of WStored m bs \<Rightarrow>
     (let (b1, n1) = thread_commit (length bs) (buf s); (b', w, n) = thread_next (int (length bs)) m True b1
      in Some (s\<lparr>buf := b', wpc := w, rpc := wake_reader (n1 \<or> n) (rpc s), produced := produced s @ bs\<rparr>))
     | _ \<Rightarrow> None)"

fun acts :: "'b io_action list \<Rightarrow> 'b system \<Rightarrow> 'b system option" where
  "acts [] s = Some s"
| "acts (a # as) s = (case act a s of None \<Rightarrow> None | Some t \<Rightarrow> acts as t)"

lemma act_step: "act a s = Some t \<Longrightarrow> io_step s t"
  by (cases a) (auto split: reader.splits writer.splits if_splits prod.splits intro: io_step.intros)

lemma acts_reachable: "io_reachable s \<Longrightarrow> acts as s = Some t \<Longrightarrow> io_reachable t"
  by (induction "as" arbitrary: s) (auto split: option.splits dest: act_step intro: stepped)

text \<open>A run from a buffer of the given sizes whose array is filled with \<open>x\<close>.\<close>

definition io_run :: "nat \<Rightarrow> nat \<Rightarrow> nat \<Rightarrow> 'b \<Rightarrow> 'b io_action list \<Rightarrow> 'b system option" where
  "io_run size0 chunk fill0 x as =
     (case bindE (BufferedIOHandler size0 chunk fill0) (open_buffer (replicate size0 x)) of
        Inl e \<Rightarrow> None
      | Inr b \<Rightarrow> acts as (io_start b))"

lemma io_run_reachable: "io_run size0 chunk fill0 x as = Some s \<Longrightarrow> io_reachable s"
proof -
  assume r: "io_run size0 chunk fill0 x as = Some s"
  then obtain b b' where b: "BufferedIOHandler size0 chunk fill0 = Inr b"
    "open_buffer (replicate size0 x) b = Inr b'" "acts as (io_start b') = Some s"
    by (auto simp: io_run_def bindE_Inr_iff split: sum.splits)
  then have "io_reachable (io_start b')" by (intro opened [of size0 chunk fill0 b "replicate size0 x"]) simp_all
  then show ?thesis using b(3) by (rule acts_reachable)
qed

section \<open>Properties\<close>

text \<open>
  C3: The reader gets the bytes of the handler below, all of them, once and in order: in every
  reachable state, whatever the interleaving, the bytes produced are the bytes delivered followed
  by those in the ring, of which there are at most the ring's size; and when \<open>read\<close> has
  returned the end of the stream nothing is left and the thread has finished.
\<close>

theorem io_stream_exact:
  assumes "io_reachable s"
  shows "produced s = delivered s @ contents (buf s) \<and> length (contents (buf s)) \<le> bufSize (buf s) \<and>
    (rpc s = RReturned (Some Read_end) \<longrightarrow> delivered s = produced s \<and> wpc s = WDone)"
proof -
  have ok: "sys_ok s" using assms by (rule io_reachable_ok)
  then have "ring_ok (buf s)" by (simp add: sys_ok_def base_ok_def)
  then show ?thesis using ok fill_le by (auto simp: sys_ok_def reader_ok_def empty_contents)
qed

text \<open>
  C18: No wake-up is lost: a reader that waits has a running thread beside it (not waiting for
  room, not finished), and a client that waits in \<open>close\<close> for the thread never waits for a
  thread that sleeps.
\<close>

theorem io_no_lost_wakeup:
  assumes "io_reachable s"
  shows "(rpc s = RWait len \<longrightarrow> wpc s \<noteq> WWait \<and> wpc s \<noteq> WDone) \<and> (rpc s = RClosing \<longrightarrow> wpc s \<noteq> WWait)"
proof -
  have ok: "sys_ok s" using assms by (rule io_reachable_ok)
  have "wpc s \<noteq> WWait" if "rpc s = RWait len"
  proof
    assume w: "wpc s = WWait"
    then have full: "\<not> emptyFlag (buf s)" "startIndex (buf s) = endIndex (buf s)" "ring_ok (buf s)"
      using ok by (auto simp: sys_ok_def writer_ok_def base_ok_def)
    then have "fill (buf s) = bufSize (buf s)" by (intro full_fill) (auto simp: ring_ok_def)
    then show False
      using ok that full by (auto simp: sys_ok_def base_ok_def reader_ok_def read_must_wait_def)
  qed
  moreover have "wpc s \<noteq> WDone" if "rpc s = RWait len"
    using ok that by (auto simp: sys_ok_def reader_ok_def ended_ok_def read_must_wait_def)
  ultimately show ?thesis using ok by (auto simp: sys_ok_def reader_ok_def writer_ok_def)
qed

text \<open>
  C35: While the thread reads from the handler below without the lock, the bytes it was told it may
  write lie inside the array and none of them is a byte the reader has still to copy.
\<close>

theorem io_write_in_bounds:
  assumes "io_reachable s" and "wpc s = WRead m chunk"
  shows "0 < chunk \<and> endIndex (buf s) + chunk \<le> length (buffer (buf s)) \<and>
    (length bs \<le> chunk \<longrightarrow> contents (thread_store bs (buf s)) = contents (buf s))"
proof -
  have "sys_ok s" using assms(1) by (rule io_reachable_ok)
  then have "ring_ok (buf s)" "write_room (buf s) chunk" "0 < chunk"
    using assms(2) by (auto simp: sys_ok_def base_ok_def writer_ok_def)
  then show ?thesis using thread_store_ring(2) [of "buf s" bs] by (auto simp: write_room_def ring_ok_def)
qed

lemmas io_defs = io_run_def BufferedIOHandler_def IOHandlerBufferHelper_def open_buffer_def io_start_def
  read_start_def read_must_wait_def thread_start_def thread_top_def thread_seek_def buffer_seek_def in_buffer_seek_def
  max_write_def chunk_size_def thread_store_def thread_commit_def thread_next_def thread_end_def read_copy_def
  read_commit_def fill_span_def Let_def close_buffer_def

lemma io_stream_exact_witness:
  "\<exists>s. io_reachable s \<and> delivered s = [1, 2::nat] \<and> rpc s = RReturned (Some Read_end) \<and>
     delivered s = produced s"
proof -
  have "\<exists>s. io_run 4 3 2 (0::nat) [Call 3, Start_thread, Fetch [1, 2::nat], Commit_fetch, Read_again, Copy,
      Commit_read, Fetch_none 0, Call 1] = Some s \<and> delivered s = [1, 2] \<and> rpc s = RReturned (Some Read_end)"
    by (rule exI, rule conjI, simp add: io_defs, simp)
  then obtain s :: "nat system" where s: "io_reachable s" "delivered s = [1, 2]" "rpc s = RReturned (Some Read_end)"
    by (blast intro: io_run_reachable)
  then have "delivered s = produced s" using io_stream_exact [OF s(1)] by blast
  then show ?thesis using s by blast
qed

lemma io_no_lost_wakeup_witness:
  "\<exists>s. io_reachable s \<and> rpc s = RWait 3 \<and> produced s = [1::nat] \<and> wpc s \<noteq> WWait \<and> wpc s \<noteq> WDone"
proof -
  have "\<exists>s. io_run 4 3 2 (0::nat) [Call 3, Start_thread, Fetch [1::nat], Commit_fetch, Read_again] = Some s \<and>
      rpc s = RWait 3 \<and> produced s = [1]"
    by (rule exI, rule conjI, simp add: io_defs, simp)
  then obtain s :: "nat system" where s: "io_reachable s" "rpc s = RWait 3" "produced s = [1]" by (blast intro: io_run_reachable)
  then show ?thesis using io_no_lost_wakeup [OF s(1), of 3] by auto
qed

lemma io_write_in_bounds_witness:
  "\<exists>s. io_reachable s \<and> wpc s = WRead 2 2 \<and> contents (buf s) = [2::nat] \<and>
     contents (thread_store [7, 8] (buf s)) = [2]"
proof -
  have "\<exists>s. io_run 4 3 2 (0::nat) [Call 1, Start_thread, Fetch [1, 2::nat], Commit_fetch, Read_again, Copy,
      Commit_read] = Some s \<and> wpc s = WRead 2 2 \<and> contents (buf s) = [2]"
    by (rule exI, rule conjI, simp add: io_defs, simp add: contents_def fill_def fill_span_def ring_slice_def)
  then obtain s :: "nat system" where s: "io_reachable s" "wpc s = WRead 2 2" "contents (buf s) = [2]"
    by (blast intro: io_run_reachable)
  then show ?thesis using io_write_in_bounds [OF s(1,2), of "[7, 8]"] by auto
qed

end
