(* ===== verification/IO_Seek.thy ===== *)
theory IO_Seek
  imports IO_Threads
begin

text \<open>
  Seeking in the ring buffer: \<open>IOHandlerBufferHelper::seek\<close> and the code that carries a
  pending seek out inside the buffered bytes, which \<open>BufferedIOHandler::threadProc\<close> and
  \<open>CurlIOHandler::curlCallback\<close> share word for word.
\<close>

lemma in_buffer_seek_ne: "in_buffer_seek b \<Longrightarrow> \<not> emptyFlag b"
  by (simp add: in_buffer_seek_def)

text \<open>A forward distance inside the buffer moves the start; the array is smaller than \<open>2^31\<close>.\<close>

lemma buffer_seek_forward_eq:
  assumes "ring_ok b" "in_buffer_seek b" "0 \<le> rel_seek b" "rel_seek b \<le> int (fill b)" "bufSize b < 2 ^ 31"
  defines "s \<equiv> (startIndex b + nat (rel_seek b)) mod bufSize b"
  shows "fst (buffer_seek b) =
    (let b1 = b\<lparr>startIndex := s, posRead := posRead b + rel_seek b, doSeek := False\<rparr>
     in if s = endIndex b then b1\<lparr>emptyFlag := True, startIndex := 0, endIndex := 0\<rparr> else b1)"
proof -
  let ?n = "bufSize b" and ?d = "nat (rel_seek b)"
  have ok: "startIndex b < ?n" "?d \<le> fill b" "fill b = fill_span ?n (startIndex b) (endIndex b)"
    using assms by (auto simp: ring_ok_def in_buffer_seek_def fill_def)
  have le: "fill b \<le> ?n" using fill_le [OF assms(1)] .
  have w: "wrap64 (int (startIndex b) + rel_seek b) = startIndex b + ?d"
    using assms(3,5) ok le by (simp add: wrap64_def nat_add_distrib)
  have "(if startIndex b + ?d \<ge> ?n then startIndex b + ?d - ?n else startIndex b + ?d) = s"
    unfolding s_def using ok le by (auto simp: mod_if)
  then show ?thesis
    unfolding buffer_seek_def using assms(2,4) ok(3) by (simp only: w Let_def) simp
qed

text \<open>
  A forward seek that ends inside the buffered bytes skips exactly the bytes in between: the
  reader goes on with the rest of the buffer and the position is the one asked for.
\<close>

theorem seek_forward_exact:
  assumes "ring_ok b" "in_buffer_seek b" "0 < rel_seek b" "rel_seek b \<le> int (fill b)" "bufSize b < 2 ^ 31"
  shows "contents (fst (buffer_seek b)) = drop (nat (rel_seek b)) (contents b) \<and>
    ring_ok (fst (buffer_seek b)) \<and>
    posRead (fst (buffer_seek b)) = posRead b + rel_seek b \<and> \<not> doSeek (fst (buffer_seek b))"
proof -
  let ?n = "bufSize b" and ?d = "nat (rel_seek b)" and ?c = "fst (buffer_seek b)"
  let ?r = "fst (read_commit b ?d)"
  have d: "0 < ?d" "?d \<le> fill b" "\<not> emptyFlag b" using assms in_buffer_seek_ne by auto
  note r = read_commit_ring [OF assms(1) d(3,1,2)]
  have sz: "startIndex b < ?n" "?d \<le> ?n" using assms(1) d fill_le [OF assms(1)] by (auto simp: ring_ok_def)
  then have "startIndex ?r = (startIndex b + ?d) mod ?n" by (auto simp: read_commit_def Let_def mod_if)
  then have c: "?c = (let b1 = b\<lparr>startIndex := startIndex ?r, posRead := posRead b + rel_seek b, doSeek := False\<rparr>
      in if startIndex ?r = endIndex b then b1\<lparr>emptyFlag := True, startIndex := 0, endIndex := 0\<rparr> else b1)"
    using buffer_seek_forward_eq [of b] assms by simp
  have k: "emptyFlag ?r = (startIndex ?r = endIndex b)" "bufSize ?r = ?n" "buffer ?r = buffer b" "endIndex ?r = endIndex b"
    using d(3) by (simp_all add: read_commit_def Let_def)
  have "contents ?c = contents ?r" using k d(3) by (simp add: c Let_def contents_def fill_def)
  moreover have "ring_ok ?c" using r(1) assms(1) k d(3) by (auto simp: c Let_def ring_ok_def)
  moreover have "posRead ?c = posRead b + rel_seek b" "\<not> doSeek ?c" by (simp_all add: c Let_def)
  ultimately show ?thesis using r(2) by simp
qed

text \<open>
  Defect. A backward seek (an absolute position before the buffered bytes) is taken as one
  inside the buffer, because a negative distance is below the fill: the unsigned start index
  wraps around and lies outside the array, from where the next read copies.
\<close>

theorem seek_backward_out_of_bounds:
  assumes "ring_ok b" "in_buffer_seek b" "rel_seek b < - int (startIndex b)" "- (2 ^ 31) \<le> rel_seek b" "bufSize b < 2 ^ 31"
  shows "bufSize (fst (buffer_seek b)) < startIndex (fst (buffer_seek b))"
proof -
  let ?i = "int (startIndex b) + rel_seek b"
  have ok: "endIndex b < bufSize b" using assms(1) by (simp add: ring_ok_def)
  have "?i mod 2 ^ 64 = (?i + 2 ^ 64) mod 2 ^ 64" by simp
  also have "\<dots> = ?i + 2 ^ 64" using assms(3,4) by (intro mod_pos_pos_trivial) auto
  finally have w: "int (wrap64 ?i) = ?i + 2 ^ 64" using assms(3,4) by (simp add: wrap64_def)
  then have "int (wrap64 ?i) \<ge> 2 ^ 63" using assms(4) by simp
  then have big: "wrap64 ?i \<ge> 2 ^ 63" by simp
  then have s: "wrap64 ?i - bufSize b > bufSize b" "wrap64 ?i \<ge> bufSize b" using assms(5) by auto
  have "rel_seek b \<le> int (fill_span (bufSize b) (startIndex b) (endIndex b))" using assms(3) by simp
  then show ?thesis using s ok assms(2) by (simp add: buffer_seek_def Let_def)
qed

text \<open>
  Defect. A seek to the current position while the ring is full empties it: equal indices are
  taken for an empty buffer, so every buffered byte is lost although the position stays.
\<close>

theorem seek_nowhere_loses_full_buffer:
  assumes "ring_ok b" "in_buffer_seek b" "rel_seek b = 0" "startIndex b = endIndex b" "bufSize b < 2 ^ 31"
  shows "length (contents b) = bufSize b \<and> contents (fst (buffer_seek b)) = [] \<and>
    posRead (fst (buffer_seek b)) = posRead b"
proof -
  have f: "fill b = bufSize b" using assms in_buffer_seek_ne by (intro full_fill) (auto simp: ring_ok_def)
  have "startIndex b < bufSize b" using assms(1) by (simp add: ring_ok_def)
  then have "fst (buffer_seek b) = b\<lparr>startIndex := 0, posRead := posRead b, doSeek := False,
      emptyFlag := True, endIndex := 0\<rparr>"
    using buffer_seek_forward_eq [of b] assms by (simp add: Let_def)
  then show ?thesis using f by (simp add: empty_contents)
qed

text \<open>A ring of four bytes with a pending seek, for the concrete runs.\<close>

definition seeking :: "nat \<Rightarrow> nat \<Rightarrow> int \<Rightarrow> int \<Rightarrow> nat iobuf" where
  "seeking s e pos off =
     \<lparr>bufSize = 4, initialFillSize = 0, maxChunkSize = 2, buffer = [7, 8, 9, 10], isOpen = True, eof = False,
      readError = False, waitForInitialFillSize = False, signalAfterEveryRead = False, isFresh = False,
      emptyFlag = False, startIndex = s, endIndex = e, posRead = pos, seekEnabled = True, doSeek = True,
      seekOffset = off, seekWhence = SEEK_SET, threadShutdown = False\<rparr>"

lemmas seeking_defs = seeking_def ring_ok_def in_buffer_seek_def rel_seek_def fill_def fill_span_def contents_def
  ring_slice_def buffer_seek_def wrap64_def Let_def

lemma seek_forward_exact_witness:
  "contents (seeking 2 1 10 12) = [9, 10, 7] \<and> contents (fst (buffer_seek (seeking 2 1 10 12))) = [7]"
proof -
  have "contents (seeking 2 1 10 12) = [9, 10, 7]" "rel_seek (seeking 2 1 10 12) = 2"
    by (simp_all add: seeking_defs upt_rec)
  moreover have "contents (fst (buffer_seek (seeking 2 1 10 12)))
      = drop (nat (rel_seek (seeking 2 1 10 12))) (contents (seeking 2 1 10 12))"
    by (rule seek_forward_exact [THEN conjunct1]) (simp_all add: seeking_defs)
  ultimately show ?thesis by simp
qed

lemma seek_backward_out_of_bounds_witness:
  "4 < startIndex (fst (buffer_seek (seeking 1 3 10 8)))"
proof -
  have "bufSize (fst (buffer_seek (seeking 1 3 10 8))) < startIndex (fst (buffer_seek (seeking 1 3 10 8)))"
    by (rule seek_backward_out_of_bounds) (simp_all add: seeking_defs)
  then show ?thesis by (simp add: buffer_seek_def seeking_def Let_def split: if_splits)
qed

lemma seek_nowhere_loses_full_buffer_witness:
  "length (contents (seeking 1 1 10 10)) = 4 \<and> contents (fst (buffer_seek (seeking 1 1 10 10))) = []"
  using seek_nowhere_loses_full_buffer [of "seeking 1 1 10 10"] by (simp add: seeking_defs)

section \<open>The reader's side\<close>

lemma isFresh_keeps:
  "isFresh (fst (read_commit b n)) = isFresh b" "isFresh (thread_store bs b) = isFresh b"
  "isFresh (fst (thread_commit n b)) = isFresh b" "isFresh (close_buffer b) = isFresh b"
  "isFresh (thread_end r b) = isFresh b" "isFresh (fst (thread_start so b)) = isFresh b"
  by (simp_all add: read_commit_def thread_store_def thread_commit_def close_buffer_def thread_end_def
      thread_start_def thread_top_def thread_seek_def buffer_seek_def Let_def split: prod.splits if_splits)

lemma isFresh_next: "isFresh (fst (thread_next r m so b)) = isFresh b"
  by (auto simp: thread_next_def isFresh_keeps)

lemma io_step_fresh: "io_step s t \<Longrightarrow> isFresh (buf s) \<Longrightarrow> isFresh (buf t)"
proof (induction rule: io_step.induct)
  case (r_commit s bs b' n)
  then show ?case using isFresh_keeps(1) [of "buf s" "length bs"] by simp
next
  case (w_start s so b' w n)
  then show ?case using isFresh_keeps(6) [of so "buf s"] by simp
next
  case (w_again s r so b' w n)
  then show ?case using isFresh_next [of r 0 so "buf s"] by simp
next
  case (w_fail s m chunk r so b' w n)
  then show ?case using isFresh_next [of r m so "buf s"] by simp
next
  case (w_commit s m bs b1 n1 so b' w n)
  then show ?case using isFresh_keeps(3) [of "length bs" "buf s"] isFresh_next [of "int (length bs)" m so b1] by simp
qed (simp_all add: isFresh_keeps)

interpretation fresh: step_invariant io_init io_step "\<lambda>s. isFresh (buf s)"
  by unfold_locales (auto simp: io_init_def open_buffer_def io_start_def intro: io_step_fresh split: if_splits)

lemmas io_reachable_fresh = fresh.reach_inv

text \<open>
  Defect. Rewinding is ignored: reading never ends the state of a freshly opened buffer, so
  after any number of reads a seek to the start returns at once and leaves the position where it
  was.
\<close>

theorem rewind_ignored:
  assumes "io_reachable s"
  shows "seek_request (buf s) 0 SEEK_SET = Inr (buf s, False)"
  using io_reachable_fresh [OF assms] by (simp add: seek_request_def)

lemma rewind_ignored_witness:
  "\<exists>s :: nat system. io_reachable s \<and> posRead (buf s) = 2 \<and> seek_request (buf s) 0 SEEK_SET = Inr (buf s, False)"
proof -
  have "\<exists>s. io_run 4 3 2 (0::nat) [Call 3, Start_thread, Fetch [1, 2], Commit_fetch, Read_again, Copy,
      Commit_read] = Some s \<and> posRead (buf s) = 2"
    by (rule exI, rule conjI, simp add: io_defs, simp)
  then obtain s :: "nat system" where s: "io_reachable s" "posRead (buf s) = 2" by (blast intro: io_run_reachable)
  then show ?thesis using rewind_ignored [OF s(1)] by blast
qed

end
