(* ===== verification/IO_Curl.thy ===== *)
theory IO_Curl
  imports IO_Seek
begin

text \<open>
  The second writer of the ring buffer, \<open>CurlIOHandler\<close>
  (\<open>src/src/iohandler/curl_io_handler.cc\<close>): libcurl calls \<open>curlCallback\<close> with bytes that must
  be taken whole, so the callback waits for room and stores them in one or two pieces. Beside it
  the contract every writer of the ring keeps (\<open>byte_ring\<close>), interpreted on both writers.
\<close>

section \<open>Reading what a writer stored\<close>

text \<open>\<open>read\<close> without interruption, when it need not wait.\<close>

definition ring_take :: "nat \<Rightarrow> 'b iobuf \<Rightarrow> 'b list \<times> 'b iobuf" where
  "ring_take len b =
     (let bs = read_copy b len (endIndex b) in (bs, fst (read_commit b (length bs))))"

datatype 'b ring_op = Put "'b list" | Take nat

locale byte_ring =
  fixes room :: "'b iobuf \<Rightarrow> nat" and put :: "'b list \<Rightarrow> 'b iobuf \<Rightarrow> 'b iobuf"
  assumes put_ok: "ring_ok b \<Longrightarrow> bs \<noteq> [] \<Longrightarrow> length bs \<le> room b \<Longrightarrow> ring_ok (put bs b)"
    and put_contents: "ring_ok b \<Longrightarrow> bs \<noteq> [] \<Longrightarrow> length bs \<le> room b \<Longrightarrow> contents (put bs b) = contents b @ bs"

lemma ring_take_ok:
  assumes "ring_ok b" "\<not> emptyFlag b" "0 < len"
  shows "ring_ok (snd (ring_take len b))"
    and "fst (ring_take len b) @ contents (snd (ring_take len b)) = contents b"
    and "fst (ring_take len b) \<noteq> []"
proof -
  let ?bs = "read_copy b len (endIndex b)"
  have e: "endIndex b < bufSize b" "startIndex b < bufSize b" using assms(1) by (auto simp: ring_ok_def)
  have f: "fill_span (bufSize b) (startIndex b) (endIndex b) = fill b" using assms(2) by (simp add: fill_def)
  have pos: "0 < fill b" using fill_span_bounds [OF e(2,1)] f by simp
  have c: "?bs = take (min len (fill b)) (contents b)"
    unfolding contents_def using read_copy_eq [OF assms(1) e(1), of len] f by (simp add: ring_slice_take)
  then have l: "0 < length ?bs" "length ?bs \<le> fill b" using pos assms(3) by auto
  note r = read_commit_ring [OF assms(1,2) l]
  show "ring_ok (snd (ring_take len b))" using r(1) by (simp add: ring_take_def Let_def)
  show "fst (ring_take len b) \<noteq> []" using l by (simp add: ring_take_def Let_def)
  have "?bs @ drop (length ?bs) (contents b) = contents b" by (subst c, subst c) simp
  then show "fst (ring_take len b) @ contents (snd (ring_take len b)) = contents b"
    using r(2) by (simp add: ring_take_def Let_def)
qed

text \<open>A client's sequence of calls: a put without room and a take from an empty ring do nothing.\<close>

fun run_ops :: "('b iobuf \<Rightarrow> nat) \<Rightarrow> ('b list \<Rightarrow> 'b iobuf \<Rightarrow> 'b iobuf) \<Rightarrow> 'b ring_op list \<Rightarrow> 'b iobuf
    \<Rightarrow> 'b list \<times> 'b list \<times> 'b iobuf" where
  "run_ops room put [] b = ([], [], b)"
| "run_ops room put (Put bs # ops) b =
     (if bs \<noteq> [] \<and> length bs \<le> room b
      then let (i, u, b') = run_ops room put ops (put bs b) in (bs @ i, u, b') else run_ops room put ops b)"
| "run_ops room put (Take n # ops) b =
     (if 0 < n \<and> \<not> emptyFlag b
      then let (i, u, b') = run_ops room put ops (snd (ring_take n b)) in (i, fst (ring_take n b) @ u, b')
      else run_ops room put ops b)"

context byte_ring
begin

lemma run_ops_fifo:
  "ring_ok b \<Longrightarrow> run_ops room put ops b = (i, u, b') \<Longrightarrow> ring_ok b' \<and> contents b @ i = u @ contents b'"
proof (induction ops arbitrary: b i u)
  case (Cons op ops)
  show ?case
  proof (cases op)
    case (Put bs)
    show ?thesis
    proof (cases "bs \<noteq> [] \<and> length bs \<le> room b")
      case True
      then obtain i' where r: "run_ops room put ops (put bs b) = (i', u, b')" "i = bs @ i'"
        using Cons(3) Put by (auto split: prod.splits)
      have "ring_ok (put bs b)" "contents (put bs b) = contents b @ bs"
        using True put_ok [OF Cons(2)] put_contents [OF Cons(2)] by auto
      then show ?thesis using Cons(1) [OF _ r(1)] r(2) by simp
    qed (use Cons Put in auto)
  next
    case (Take n)
    show ?thesis
    proof (cases "0 < n \<and> \<not> emptyFlag b")
      case True
      then obtain u' where r: "run_ops room put ops (snd (ring_take n b)) = (i, u', b')" "u = fst (ring_take n b) @ u'"
        using Cons(3) Take by (auto split: prod.splits)
      note t = ring_take_ok [OF Cons(2), of n]
      from Cons(1) [OF _ r(1)] True t(1) have "ring_ok b' \<and> contents (snd (ring_take n b)) @ i = u' @ contents b'"
        by auto
      then show ?thesis using True t(2) r(2) by (metis append.assoc)
    qed (use Cons Take in auto)
  qed
qed auto

end

section \<open>The thread of \<open>BufferedIOHandler\<close>\<close>

definition rewind_empty :: "'b iobuf \<Rightarrow> 'b iobuf" where
  "rewind_empty b = (if emptyFlag b then b\<lparr>startIndex := 0, endIndex := 0\<rparr> else b)"

definition thread_put :: "'b list \<Rightarrow> 'b iobuf \<Rightarrow> 'b iobuf" where
  "thread_put bs b = fst (thread_commit (length bs) (thread_store bs (rewind_empty b)))"

definition thread_room :: "'b iobuf \<Rightarrow> nat" where
  "thread_room b = max_write (rewind_empty b)"

lemma rewind_empty_ring:
  "ring_ok b \<Longrightarrow> ring_ok (rewind_empty b)" "contents (rewind_empty b) = contents b"
  "fill (rewind_empty b) = fill b" "emptyFlag (rewind_empty b) \<longrightarrow> startIndex (rewind_empty b) = 0"
  by (auto simp: rewind_empty_def ring_ok_def contents_def fill_def)

lemma thread_put_ring:
  assumes "ring_ok b" "bs \<noteq> []" "length bs \<le> thread_room b"
  shows "ring_ok (thread_put bs b)" and "contents (thread_put bs b) = contents b @ bs"
proof -
  let ?r = "rewind_empty b" and ?s = "thread_store bs (rewind_empty b)"
  have r: "ring_ok ?r" "write_room ?r (length bs)"
    using assms rewind_empty_ring [of b] max_write_room [of ?r] by (auto simp: thread_room_def)
  note s = thread_store_ring [OF r]
  have room: "write_room ?s (length bs)" "0 < length bs"
    using r(2) s(3) assms(2) by (auto simp: write_room_def) (auto simp: thread_store_def)
  note c = thread_commit_ring [OF s(1) room]
  show "ring_ok (thread_put bs b)" using c(1) by (simp add: thread_put_def)
  have "endIndex ?s = endIndex ?r" by (simp add: thread_store_def)
  then show "contents (thread_put bs b) = contents b @ bs"
    using c(2) s(2,4) rewind_empty_ring(2) [of b] by (simp add: thread_put_def)
qed

interpretation chunk_ring: byte_ring thread_room thread_put
  by unfold_locales (rule thread_put_ring; assumption)+

section \<open>\<open>curlCallback\<close>\<close>

datatype curl_error = No_url | Buffer_too_small | Helper io_error

text \<open>The constructor; \<open>curlMaxWrite\<close> is libcurl's \<open>CURL_MAX_WRITE_SIZE\<close>.\<close>

definition CurlIOHandler :: "nat \<Rightarrow> string \<Rightarrow> nat \<Rightarrow> nat \<Rightarrow> curl_error + 'b iobuf" where
  "CurlIOHandler curlMaxWrite url size0 fill0 =
     (case IOHandlerBufferHelper size0 fill0 of
        Inl e \<Rightarrow> Inl (Helper e)
      | Inr b \<Rightarrow> if url = [] then Inl No_url
               else if size0 < curlMaxWrite then Inl Buffer_too_small
               else Inr (b\<lparr>signalAfterEveryRead := True, seekEnabled := True\<rparr>))"

text \<open>
  The thread between two requests: the position libcurl is told to resume from, \<open>None\<close> when it is
  told nothing, and the state after a pending seek.
\<close>

definition curl_seek :: "'b iobuf \<Rightarrow> 'b iobuf \<times> int option" where
  "curl_seek b =
     (if doSeek b then
        (let (pos, resume) =
           (case seekWhence b of
              SEEK_SET \<Rightarrow> (seekOffset b, Some (seekOffset b))
            | SEEK_CUR \<Rightarrow> (posRead b + seekOffset b, Some (posRead b + seekOffset b))
            | SEEK_END \<Rightarrow> (posRead b, None))
         in (b\<lparr>posRead := pos, waitForInitialFillSize := (initialFillSize b > 0), doSeek := False\<rparr>, resume))
      else (b, None))"

text \<open>The end of the thread: libcurl's result decides between the end of the stream and an error.\<close>

definition curl_end :: "bool \<Rightarrow> 'b iobuf \<Rightarrow> 'b iobuf" where
  "curl_end curlOk b = (if curlOk then b\<lparr>eof := True\<rparr> else b\<lparr>readError := True\<rparr>)"

definition curl_free :: "'b iobuf \<Rightarrow> nat" where
  "curl_free b =
     (if emptyFlag b then bufSize b
      else if endIndex b \<le> startIndex b then startIndex b - endIndex b
      else startIndex b + bufSize b - endIndex b)"

datatype 'b callback = Abort "'b iobuf" | Wait "'b iobuf" | Store "'b iobuf"

text \<open>
  One round of the loop: a pending seek first, then (not in the first round) the wait, and after it
  the test for room; a round that waited starts again at \<open>callback_room\<close>.
\<close>

definition callback_room :: "nat \<Rightarrow> 'b iobuf \<Rightarrow> 'b callback" where
  "callback_room wantWrite b =
     (if threadShutdown b then Abort b
      else let b1 = rewind_empty b
           in if curl_free b1 < wantWrite then Wait b1 else Store b1)"

definition callback_seek :: "'b iobuf \<Rightarrow> 'b callback" where
  "callback_seek b =
     (let b1 = fst (buffer_seek b)
      in if doSeek b1 then Abort (b1\<lparr>startIndex := 0, endIndex := 0, emptyFlag := True\<rparr>) else Wait b1)"

definition callback_first :: "nat \<Rightarrow> 'b iobuf \<Rightarrow> 'b callback" where
  "callback_first wantWrite b =
     (case callback_seek b of Wait b1 \<Rightarrow> callback_room wantWrite b1 | r \<Rightarrow> r)"

definition callback_store :: "'b list \<Rightarrow> 'b iobuf \<Rightarrow> 'b iobuf" where
  "callback_store bs b =
     (let maxWrite = max_write b;
          write1 = (if length bs > maxWrite then maxWrite else length bs);
          write2 = (if write1 < length bs then length bs - write1 else 0);
          mem1 = take (endIndex b) (buffer b) @ take write1 bs @ drop (endIndex b + write1) (buffer b);
          mem2 = take write2 (drop maxWrite bs) @ drop write2 mem1
      in b\<lparr>buffer := if write2 > 0 then mem2 else mem1\<rparr>)"

definition callback_commit :: "nat \<Rightarrow> 'b iobuf \<Rightarrow> 'b iobuf \<times> bool" where
  "callback_commit wantWrite b =
     (let e1 = endIndex b + wantWrite;
          e2 = (if e1 \<ge> bufSize b then e1 - bufSize b else e1);
          filled = (waitForInitialFillSize b \<and> fill_span (bufSize b) (startIndex b) e2 \<ge> initialFillSize b)
      in (b\<lparr>endIndex := e2, emptyFlag := False,
            waitForInitialFillSize := waitForInitialFillSize b \<and> \<not> filled\<rparr>, emptyFlag b \<or> filled))"

definition curl_put :: "'b list \<Rightarrow> 'b iobuf \<Rightarrow> 'b iobuf" where
  "curl_put bs b = fst (callback_commit (length bs) (callback_store bs (rewind_empty b)))"

definition curl_room :: "'b iobuf \<Rightarrow> nat" where
  "curl_room b = curl_free (rewind_empty b)"

lemma curl_free_fill: "ring_ok b \<Longrightarrow> curl_free b + fill b = bufSize b"
  by (auto simp: curl_free_def fill_def fill_span_def ring_ok_def)

text \<open>Only the array, its size, the two indices and the empty flag matter for the contents.\<close>

definition same_ring :: "'b iobuf \<Rightarrow> 'b iobuf \<Rightarrow> bool" where
  "same_ring b c =
     (buffer b = buffer c \<and> bufSize b = bufSize c \<and> startIndex b = startIndex c \<and> endIndex b = endIndex c \<and>
      emptyFlag b = emptyFlag c)"

lemma same_ringD: "same_ring b c \<Longrightarrow> ring_ok b = ring_ok c" "same_ring b c \<Longrightarrow> contents b = contents c"
  by (simp_all add: same_ring_def ring_ok_def contents_def fill_def)

text \<open>A block that fits in one piece is stored as the other thread stores it.\<close>

lemma curl_put_one:
  assumes "ring_ok b" "length bs \<le> max_write (rewind_empty b)"
  shows "same_ring (curl_put bs b) (thread_put bs b)"
proof -
  let ?r = "rewind_empty b"
  have "ring_ok ?r" "write_room ?r (length bs)"
    using assms rewind_empty_ring [of b] max_write_room [of ?r] by auto
  then have e: "endIndex ?r + length bs \<le> bufSize ?r" by (simp add: write_room_def)
  have st: "callback_store bs ?r = thread_store bs ?r"
    using assms(2) by (simp add: callback_store_def thread_store_def Let_def)
  have "endIndex (thread_store bs ?r) + length bs \<le> bufSize (thread_store bs ?r)"
    using e by (simp add: thread_store_def)
  then show ?thesis
    unfolding curl_put_def thread_put_def st same_ring_def
    by (auto simp: callback_commit_def thread_commit_def Let_def)
qed

text \<open>A longer block is stored as two blocks, the second from the start of the array.\<close>

lemma curl_put_two:
  assumes ok: "ring_ok b" and long: "max_write (rewind_empty b) < length bs" and room: "length bs \<le> curl_room b"
  defines "m \<equiv> max_write (rewind_empty b)"
  shows "same_ring (curl_put bs b) (thread_put (drop m bs) (thread_put (take m bs) b))"
    and "0 < m" and "length bs - m \<le> thread_room (thread_put (take m bs) b)"
proof -
  have wrap: "\<not> emptyFlag b \<and> startIndex b < endIndex b"
    using long room ok by (auto simp: curl_room_def rewind_empty_def curl_free_def max_write_def ring_ok_def split: if_splits)
  then have r: "rewind_empty b = b" by (simp add: rewind_empty_def)
  have sz: "endIndex b < bufSize b" "length (buffer b) = bufSize b" "m = bufSize b - endIndex b"
    using ok wrap by (auto simp: ring_ok_def m_def r max_write_def)
  then show "0 < m" by simp
  have lm: "min (length bs) m = m" "length (take m bs) = m" using long by (simp_all add: m_def min_absorb2)
  have rest: "length bs - m \<le> startIndex b" "m < length bs"
    using room wrap sz long by (auto simp: curl_room_def r curl_free_def m_def)
  let ?c = "thread_put (take m bs) b"
  have mem1: "take (endIndex b) (buffer b) @ take m bs @ drop (endIndex b + m) (buffer b)
      = take (endIndex b) (buffer b) @ take m bs" using sz by simp
  have c: "buffer ?c = take (endIndex b) (buffer b) @ take m bs" "endIndex ?c = 0" "startIndex ?c = startIndex b"
    "bufSize ?c = bufSize b" "\<not> emptyFlag ?c"
    using sz lm by (simp_all add: thread_put_def r thread_commit_def thread_store_def Let_def)
  then have rc: "rewind_empty ?c = ?c" by (simp add: rewind_empty_def)
  show "length bs - m \<le> thread_room ?c"
    using rest c by (simp add: thread_room_def rc max_write_def)
  have d: "buffer (thread_put (drop m bs) ?c) = drop m bs @ drop (length bs - m) (buffer ?c)"
    "endIndex (thread_put (drop m bs) ?c) = length bs - m" "startIndex (thread_put (drop m bs) ?c) = startIndex b"
    "bufSize (thread_put (drop m bs) ?c) = bufSize b" "\<not> emptyFlag (thread_put (drop m bs) ?c)"
    using c(2-5) rest wrap sz(1)
    by (auto simp: thread_put_def [of "drop m bs"] rc thread_commit_def thread_store_def Let_def)
  have mw: "max_write b = m" using r by (simp add: m_def)
  have st: "buffer (callback_store bs b) = drop m bs @ drop (length bs - m) (buffer ?c)"
    using rest lm mem1 c(1) by (simp add: callback_store_def Let_def mw)
  have k: "endIndex (callback_store bs b) = endIndex b" "startIndex (callback_store bs b) = startIndex b"
    "bufSize (callback_store bs b) = bufSize b"
    by (simp_all add: callback_store_def Let_def)
  have "endIndex b + length bs - bufSize b = length bs - m" "bufSize b \<le> endIndex b + length bs"
    using rest sz by auto
  then have "endIndex (curl_put bs b) = length bs - m"
    by (simp add: curl_put_def r callback_commit_def Let_def k)
  moreover have "buffer (curl_put bs b) = drop m bs @ drop (length bs - m) (buffer ?c)"
    "startIndex (curl_put bs b) = startIndex b" "bufSize (curl_put bs b) = bufSize b" "\<not> emptyFlag (curl_put bs b)"
    using st k by (simp_all add: curl_put_def r callback_commit_def Let_def)
  ultimately show "same_ring (curl_put bs b) (thread_put (drop m bs) ?c)"
    using d by (simp add: same_ring_def)
qed

lemma curl_put_ring:
  assumes "ring_ok b" "bs \<noteq> []" "length bs \<le> curl_room b"
  shows "ring_ok (curl_put bs b)" and "contents (curl_put bs b) = contents b @ bs"
proof -
  let ?m = "max_write (rewind_empty b)"
  have "ring_ok (curl_put bs b) \<and> contents (curl_put bs b) = contents b @ bs"
  proof (cases "length bs \<le> ?m")
    case True
    then show ?thesis
      using curl_put_one [OF assms(1) True] thread_put_ring [OF assms(1,2)]
      by (simp add: same_ringD thread_room_def)
  next
    case False
    then have long: "?m < length bs" by simp
    note two = curl_put_two [OF assms(1) long assms(3)]
    have one: "ring_ok (thread_put (take ?m bs) b)" "contents (thread_put (take ?m bs) b) = contents b @ take ?m bs"
      using thread_put_ring [OF assms(1), of "take ?m bs"] two(2) long assms(2) by (auto simp: thread_room_def)
    have "ring_ok (thread_put (drop ?m bs) (thread_put (take ?m bs) b))"
      "contents (thread_put (drop ?m bs) (thread_put (take ?m bs) b)) = contents b @ bs"
      using thread_put_ring [OF one(1), of "drop ?m bs"] one(2) two(3) long by auto
    then show ?thesis using two(1) by (simp add: same_ringD)
  qed
  then show "ring_ok (curl_put bs b)" "contents (curl_put bs b) = contents b @ bs" by simp_all
qed

interpretation curl_ring: byte_ring curl_room curl_put
  by unfold_locales (rule curl_put_ring; assumption)+

section \<open>Properties\<close>

text \<open>
  C19: \<open>CurlIOHandler\<close> keeps the stream intact: for every sequence of blocks taken from libcurl
  (stored in one or two pieces) and of reads, what was buffered followed by what was stored is
  what was read followed by what is still buffered.
\<close>

theorem curl_stream_fifo:
  assumes "ring_ok b" and "run_ops curl_room curl_put ops b = (stored, taken, b')"
  shows "contents b @ stored = taken @ contents b'"
  using curl_ring.run_ops_fifo [OF assms] by (rule conjunct2)

text \<open>
  The callback never stores over unread bytes: it goes on only when the whole block fits, and a
  block that fits is never turned away; a handler that shuts down aborts the transfer.
\<close>

theorem callback_waits_for_room:
  assumes "ring_ok b" and "\<not> doSeek b"
  shows "callback_first n b =
    (if threadShutdown b then Abort b
     else if n + length (contents b) \<le> bufSize b then Store (rewind_empty b) else Wait (rewind_empty b))"
proof -
  have s: "callback_seek b = Wait b"
    using assms(2) by (simp add: callback_seek_def buffer_seek_def in_buffer_seek_def)
  have "curl_free (rewind_empty b) + fill b = bufSize b"
    using curl_free_fill [OF rewind_empty_ring(1) [OF assms(1)]] by (simp add: rewind_empty_ring) (simp add: rewind_empty_def)
  then show ?thesis by (auto simp: callback_first_def s callback_room_def Let_def)
qed

text \<open>
  Defect. A seek relative to the end is lost: the callback drops every buffered byte for it, and
  the thread then starts the request again with no position to resume from and the old position
  kept, so the bytes read next come from somewhere else than the position says.
\<close>

theorem curl_seek_end_lost:
  assumes "ring_ok b" and "doSeek b" and "seekWhence b = SEEK_END"
  shows "\<exists>c. callback_first n b = Abort c \<and> contents c = [] \<and>
    snd (curl_seek c) = None \<and> posRead (fst (curl_seek c)) = posRead b \<and> \<not> doSeek (fst (curl_seek c))"
  using assms
  by (simp add: callback_first_def callback_seek_def buffer_seek_def in_buffer_seek_def curl_seek_def empty_contents)

lemma curl_stream_fifo_witness:
  "contents (seeking 2 3 0 0) @ [1, 2] = [9, 1] @ contents (curl_put [2] (snd (ring_take 9 (curl_put [1] (seeking 2 3 0 0)))))"
proof -
  let ?ops = "[Put [1], Take 9, Put [2::nat]]"
  have "run_ops curl_room curl_put ?ops (seeking 2 3 0 0)
      = ([1, 2], [9, 1], curl_put [2] (snd (ring_take 9 (curl_put [1] (seeking 2 3 0 0)))))"
    by (simp add: seeking_def curl_room_def curl_put_def curl_free_def rewind_empty_def
        callback_store_def callback_commit_def max_write_def ring_take_def read_copy_def read_commit_def
        fill_span_def Let_def)
  then show ?thesis using curl_stream_fifo [of "seeking 2 3 0 0" ?ops] by (simp add: seeking_def ring_ok_def)
qed

lemma callback_waits_for_room_witness:
  "callback_first 4 (seeking 2 1 0 0\<lparr>doSeek := False\<rparr>) = Wait (seeking 2 1 0 0\<lparr>doSeek := False\<rparr>)"
  using callback_waits_for_room [of "seeking 2 1 0 0\<lparr>doSeek := False\<rparr>" 4]
  by (simp add: seeking_def ring_ok_def contents_def fill_def fill_span_def rewind_empty_def)

lemma curl_seek_end_lost_witness:
  "\<exists>c. callback_first 1 (seeking 2 1 10 0\<lparr>seekWhence := SEEK_END\<rparr>) = Abort c \<and> contents c = [] \<and>
     posRead (fst (curl_seek c)) = 10"
  using curl_seek_end_lost [of "seeking 2 1 10 0\<lparr>seekWhence := SEEK_END\<rparr>" 1]
  by (auto simp: seeking_def ring_ok_def)

end
