(* ===== verification/Update_Manager.thy ===== *)
theory Update_Manager
  imports Transition
begin

text \<open>
  \<open>src/src/content/update_manager.cc\<close>: the set of changed containers, the calls that add to it
  and the thread that sends it to the subscribers. A step is one region under the lock; the
  environment is the clock, the database (\<open>incrementUpdateIDs\<close>: the text to send, \<open>None\<close> when it
  throws) and the threads that call.
\<close>

definition MAX_OBJECT_IDS :: nat where
  "MAX_OBJECT_IDS = 1000"

definition MAX_OBJECT_IDS_OVERLOAD :: nat where
  "MAX_OBJECT_IDS_OVERLOAD = 30"

definition FLUSH_SPEC :: int where
  "FLUSH_SPEC = 1"

definition FLUSH_ASAP :: int where
  "FLUSH_ASAP = 2"

definition specInterval :: int where
  "specInterval = 2000"

definition minSleep :: int where
  "minSleep = 1"

record update_manager =
  objectIDHash :: "int set"
  shutdownFlag :: bool
  flushPolicy :: int
  lastContainerChanged :: int
  lastUpdate :: int

definition UpdateManager :: "int \<Rightarrow> update_manager" where
  "UpdateManager now =
     \<lparr>objectIDHash = {}, shutdownFlag = False, flushPolicy = FLUSH_SPEC,
      lastContainerChanged = INVALID_OBJECT_ID, lastUpdate = now\<rparr>"

definition haveUpdates :: "update_manager \<Rightarrow> bool" where
  "haveUpdates u = (objectIDHash u \<noteq> {})"

section \<open>Reporting changes\<close>

text \<open>The flag says whether the thread is notified.\<close>

definition containerChanged :: "int \<Rightarrow> int \<Rightarrow> update_manager \<Rightarrow> update_manager \<times> bool" where
  "containerChanged objectID policy u =
     (if objectID = INVALID_OBJECT_ID then (u, False)
      else if objectID \<noteq> lastContainerChanged u \<or> policy > flushPolicy u then
        (let u1 = u\<lparr>objectIDHash := insert objectID (objectIDHash u), lastContainerChanged := objectID\<rparr>;
             signal = (\<not> haveUpdates u \<or> card (objectIDHash u1) \<ge> MAX_OBJECT_IDS)
         in if policy > flushPolicy u then (u1\<lparr>flushPolicy := policy\<rparr>, True) else (u1, signal))
      else (u, False))"

text \<open>
  The loop of \<open>containersChanged\<close>: it stops with the rest of the list when it has to let the
  thread send before it goes on.
\<close>

fun changed_loop :: "bool \<Rightarrow> int list \<Rightarrow> update_manager \<Rightarrow> update_manager \<times> int list option" where
  "changed_loop split [] u = (u, None)"
| "changed_loop split (objectID # ids) u =
     (if objectID \<noteq> lastContainerChanged u then
        let u1 = u\<lparr>objectIDHash := insert objectID (objectIDHash u)\<rparr> in
        if split \<and> card (objectIDHash u1) > MAX_OBJECT_IDS then (u1, Some ids) else changed_loop split ids u1
      else changed_loop split ids u)"

definition changed_begin :: "int list \<Rightarrow> int \<Rightarrow> update_manager \<Rightarrow> update_manager \<times> bool \<times> bool" where
  "changed_begin ids policy u =
     (let split = (card (objectIDHash u) + length ids \<ge> MAX_OBJECT_IDS + MAX_OBJECT_IDS_OVERLOAD) in
      if policy > flushPolicy u then (u\<lparr>flushPolicy := policy\<rparr>, True, split) else (u, \<not> haveUpdates u, split))"

definition changed_signal :: "bool \<Rightarrow> update_manager \<Rightarrow> bool" where
  "changed_signal signal u = (signal \<or> card (objectIDHash u) \<ge> MAX_OBJECT_IDS)"

section \<open>The thread\<close>

datatype update_pc = TIdle | TSleep | TSending "string" | TWoken bool | TDone

text \<open>
  Where the thread goes on from: after a wait without timeout or a sending at the top of the loop
  (\<open>TWoken False\<close>), after a notified sleep at the decision to send (\<open>TWoken True\<close>).
\<close>

definition sleepMillis :: "int \<Rightarrow> update_manager \<Rightarrow> int" where
  "sleepMillis now u =
     (if flushPolicy u = FLUSH_SPEC then specInterval - (now - lastUpdate u) else 0)"

text \<open>Sending up to the unlock: \<open>answer\<close> is what \<open>incrementUpdateIDs\<close> returns.\<close>

definition send_updates :: "string option \<Rightarrow> update_manager \<Rightarrow> update_manager \<times> update_pc" where
  "send_updates answer u =
     (let u1 = u\<lparr>lastContainerChanged := INVALID_OBJECT_ID, flushPolicy := FLUSH_SPEC\<rparr>
      in case answer of
           None \<Rightarrow> (u1, TSending [])
         | Some s \<Rightarrow> (u1\<lparr>objectIDHash := {}\<rparr>, TSending s))"

definition update_loop :: "int \<Rightarrow> string option \<Rightarrow> update_manager \<Rightarrow> update_manager \<times> update_pc" where
  "update_loop now answer u =
     (if shutdownFlag u then (u, TDone)
      else if haveUpdates u then
        (if sleepMillis now u \<ge> minSleep \<and> card (objectIDHash u) < MAX_OBJECT_IDS then (u, TSleep)
         else send_updates answer u)
      else (u, TIdle))"

text \<open>After a sleep that did not time out.\<close>

definition update_woken :: "string option \<Rightarrow> update_manager \<Rightarrow> update_manager \<times> update_pc" where
  "update_woken answer u = (if shutdownFlag u then (u, TDone) else send_updates answer u)"

text \<open>After the unlocked sending: the time of the last update, when there was a text to send.\<close>

definition update_sent :: "string \<Rightarrow> int \<Rightarrow> update_manager \<Rightarrow> update_manager" where
  "update_sent s now u = (if s \<noteq> [] then u\<lparr>lastUpdate := now\<rparr> else u)"

section \<open>The system\<close>

text \<open>
  One thread may be in the middle of \<open>containersChanged\<close> (its remaining ids, its \<open>signal\<close>);
  calls of \<open>containerChanged\<close> come from any number of threads. The ghost fields hold the ids
  reported, the ids handed to the database, and whether a call had to be split.
\<close>

record update_system =
  um :: update_manager
  tpc :: update_pc
  cpc :: "(int list \<times> bool) option"
  reported :: "int set"
  sent :: "int set"
  wasSplit :: bool

fun notify_update :: "bool \<Rightarrow> update_pc \<Rightarrow> update_pc" where
  "notify_update True TIdle = TWoken False"
| "notify_update True TSleep = TWoken True"
| "notify_update b pc = pc"

definition handed :: "update_manager \<Rightarrow> update_manager \<times> update_pc \<Rightarrow> int set" where
  "handed u r = (if haveUpdates u \<and> \<not> haveUpdates (fst r) then objectIDHash u else {})"

inductive update_step :: "update_system \<Rightarrow> update_system \<Rightarrow> bool" where
  one: "containerChanged objectID policy (um s) = (u, n) \<Longrightarrow>
    update_step s (s\<lparr>um := u, tpc := notify_update n (tpc s),
      reported := (if objectID = INVALID_OBJECT_ID then reported s else insert objectID (reported s))\<rparr>)"
| many: "\<lbrakk>cpc s = None; changed_begin ids policy (um s) = (u1, signal, split);
      changed_loop split ids u1 = (u, None)\<rbrakk> \<Longrightarrow>
    update_step s (s\<lparr>um := u, tpc := notify_update (changed_signal signal u) (tpc s),
      reported := reported s \<union> (set ids - {INVALID_OBJECT_ID})\<rparr>)"
| many_split: "\<lbrakk>cpc s = None; changed_begin ids policy (um s) = (u1, signal, True);
      changed_loop True ids u1 = (u, Some rest)\<rbrakk> \<Longrightarrow>
    update_step s (s\<lparr>um := u, tpc := notify_update True (tpc s), cpc := Some (rest, signal),
      reported := reported s \<union> (set ids - {INVALID_OBJECT_ID}), wasSplit := True\<rparr>)"
| again: "\<lbrakk>cpc s = Some (rest, signal); card (objectIDHash (um s)) > MAX_OBJECT_IDS\<rbrakk> \<Longrightarrow>
    update_step s (s\<lparr>tpc := notify_update True (tpc s)\<rparr>)"
| more: "\<lbrakk>cpc s = Some (rest, signal); card (objectIDHash (um s)) \<le> MAX_OBJECT_IDS;
      changed_loop True rest (um s) = (u, Some rest')\<rbrakk> \<Longrightarrow>
    update_step s (s\<lparr>um := u, tpc := notify_update True (tpc s), cpc := Some (rest', signal)\<rparr>)"
| finish: "\<lbrakk>cpc s = Some (rest, signal); card (objectIDHash (um s)) \<le> MAX_OBJECT_IDS;
      changed_loop True rest (um s) = (u, None)\<rbrakk> \<Longrightarrow>
    update_step s (s\<lparr>um := u, tpc := notify_update (changed_signal signal u) (tpc s), cpc := None\<rparr>)"
| stop: "update_step s (s\<lparr>um := (um s)\<lparr>shutdownFlag := True\<rparr>, tpc := notify_update True (tpc s)\<rparr>)"
| top: "\<lbrakk>tpc s = TWoken False; update_loop now answer (um s) = (u, pc)\<rbrakk> \<Longrightarrow>
    update_step s (s\<lparr>um := u, tpc := pc, sent := sent s \<union> handed (um s) (u, pc)\<rparr>)"
| woken: "\<lbrakk>tpc s = TWoken True; update_woken answer (um s) = (u, pc)\<rbrakk> \<Longrightarrow>
    update_step s (s\<lparr>um := u, tpc := pc, sent := sent s \<union> handed (um s) (u, pc)\<rparr>)"
| timeout: "tpc s = TSleep \<Longrightarrow> update_step s (s\<lparr>tpc := TWoken False\<rparr>)"
| spurious: "tpc s = TSleep \<or> tpc s = TIdle \<Longrightarrow> update_step s (s\<lparr>tpc := notify_update True (tpc s)\<rparr>)"
| sending: "tpc s = TSending t \<Longrightarrow>
    update_step s (s\<lparr>um := update_sent t now (um s), tpc := TWoken False\<rparr>)"

definition update_start :: "int \<Rightarrow> update_system" where
  "update_start now =
     \<lparr>um = UpdateManager now, tpc = TWoken False, cpc = None, reported = {}, sent = {}, wasSplit = False\<rparr>"

definition update_init :: "update_system \<Rightarrow> bool" where
  "update_init s = (\<exists>now. s = update_start now)"

abbreviation update_reachable :: "update_system \<Rightarrow> bool" where
  "update_reachable \<equiv> reach update_init update_step"

lemma update_begin: "update_reachable (update_start now)"
  by (rule reach_init) (auto simp: update_init_def)

lemmas update_next = reach_step [of update_init update_step]

section \<open>The invariant\<close>

text \<open>The cached last id is one of the ids waiting to be sent.\<close>

definition cache_ok :: "update_manager \<Rightarrow> bool" where
  "cache_ok u =
     (finite (objectIDHash u) \<and>
      (lastContainerChanged u \<noteq> INVALID_OBJECT_ID \<longrightarrow> lastContainerChanged u \<in> objectIDHash u))"

definition pending :: "update_system \<Rightarrow> int set" where
  "pending s = (case cpc s of None \<Rightarrow> {} | Some (rest, signal) \<Rightarrow> set rest)"

definition update_ok :: "update_system \<Rightarrow> bool" where
  "update_ok s =
     (cache_ok (um s) \<and> INVALID_OBJECT_ID \<notin> reported s \<and> reported s \<subseteq> sent s \<union> objectIDHash (um s) \<union> pending s \<and>
      (\<not> wasSplit s \<longrightarrow> cpc s = None \<and> (tpc s = TIdle \<longrightarrow> \<not> haveUpdates (um s))))"

lemma changed_loop_ok:
  "changed_loop split ids u = (u', r) \<Longrightarrow> cache_ok u \<Longrightarrow>
   cache_ok u' \<and> objectIDHash u \<subseteq> objectIDHash u' \<and>
   set ids - {INVALID_OBJECT_ID} \<subseteq> objectIDHash u' \<union> (case r of None \<Rightarrow> {} | Some rest \<Rightarrow> set rest)"
proof (induction split ids u rule: changed_loop.induct)
  case (2 split objectID ids u)
  let ?u1 = "u\<lparr>objectIDHash := insert objectID (objectIDHash u)\<rparr>"
  have ok: "cache_ok ?u1" using 2(4) by (auto simp: cache_ok_def)
  consider (stop) "objectID \<noteq> lastContainerChanged u" "split \<and> card (objectIDHash ?u1) > MAX_OBJECT_IDS"
    | (go) "objectID \<noteq> lastContainerChanged u" "\<not> (split \<and> card (objectIDHash ?u1) > MAX_OBJECT_IDS)"
    | (skip) "objectID = lastContainerChanged u" by blast
  then show ?case
  proof cases
    case stop
    then show ?thesis using 2(3) ok by (auto simp: Let_def)
  next
    case go
    then have "changed_loop split ids ?u1 = (u', r)" using 2(3) by (auto simp: Let_def split: if_splits)
    from 2(1) [OF go(1) refl go(2) this ok] show ?thesis by auto
  next
    case skip
    then have "changed_loop split ids u = (u', r)" using 2(3) by simp
    with 2(2) [OF _ this 2(4)] skip 2(4) show ?thesis by (auto simp: cache_ok_def)
  qed
qed (auto split: option.splits)

lemma changed_begin_ok:
  "changed_begin ids policy u = (u1, signal, split) \<Longrightarrow>
   cache_ok u1 = cache_ok u \<and> objectIDHash u1 = objectIDHash u \<and> (\<not> haveUpdates u \<longrightarrow> signal)"
  by (auto simp: changed_begin_def cache_ok_def Let_def split: if_splits)

lemma containerChanged_ok:
  assumes "containerChanged objectID policy u = (u', n)" "cache_ok u"
  shows "cache_ok u'" "objectIDHash u \<subseteq> objectIDHash u'" "objectID = INVALID_OBJECT_ID \<or> objectID \<in> objectIDHash u'"
    "haveUpdates u' \<longrightarrow> haveUpdates u \<or> n"
  using assms by (auto simp: containerChanged_def cache_ok_def Let_def haveUpdates_def split: if_splits)

lemma send_updates_ok:
  "send_updates answer u = (u', pc) \<Longrightarrow> cache_ok u \<Longrightarrow>
   cache_ok u' \<and> (objectIDHash u' = objectIDHash u \<or> objectIDHash u' = {}) \<and> (\<exists>t. pc = TSending t)"
  by (auto simp: send_updates_def cache_ok_def Let_def split: option.splits)

lemma update_loop_ok:
  "update_loop now answer u = (u', pc) \<Longrightarrow> cache_ok u \<Longrightarrow>
   cache_ok u' \<and> (objectIDHash u' = objectIDHash u \<or> objectIDHash u' = {}) \<and> (pc = TIdle \<longrightarrow> \<not> haveUpdates u')"
  by (auto simp: update_loop_def split: if_splits dest!: send_updates_ok)

lemma update_woken_ok:
  "update_woken answer u = (u', pc) \<Longrightarrow> cache_ok u \<Longrightarrow>
   cache_ok u' \<and> (objectIDHash u' = objectIDHash u \<or> objectIDHash u' = {}) \<and> pc \<noteq> TIdle"
  by (auto simp: update_woken_def split: if_splits dest!: send_updates_ok)

lemma handed_covers:
  "objectIDHash u' = objectIDHash u \<or> objectIDHash u' = {} \<Longrightarrow> objectIDHash u \<subseteq> handed u (u', pc) \<union> objectIDHash u'"
  by (auto simp: handed_def haveUpdates_def)

lemma notify_idle: "notify_update n pc = TIdle \<longleftrightarrow> pc = TIdle \<and> \<not> n"
  by (cases n; cases pc) auto

lemma update_step_ok:
  assumes "update_step s t" "update_ok s"
  shows "update_ok t"
  using assms
proof (induction rule: update_step.induct)
  case (one objectID policy s u n)
  then have "cache_ok (um s)" by (simp add: update_ok_def)
  note f = containerChanged_ok [OF one(1) this]
  then show ?case using one(2) by (auto simp: update_ok_def notify_idle pending_def)
next
  case (many s ids policy u1 signal split u)
  then have c: "cache_ok u1" and e: "objectIDHash u1 = objectIDHash (um s)" "haveUpdates (um s) \<or> signal"
    using changed_begin_ok [OF many(2)] by (auto simp: update_ok_def)
  from changed_loop_ok [OF many(3) c] e many show ?case
    by (auto simp: update_ok_def pending_def notify_idle changed_signal_def)
next
  case (many_split s ids policy u1 signal u rest)
  then have c: "cache_ok u1" and e: "objectIDHash u1 = objectIDHash (um s)"
    using changed_begin_ok [OF many_split(2)] by (auto simp: update_ok_def)
  from changed_loop_ok [OF many_split(3) c] e many_split show ?case by (auto simp: update_ok_def pending_def)
next
  case (again s rest signal)
  then show ?case by (auto simp: update_ok_def pending_def)
next
  case (more s rest signal u rest')
  then have c: "cache_ok (um s)" by (simp add: update_ok_def)
  from changed_loop_ok [OF more(3) c] more show ?case by (auto simp: update_ok_def pending_def)
next
  case (finish s rest signal u)
  then have c: "cache_ok (um s)" by (simp add: update_ok_def)
  from changed_loop_ok [OF finish(3) c] finish show ?case by (auto simp: update_ok_def pending_def)
next
  case (stop s)
  then show ?case by (auto simp: update_ok_def cache_ok_def pending_def notify_idle haveUpdates_def)
next
  case (top s now answer u pc)
  then have c: "cache_ok (um s)" by (simp add: update_ok_def)
  from update_loop_ok [OF top(2) c] handed_covers [of u "um s" pc] top show ?case
    by (auto simp: update_ok_def pending_def)
next
  case (woken s answer u pc)
  then have c: "cache_ok (um s)" by (simp add: update_ok_def)
  from update_woken_ok [OF woken(2) c] handed_covers [of u "um s" pc] woken show ?case
    by (auto simp: update_ok_def pending_def)
next
  case (sending s t now)
  then show ?case by (auto simp: update_ok_def cache_ok_def pending_def update_sent_def haveUpdates_def)
qed (auto simp: update_ok_def pending_def notify_idle)

interpretation updates: step_invariant update_init update_step update_ok
proof unfold_locales
  show "update_ok s" if "update_init s" for s
    using that by (auto simp: update_init_def update_start_def UpdateManager_def update_ok_def cache_ok_def)
qed (rule update_step_ok)

section \<open>Properties\<close>


text \<open>
  As long as no call of \<open>containersChanged\<close> had to let the thread in halfway, the thread never
  sleeps without a time limit while updates wait.
\<close>

theorem update_idle_means_none:
  assumes "update_reachable s" and "\<not> wasSplit s" and "tpc s = TIdle"
  shows "\<not> haveUpdates (um s)"
  using updates.reach_inv [OF assms(1)] assms(2,3) by (simp add: update_ok_def)

text \<open>
  The thread puts updates off only under the slow policy, with fewer than 1000 containers waiting
  and for at most the rest of the two seconds since the last sending; otherwise it sends at once.
\<close>

theorem update_delay_bounded:
  assumes "lastUpdate u \<le> now" and "haveUpdates u" and "\<not> shutdownFlag u"
  shows "case snd (update_loop now answer u) of
      TSleep \<Rightarrow> flushPolicy u = FLUSH_SPEC \<and> card (objectIDHash u) < 1000 \<and>
        0 < sleepMillis now u \<and> sleepMillis now u \<le> 2000 \<and>
        now + sleepMillis now u = lastUpdate u + 2000
    | TSending t \<Rightarrow> flushPolicy (fst (update_loop now answer u)) = FLUSH_SPEC \<and>
        (answer = Some t \<longrightarrow> \<not> haveUpdates (fst (update_loop now answer u)))
    | pc \<Rightarrow> False"
  using assms
  by (auto simp: update_loop_def send_updates_def sleepMillis_def minSleep_def specInterval_def MAX_OBJECT_IDS_def
      FLUSH_SPEC_def haveUpdates_def Let_def split: option.splits if_splits)

section \<open>A call that lets the thread in\<close>

lemma changed_loop_all:
  "finite (objectIDHash u) \<Longrightarrow> lastContainerChanged u \<notin> set ids \<Longrightarrow>
   card (objectIDHash u \<union> set ids) \<le> MAX_OBJECT_IDS \<Longrightarrow>
   changed_loop split ids u = (u\<lparr>objectIDHash := objectIDHash u \<union> set ids\<rparr>, None)"
proof (induction ids arbitrary: u)
  case (Cons x ids)
  let ?u1 = "u\<lparr>objectIDHash := insert x (objectIDHash u)\<rparr>"
  have "card (insert x (objectIDHash u)) \<le> card (objectIDHash u \<union> set (x # ids))"
    using Cons(2) by (intro card_mono) auto
  with Cons(4) have "\<not> card (insert x (objectIDHash u)) > MAX_OBJECT_IDS" by linarith
  moreover have "changed_loop split ids ?u1 = (?u1\<lparr>objectIDHash := objectIDHash ?u1 \<union> set ids\<rparr>, None)"
    using Cons by (intro Cons.IH) auto
  ultimately show ?case using Cons(3) by (auto simp: Let_def)
qed simp

lemma changed_loop_append:
  "changed_loop split xs u = (u', None) \<Longrightarrow> changed_loop split (xs @ ys) u = changed_loop split ys u'"
  by (induction split xs u rule: changed_loop.induct) (auto simp: Let_def split: if_splits)

definition many_ids :: "nat \<Rightarrow> nat \<Rightarrow> int list" where
  "many_ids i j = map int [i..<j]"

lemma many_ids_append: "i \<le> j \<Longrightarrow> j \<le> k \<Longrightarrow> many_ids i k = many_ids i j @ many_ids j k"
  using upt_add_eq_append [of i j "k - j"] by (simp add: many_ids_def)

lemma many_ids_Cons: "j < k \<Longrightarrow> many_ids j k = int j # many_ids (Suc j) k"
  by (simp add: many_ids_def upt_conv_Cons)

lemma length_many_ids [simp]: "length (many_ids i j) = j - i"
  by (simp add: many_ids_def)

lemma set_many_ids: "set (many_ids i j) = int ` {i..<j}"
  by (simp add: many_ids_def)

text \<open>The run: container 5 changes, then a call reports the containers 1000 to 2099.\<close>

definition u_full :: update_manager where
  "u_full = (UpdateManager 0)\<lparr>objectIDHash := insert 5 (set (many_ids 1000 2000)), lastContainerChanged := 5\<rparr>"

definition u_rest :: update_manager where
  "u_rest = (UpdateManager 0)\<lparr>objectIDHash := set (many_ids 2000 2100), lastUpdate := 7\<rparr>"

lemma card_many_ids [simp]: "card (set (many_ids i j)) = j - i"
  by (simp add: set_many_ids card_image)

lemma many_first:
  "changed_loop True (many_ids 1000 2100) ((UpdateManager 0)\<lparr>objectIDHash := {5}, lastContainerChanged := 5\<rparr>)
   = (u_full, Some (many_ids 2000 2100))"
proof -
  let ?u = "(UpdateManager 0)\<lparr>objectIDHash := {5}, lastContainerChanged := 5\<rparr>"
  let ?v = "?u\<lparr>objectIDHash := {5} \<union> set (many_ids 1000 1999)\<rparr>"
  have c: "card (insert 5 (set (many_ids 1000 j))) = Suc (j - 1000)" for j
    by (subst card_insert_disjoint) (auto simp: set_many_ids card_image)
  have "changed_loop True (many_ids 1000 1999) ?u =
      (?u\<lparr>objectIDHash := objectIDHash ?u \<union> set (many_ids 1000 1999)\<rparr>, None)"
    by (rule changed_loop_all) (use c [of 1999] in \<open>simp_all add: MAX_OBJECT_IDS_def, auto simp: set_many_ids\<close>)
  then have "changed_loop True (many_ids 1000 1999) ?u = (?v, None)" by simp
  then have "changed_loop True (many_ids 1000 1999 @ many_ids 1999 2100) ?u
      = changed_loop True (many_ids 1999 2100) ?v" by (rule changed_loop_append)
  then have "changed_loop True (many_ids 1000 2100) ?u = changed_loop True (many_ids 1999 2100) ?v"
    using many_ids_append [of 1000 1999 2100] by simp
  also have "many_ids 1999 2100 = int 1999 # many_ids 2000 2100"
    using many_ids_Cons [of 1999 2100] by simp
  also have "changed_loop True (int 1999 # many_ids 2000 2100) ?v = (u_full, Some (many_ids 2000 2100))"
  proof -
    have s: "insert (1999::int) (insert 5 (set (many_ids 1000 1999))) = insert 5 (set (many_ids 1000 2000))"
      by (auto simp: set_many_ids)
    then show ?thesis using c [of 2000] by (simp add: Let_def u_full_def MAX_OBJECT_IDS_def)
  qed
  finally show ?thesis .
qed

lemma many_second:
  "changed_loop True (many_ids 2000 2100) ((UpdateManager 0)\<lparr>lastUpdate := 7\<rparr>) = (u_rest, None)"
proof -
  let ?u = "(UpdateManager 0)\<lparr>lastUpdate := 7\<rparr>"
  have "changed_loop True (many_ids 2000 2100) ?u =
      (?u\<lparr>objectIDHash := objectIDHash ?u \<union> set (many_ids 2000 2100)\<rparr>, None)"
    by (rule changed_loop_all)
      (simp_all add: UpdateManager_def MAX_OBJECT_IDS_def INVALID_OBJECT_ID_def, auto simp: set_many_ids)
  then show ?thesis by (simp add: UpdateManager_def u_rest_def)
qed

definition reaches :: "update_manager \<Rightarrow> update_pc \<Rightarrow> (int list \<times> bool) option \<Rightarrow> bool" where
  "reaches u t c = (\<exists>s. update_reachable s \<and> um s = u \<and> tpc s = t \<and> cpc s = c)"

lemma reaches_step:
  assumes "reaches u t c" and "\<And>s. um s = u \<Longrightarrow> tpc s = t \<Longrightarrow> cpc s = c \<Longrightarrow>
    \<exists>s'. update_step s s' \<and> um s' = u' \<and> tpc s' = t' \<and> cpc s' = c'"
  shows "reaches u' t' c'"
  using assms unfolding reaches_def by (blast intro: update_next)

lemma reaches_start: "reaches (UpdateManager now) (TWoken False) None"
  unfolding reaches_def by (rule exI [of _ "update_start now"]) (simp add: update_begin, simp add: update_start_def)

lemma reaches_one: "reaches u t c \<Longrightarrow> containerChanged objectID policy u = (u', n) \<Longrightarrow> reaches u' (notify_update n t) c"
  by (erule reaches_step, rule exI, rule conjI, rule update_step.one, simp_all)

lemma reaches_split:
  "reaches u t None \<Longrightarrow> changed_begin ids policy u = (u1, signal, True) \<Longrightarrow>
   changed_loop True ids u1 = (u', Some rest) \<Longrightarrow> reaches u' (notify_update True t) (Some (rest, signal))"
  by (erule reaches_step, rule exI, rule conjI, rule update_step.many_split, simp_all)

lemma reaches_finish:
  "reaches u t (Some (rest, signal)) \<Longrightarrow> card (objectIDHash u) \<le> MAX_OBJECT_IDS \<Longrightarrow>
   changed_loop True rest u = (u', None) \<Longrightarrow> reaches u' (notify_update (changed_signal signal u') t) None"
  by (erule reaches_step, rule exI, rule conjI, rule update_step.finish, simp_all)

lemma reaches_top: "reaches u (TWoken False) c \<Longrightarrow> update_loop now answer u = (u', pc) \<Longrightarrow> reaches u' pc c"
  by (erule reaches_step, rule exI, rule conjI, rule update_step.top, simp_all)

lemma reaches_woken: "reaches u (TWoken True) c \<Longrightarrow> update_woken answer u = (u', pc) \<Longrightarrow> reaches u' pc c"
  by (erule reaches_step, rule exI, rule conjI, rule update_step.woken, simp_all)

lemma reaches_sending: "reaches u (TSending t) c \<Longrightarrow> reaches (update_sent t now u) (TWoken False) c"
  by (erule reaches_step, rule exI, rule conjI, rule update_step.sending, simp_all)

lemma reaches_asleep: "reaches u_rest TIdle None"
proof -
  let ?u = "(UpdateManager 0)\<lparr>objectIDHash := {5}, lastContainerChanged := 5\<rparr>"
  let ?u7 = "(UpdateManager 0)\<lparr>lastUpdate := 7\<rparr>"
  note defs = UpdateManager_def INVALID_OBJECT_ID_def haveUpdates_def FLUSH_SPEC_def MAX_OBJECT_IDS_def
  have one: "containerChanged 5 FLUSH_SPEC (UpdateManager 0) = (?u, True)"
    by (simp add: containerChanged_def defs)
  have sleep: "update_loop 0 None ?u = (?u, TSleep)"
    by (simp add: update_loop_def sleepMillis_def specInterval_def minSleep_def defs)
  have enter: "changed_begin (many_ids 1000 2100) FLUSH_SPEC ?u = (?u, False, True)"
    by (simp add: changed_begin_def MAX_OBJECT_IDS_OVERLOAD_def defs)
  have woken: "update_woken (Some ''5,1'') u_full = (UpdateManager 0, TSending ''5,1'')"
    by (simp add: update_woken_def send_updates_def u_full_def defs)
  have idle: "update_loop 7 None ?u7 = (?u7, TIdle)" by (simp add: update_loop_def defs)
  have "reaches ?u (TWoken False) None" using reaches_one [OF reaches_start one] by simp
  then have "reaches ?u TSleep None" using sleep by (rule reaches_top)
  from reaches_split [OF this enter many_first]
  have "reaches u_full (TWoken True) (Some (many_ids 2000 2100, False))" by simp
  then have "reaches (UpdateManager 0) (TSending ''5,1'') (Some (many_ids 2000 2100, False))"
    using woken by (rule reaches_woken)
  from reaches_sending [OF this, of 7] have "reaches ?u7 (TWoken False) (Some (many_ids 2000 2100, False))"
    by (simp add: update_sent_def)
  then have "reaches ?u7 TIdle (Some (many_ids 2000 2100, False))" using idle by (rule reaches_top)
  from reaches_finish [OF this _ many_second] show ?thesis
    by (simp add: changed_signal_def u_rest_def MAX_OBJECT_IDS_def UpdateManager_def)
qed

text \<open>
  Defect. A wake-up can be lost: \<open>containersChanged\<close> decides before it lets the thread in
  whether it must signal. When the thread has sent everything in between and sleeps without a
  time limit, the rest of the ids is added without a signal, and no later change of a single
  container under the slow policy wakes the thread either.
\<close>

theorem update_lost_wakeup:
  "\<exists>s. update_reachable s \<and> tpc s = TIdle \<and> cpc s = None \<and> card (objectIDHash (um s)) = 100 \<and>
     \<not> shutdownFlag (um s) \<and>
     (\<forall>objectID. \<not> snd (containerChanged objectID FLUSH_SPEC (um s)))"
proof -
  obtain s where s: "update_reachable s" "um s = u_rest" "tpc s = TIdle" "cpc s = None"
    using reaches_asleep unfolding reaches_def by blast
  have fin: "finite (objectIDHash u_rest)" and c: "card (objectIDHash u_rest) = 100"
    by (simp_all add: u_rest_def)
  have "\<not> snd (containerChanged objectID FLUSH_SPEC u_rest)" for objectID
  proof -
    have "card (insert objectID (objectIDHash u_rest)) \<le> 101"
      using c fin by (simp add: card_insert_if)
    moreover have "flushPolicy u_rest = FLUSH_SPEC" "haveUpdates u_rest"
      using c by (auto simp: u_rest_def UpdateManager_def haveUpdates_def set_many_ids)
    ultimately show ?thesis by (simp add: containerChanged_def Let_def MAX_OBJECT_IDS_def)
  qed
  then show ?thesis using s c by (intro exI [of _ s]) (simp add: u_rest_def UpdateManager_def)
qed


lemma update_idle_means_none_witness:
  "\<exists>s. update_reachable s \<and> tpc s = TIdle \<and> \<not> haveUpdates (um s)"
proof -
  have "update_loop 0 None (um (update_start 0)) = (UpdateManager 0, TIdle)"
    by (simp add: update_loop_def update_start_def UpdateManager_def haveUpdates_def)
  then have "update_step (update_start 0) ((update_start 0)\<lparr>um := UpdateManager 0, tpc := TIdle,
      sent := sent (update_start 0) \<union> handed (um (update_start 0)) (UpdateManager 0, TIdle)\<rparr>)" (is "update_step _ ?t")
    by (intro update_step.top) (simp_all add: update_start_def)
  then have r: "update_reachable ?t" using update_begin update_next by blast
  have "\<not> haveUpdates (um ?t)" by (rule update_idle_means_none [OF r]) (simp_all add: update_start_def)
  then show ?thesis using r by (intro exI [of _ ?t]) simp
qed

lemma update_delay_bounded_witness:
  "snd (update_loop 500 (Some ''5,1'') ((UpdateManager 0)\<lparr>objectIDHash := {5}\<rparr>)) = TSleep \<and>
   sleepMillis 500 ((UpdateManager 0)\<lparr>objectIDHash := {5}\<rparr>) = 1500"
proof -
  let ?u = "(UpdateManager 0)\<lparr>objectIDHash := {5}\<rparr>"
  have t: "snd (update_loop 500 (Some ''5,1'') ?u) = TSleep"
    by (simp add: update_loop_def sleepMillis_def UpdateManager_def FLUSH_SPEC_def specInterval_def minSleep_def
        haveUpdates_def MAX_OBJECT_IDS_def)
  have "lastUpdate ?u \<le> 500" "haveUpdates ?u" "\<not> shutdownFlag ?u" by (simp_all add: UpdateManager_def haveUpdates_def)
  from update_delay_bounded [OF this, of "Some ''5,1''"] t show ?thesis by (simp add: UpdateManager_def)
qed

end
