(* ===== verification/Timer.thy ===== *)
theory Timer
  imports Transition
begin

text \<open>
  \<open>src/src/util/timer.cc\<close> and \<open>timer.h\<close>: subscribers with an interval, and the thread that wakes
  up for the next one. Times are milliseconds; the clock is a function from the number of the
  reading, so that two readings in a row may differ.
\<close>

datatype timer_error = Illegal_interval | Same_timer_twice | Nonexistent_timer

record timer_subscriber =
  subscriber :: nat
  parameter :: "nat option"
  notifyInterval :: int
  once :: bool
  nextNotify :: int

definition updateNextNotify :: "int \<Rightarrow> timer_subscriber \<Rightarrow> timer_subscriber" where
  "updateNextNotify start e = e\<lparr>nextNotify := start + notifyInterval e\<rparr>"

definition TimerSubscriberElement :: "int \<Rightarrow> nat \<Rightarrow> int \<Rightarrow> nat option \<Rightarrow> bool \<Rightarrow> timer_subscriber" where
  "TimerSubscriberElement now sub interval param isOnce =
     updateNextNotify now
       \<lparr>subscriber = sub, parameter = param, notifyInterval = interval, once = isOnce, nextNotify = 0\<rparr>"

text \<open>\<open>operator==\<close>.\<close>

definition same_timer :: "timer_subscriber \<Rightarrow> timer_subscriber \<Rightarrow> bool" where
  "same_timer a b = (subscriber a = subscriber b \<and> parameter a = parameter b)"

definition addTimerSubscriber :: "int \<Rightarrow> nat \<Rightarrow> int \<Rightarrow> nat option \<Rightarrow> bool \<Rightarrow> timer_subscriber list
    \<Rightarrow> timer_error + timer_subscriber list" where
  "addTimerSubscriber now sub interval param isOnce subs =
     (if interval = 0 then Inl Illegal_interval
      else let element = TimerSubscriberElement now sub interval param isOnce in
        if \<exists>e \<in> set subs. same_timer e element then Inl Same_timer_twice
        else Inr (subs @ [element]))"

text \<open>The flag says whether the thread is notified.\<close>

definition removeTimerSubscriber :: "nat \<Rightarrow> nat option \<Rightarrow> bool \<Rightarrow> timer_subscriber list
    \<Rightarrow> timer_error + timer_subscriber list \<times> bool" where
  "removeTimerSubscriber sub param dontFail subs =
     (let element = TimerSubscriberElement 0 sub 0 param False in
      case List.extract (\<lambda>e. same_timer e element) subs of
        Some (before, e, after) \<Rightarrow> Inr (before @ after, True)
      | None \<Rightarrow> if dontFail then Inr (subs, False) else Inl Nonexistent_timer)"

text \<open>
  \<open>notify\<close> up to the unlock: the subscribers that stay and the ones to notify. Each one reads the
  clock, and a second time when its next notification is set.
\<close>

fun notify_scan :: "(nat \<Rightarrow> int) \<Rightarrow> nat \<Rightarrow> timer_subscriber list \<Rightarrow> timer_subscriber list \<times> timer_subscriber list" where
  "notify_scan clock i [] = ([], [])"
| "notify_scan clock i (e # es) =
     (if nextNotify e - clock i \<le> 0 then
        (if once e then let (stay, toNotify) = notify_scan clock (i + 1) es in (stay, e # toNotify)
         else let (stay, toNotify) = notify_scan clock (i + 2) es
              in (updateNextNotify (clock (i + 1)) e # stay, e # toNotify))
      else let (stay, toNotify) = notify_scan clock (i + 1) es in (e # stay, toNotify))"

definition next_time :: "int \<Rightarrow> timer_subscriber \<Rightarrow> int" where
  "next_time nextTime e =
     (if nextTime = 0 \<or> nextNotify e - nextTime < 0 then nextNotify e else nextTime)"

definition getNextNotifyTime :: "timer_subscriber list \<Rightarrow> int" where
  "getNextNotifyTime subs = foldl next_time 0 subs"

section \<open>The subscribers\<close>

definition timer_key :: "timer_subscriber \<Rightarrow> nat \<times> nat option" where
  "timer_key e = (subscriber e, parameter e)"

definition timers_distinct :: "timer_subscriber list \<Rightarrow> bool" where
  "timers_distinct subs = distinct (map timer_key subs)"

lemma timer_key_update [simp]: "timer_key (updateNextNotify t e) = timer_key e"
  by (simp add: timer_key_def updateNextNotify_def)

lemma timer_key_element [simp]: "timer_key (TimerSubscriberElement now sub i p o1) = (sub, p)"
  by (simp add: timer_key_def TimerSubscriberElement_def updateNextNotify_def)

lemma same_timer_key: "same_timer a b \<longleftrightarrow> timer_key a = timer_key b"
  by (simp add: same_timer_def timer_key_def)

lemma add_distinct:
  "timers_distinct subs \<Longrightarrow> addTimerSubscriber now sub i p o1 subs = Inr subs' \<Longrightarrow> timers_distinct subs'"
  by (auto simp: addTimerSubscriber_def timers_distinct_def same_timer_key Let_def split: if_splits) force

lemma extract_SomeD:
  "List.extract P xs = Some (before, x, after) \<Longrightarrow> xs = before @ x # after \<and> P x \<and> (\<forall>y \<in> set before. \<not> P y)"
  by (auto simp: extract_Some_iff)

lemma remove_distinct:
  "timers_distinct subs \<Longrightarrow> removeTimerSubscriber sub p df subs = Inr (subs', n) \<Longrightarrow> timers_distinct subs'"
  by (auto simp: removeTimerSubscriber_def timers_distinct_def Let_def split: option.splits if_splits
      dest!: extract_SomeD)

text \<open>The scan without its \<open>let\<close>s.\<close>

lemma scan_Cons:
  "notify_scan clock i (e # es) =
     (if clock i < nextNotify e then (e # fst (notify_scan clock (i + 1) es), snd (notify_scan clock (i + 1) es))
      else if once e then (fst (notify_scan clock (i + 1) es), e # snd (notify_scan clock (i + 1) es))
      else (updateNextNotify (clock (i + 1)) e # fst (notify_scan clock (i + 2) es),
            e # snd (notify_scan clock (i + 2) es)))"
  by (auto simp: Let_def split: prod.splits)

lemma scan_keys: "timer_key ` set (fst (notify_scan clock i subs)) \<subseteq> timer_key ` set subs"
proof (induction subs arbitrary: i)
  case (Cons e es)
  show ?case using Cons [of "i + 1"] Cons [of "i + 2"] unfolding scan_Cons by auto
qed simp

lemma scan_distinct: "timers_distinct subs \<Longrightarrow> timers_distinct (fst (notify_scan clock i subs))"
proof (induction subs arbitrary: i)
  case (Cons e es)
  have "timer_key e \<notin> timer_key ` set (fst (notify_scan clock j es))" for j
    using scan_keys [of clock j es] Cons(2) by (auto simp: timers_distinct_def)
  then show ?case using Cons unfolding scan_Cons by (simp add: timers_distinct_def)
qed (simp add: timers_distinct_def)

section \<open>What a notification does\<close>

lemma subseq_due: "a \<le> b \<Longrightarrow> subseq (filter (\<lambda>e. nextNotify e \<le> a) es) (filter (\<lambda>e. nextNotify e \<le> b) es)"
  by (induction es) auto

lemma scan_due:
  assumes m: "mono clock"
  shows "subseq (filter (\<lambda>e. nextNotify e \<le> clock i) subs) (snd (notify_scan clock i subs))"
proof (induction subs arbitrary: i)
  case (Cons e es)
  have le: "subseq (filter (\<lambda>e. nextNotify e \<le> clock i) es) (snd (notify_scan clock (i + k) es))" for k
  proof -
    have "clock i \<le> clock (i + k)" using m by (simp add: mono_def)
    then show ?thesis using subseq_order.trans [OF subseq_due Cons [of "i + k"]] by blast
  qed
  show ?case using le [of 1] le [of 2] unfolding scan_Cons by (auto simp: linorder_not_less)
qed simp

lemma scan_only_due:
  assumes m: "mono clock"
  shows "subseq (snd (notify_scan clock i subs)) (filter (\<lambda>e. nextNotify e \<le> clock (i + 2 * length subs)) subs)"
proof (induction subs arbitrary: i)
  case (Cons e es)
  have le: "subseq (snd (notify_scan clock (i + k) es))
      (filter (\<lambda>e. nextNotify e \<le> clock (i + 2 * Suc (length es))) es)" if "k \<le> 2" for k
  proof -
    have "clock (i + k + 2 * length es) \<le> clock (i + 2 * Suc (length es))" using m that by (simp add: mono_def)
    from Cons [of "i + k"] subseq_due [OF this] show ?thesis by (rule subseq_order.trans)
  qed
  have "clock i \<le> clock (i + 2 * Suc (length es))" using m by (simp add: mono_def)
  then have "\<not> clock i < nextNotify e \<Longrightarrow> nextNotify e \<le> clock (i + 2 * Suc (length es))" by simp
  then consider (later) "clock i < nextNotify e" | (due) "\<not> clock i < nextNotify e" "nextNotify e \<le> clock (i + 2 * Suc (length es))"
    by blast
  then have "subseq (snd (notify_scan clock i (e # es)))
      (filter (\<lambda>e. nextNotify e \<le> clock (i + 2 * Suc (length es))) (e # es))"
  proof cases
    case later
    then have "snd (notify_scan clock i (e # es)) = snd (notify_scan clock (i + 1) es)" unfolding scan_Cons by simp
    moreover have "subseq (filter P es) (filter P (e # es))" for P by (auto intro: list_emb_Cons)
    ultimately show ?thesis using subseq_order.trans [OF le [OF one_le_numeral]] by presburger
  next
    case due
    then have "filter (\<lambda>x. nextNotify x \<le> clock (i + 2 * Suc (length es))) (e # es)
        = e # filter (\<lambda>x. nextNotify x \<le> clock (i + 2 * Suc (length es))) es"
      by (simp only: filter.simps if_True)
    moreover have "snd (notify_scan clock i (e # es)) =
        e # snd (notify_scan clock (i + (if once e then 1 else 2)) es)"
      using due(1) unfolding scan_Cons by simp
    ultimately show ?thesis
      using le [of "if once e then 1 else 2"] by (simp only: subseq_Cons2_iff) (auto split: if_splits)
  qed
  then show ?case by simp
qed simp

lemma scan_stay:
  assumes m: "mono clock" and pos: "\<forall>e \<in> set subs. 0 < notifyInterval e"
  shows "\<forall>e \<in> set (fst (notify_scan clock i subs)). clock i < nextNotify e"
  using pos
proof (induction subs arbitrary: i)
  case (Cons e es)
  have "clock i \<le> clock (i + 1)" "clock i \<le> clock (i + 2)" using m by (simp_all add: mono_def)
  with Cons(1) [of "i + 1"] Cons(1) [of "i + 2"] Cons(2) show ?case
    unfolding scan_Cons by (auto simp: updateNextNotify_def)
qed simp

lemma scan_all_kept:
  "e \<in> set subs \<Longrightarrow>
   timer_key e \<in> timer_key ` set (fst (notify_scan clock i subs)) \<or> once e \<and> e \<in> set (snd (notify_scan clock i subs))"
proof (induction subs arbitrary: i)
  case (Cons x xs)
  then show ?case unfolding scan_Cons by auto
qed simp

lemma foldl_next_time:
  "0 < t \<Longrightarrow> \<forall>e \<in> set subs. 0 < nextNotify e \<Longrightarrow> foldl next_time t subs = Min (insert t (nextNotify ` set subs))"
proof (induction subs arbitrary: t)
  case (Cons e es)
  have "next_time t e = min t (nextNotify e)" using Cons(2) by (auto simp: next_time_def)
  moreover from this have "foldl next_time (next_time t e) es = Min (insert (next_time t e) (nextNotify ` set es))"
    using Cons by (intro Cons.IH) auto
  moreover have "Min (insert (min a b) S) = Min (insert a (insert b S))" if "finite S" for a b :: int and S
    using that by (cases "S = {}") (simp_all add: min.assoc)
  ultimately show ?case by simp
qed simp

section \<open>The thread\<close>

text \<open>
  \<open>triggerWait\<close>: the subscribers are read under their own mutex, the shutdown flag under none,
  while the condition variable is waited on with \<open>waitMutex\<close>; so other threads may run between
  a test and the wait that follows it.
\<close>

datatype timer_pc =
  Test_shutdown | Test_empty | About_to_wait | Waiting | Get_time | About_to_sleep int | Sleeping |
  Notify_due | Terminated

record timer_system =
  timers :: "timer_subscriber list"
  shutdownFlag :: bool
  pc :: timer_pc
  delivered_to :: "timer_subscriber list"

fun wake_timer :: "timer_pc \<Rightarrow> timer_pc" where
  "wake_timer Waiting = Test_shutdown"
| "wake_timer Sleeping = Test_shutdown"
| "wake_timer p = p"

inductive timer_step :: "timer_system \<Rightarrow> timer_system \<Rightarrow> bool" where
  t_shutdown: "pc s = Test_shutdown \<Longrightarrow>
    timer_step s (s\<lparr>pc := (if shutdownFlag s then Terminated else Test_empty)\<rparr>)"
| t_empty: "pc s = Test_empty \<Longrightarrow>
    timer_step s (s\<lparr>pc := (if timers s = [] then About_to_wait else Get_time)\<rparr>)"
| t_wait: "pc s = About_to_wait \<Longrightarrow> timer_step s (s\<lparr>pc := Waiting\<rparr>)"
| t_time: "pc s = Get_time \<Longrightarrow>
    timer_step s (s\<lparr>pc := (if getNextNotifyTime (timers s) - now > 0
      then About_to_sleep (getNextNotifyTime (timers s) - now) else Notify_due)\<rparr>)"
| t_sleep: "pc s = About_to_sleep wait \<Longrightarrow> timer_step s (s\<lparr>pc := Sleeping\<rparr>)"
| t_timeout: "pc s = Sleeping \<Longrightarrow> timer_step s (s\<lparr>pc := Notify_due\<rparr>)"
| t_notify: "\<lbrakk>pc s = Notify_due; notify_scan clock 0 (timers s) = (stay, toNotify)\<rbrakk> \<Longrightarrow>
    timer_step s (s\<lparr>timers := stay, pc := Test_shutdown, delivered_to := delivered_to s @ toNotify\<rparr>)"
| c_add: "addTimerSubscriber now sub interval param isOnce (timers s) = Inr subs' \<Longrightarrow>
    timer_step s (s\<lparr>timers := subs', pc := wake_timer (pc s)\<rparr>)"
| c_remove: "removeTimerSubscriber sub param dontFail (timers s) = Inr (subs', n) \<Longrightarrow>
    timer_step s (s\<lparr>timers := subs', pc := (if n then wake_timer (pc s) else pc s)\<rparr>)"
| c_stop: "timer_step s (s\<lparr>shutdownFlag := True, pc := wake_timer (pc s)\<rparr>)"

definition timer_start :: timer_system where
  "timer_start = \<lparr>timers = [], shutdownFlag = False, pc = Test_shutdown, delivered_to = []\<rparr>"

abbreviation timer_reachable :: "timer_system \<Rightarrow> bool" where
  "timer_reachable \<equiv> reach (\<lambda>s. s = timer_start) timer_step"

lemma timer_begin: "timer_reachable timer_start"
  by (rule reach_init) (rule refl)

lemmas timer_next = reach_step [of "\<lambda>s. s = timer_start" timer_step]

lemma timer_step_distinct: "timer_step s t \<Longrightarrow> timers_distinct (timers s) \<Longrightarrow> timers_distinct (timers t)"
proof (induction rule: timer_step.induct)
  case (t_notify s clock stay toNotify)
  then show ?case using scan_distinct [of "timers s" clock 0] by simp
qed (auto intro: add_distinct remove_distinct)

interpretation timer: step_invariant "\<lambda>s. s = timer_start" timer_step "\<lambda>s. timers_distinct (timers s)"
proof unfold_locales
  show "timers_distinct (timers s)" if "s = timer_start" for s
    using that by (simp add: timer_start_def timers_distinct_def)
qed (rule timer_step_distinct)

section \<open>Properties\<close>

text \<open>
  C36: \<open>notify\<close> is exact up to the time it takes: each subscriber due at its first reading of the
  clock is notified, in order, and nobody who is not due by its last reading; afterwards nothing
  overdue remains, and nobody is lost except notified one-time subscribers.
\<close>

theorem timer_notify_exact:
  assumes "mono clock" and "\<forall>e \<in> set subs. 0 < notifyInterval e" and "notify_scan clock 0 subs = (stay, toNotify)"
  shows "subseq (filter (\<lambda>e. nextNotify e \<le> clock 0) subs) toNotify \<and>
    subseq toNotify (filter (\<lambda>e. nextNotify e \<le> clock (2 * length subs)) subs) \<and>
    (\<forall>e \<in> set stay. clock 0 < nextNotify e) \<and>
    (\<forall>e \<in> set subs. timer_key e \<in> timer_key ` set stay \<or> once e \<and> e \<in> set toNotify)"
  using scan_due [OF assms(1), of 0 subs] scan_only_due [OF assms(1), of 0 subs] scan_stay [OF assms(1,2), of 0]
    scan_all_kept [of _ subs clock 0] assms(3) by auto

text \<open>
  The thread sleeps until the earliest of the subscribers' times.
\<close>

theorem getNextNotifyTime_min:
  assumes "subs \<noteq> []" and "\<forall>e \<in> set subs. 0 < nextNotify e"
  shows "getNextNotifyTime subs = Min (nextNotify ` set subs)"
proof -
  obtain e es where s: "subs = e # es" using assms(1) by (cases subs) auto
  then show ?thesis using assms foldl_next_time [of "nextNotify e" es]
    by (simp add: getNextNotifyTime_def next_time_def)
qed

text \<open>
  In every reachable state no two timers have the same subscriber and parameter.
\<close>

theorem timers_never_twice:
  assumes "timer_reachable s"
  shows "timers_distinct (timers s)"
  using assms by (rule timer.reach_inv)

text \<open>
  Defect. Two wake-ups can be lost, because the condition variable is not waited on under the
  mutex of what was tested: a timer added between the test for an empty list and the wait is
  not served (the thread waits without a time limit beside a timer), and a shutdown between the
  test of the flag and the wait leaves the thread waiting, so that \<open>shutdown\<close> joins forever.
\<close>

theorem timer_lost_wakeups:
  "(\<exists>s. timer_reachable s \<and> pc s = Waiting \<and> timers s \<noteq> [] \<and> \<not> shutdownFlag s) \<and>
   (\<exists>s. timer_reachable s \<and> pc s = Waiting \<and> shutdownFlag s)"
proof -
  let ?a = "timer_start\<lparr>pc := Test_empty\<rparr>" and ?b = "timer_start\<lparr>pc := About_to_wait\<rparr>"
  let ?e = "TimerSubscriberElement 0 7 300 None False"
  have "timer_step timer_start ?a" using t_shutdown [of timer_start] by (simp add: timer_start_def)
  then have a: "timer_reachable ?a" using timer_begin timer_next by blast
  have "timer_step ?a ?b" using t_empty [of ?a] by (simp add: timer_start_def)
  then have b: "timer_reachable ?b" using a timer_next by blast
  have "timer_step ?b (?b\<lparr>timers := [?e]\<rparr>)"
    using c_add [of 0 7 300 None False ?b "[?e]"] by (simp add: timer_start_def addTimerSubscriber_def)
  then have c: "timer_reachable (?b\<lparr>timers := [?e]\<rparr>)" using b timer_next by blast
  have "timer_step (?b\<lparr>timers := [?e]\<rparr>) (?b\<lparr>timers := [?e], pc := Waiting\<rparr>)"
    using t_wait [of "?b\<lparr>timers := [?e]\<rparr>"] by (simp add: timer_start_def)
  then have 1: "timer_reachable (?b\<lparr>timers := [?e], pc := Waiting\<rparr>)" using c timer_next by blast
  have "timer_step ?b (?b\<lparr>shutdownFlag := True\<rparr>)" using c_stop [of ?b] by (simp add: timer_start_def)
  then have d: "timer_reachable (?b\<lparr>shutdownFlag := True\<rparr>)" using b timer_next by blast
  have "timer_step (?b\<lparr>shutdownFlag := True\<rparr>) (?b\<lparr>shutdownFlag := True, pc := Waiting\<rparr>)"
    using t_wait [of "?b\<lparr>shutdownFlag := True\<rparr>"] by (simp add: timer_start_def)
  then have 2: "timer_reachable (?b\<lparr>shutdownFlag := True, pc := Waiting\<rparr>)" using d timer_next by blast
  show ?thesis
    using 1 2 by (intro conjI exI [of _ "?b\<lparr>timers := [?e], pc := Waiting\<rparr>"]
        exI [of _ "?b\<lparr>shutdownFlag := True, pc := Waiting\<rparr>"]) (simp_all add: timer_start_def)
qed

lemma timer_notify_exact_witness:
  "subseq [TimerSubscriberElement 0 1 50 None True]
     (snd (notify_scan (\<lambda>i. 100) 0 [TimerSubscriberElement 0 1 50 None True, TimerSubscriberElement 0 2 500 None False]))"
proof -
  let ?l = "[TimerSubscriberElement 0 1 50 None True, TimerSubscriberElement 0 2 500 None False]"
  have "subseq (filter (\<lambda>e. nextNotify e \<le> (\<lambda>i. 100) (0::nat)) ?l) (snd (notify_scan (\<lambda>i. 100) 0 ?l))"
    by (rule timer_notify_exact [THEN conjunct1])
      (auto simp: mono_def TimerSubscriberElement_def updateNextNotify_def)
  then show ?thesis by (simp add: TimerSubscriberElement_def updateNextNotify_def)
qed

lemma getNextNotifyTime_min_witness:
  "getNextNotifyTime [TimerSubscriberElement 7 1 50 None True, TimerSubscriberElement 0 2 30 None False] = 30"
  using getNextNotifyTime_min [of "[TimerSubscriberElement 7 1 50 None True, TimerSubscriberElement 0 2 30 None False]"]
  by (simp add: TimerSubscriberElement_def updateNextNotify_def)

lemma timers_never_twice_witness: "timers_distinct (timers timer_start)"
  by (rule timers_never_twice [OF timer_begin])

end
