(* ===== verification/Std_Map.thy ===== *)
theory Std_Map
  imports Prelude "HOL-Library.Char_ord" "HOL-Library.List_Lexorder"
begin

text \<open>
  \<open>std::map\<close> as the list of its entries in the order of its iterators: strictly ascending keys.
  Strings compare byte by byte. \<open>emplace\<close> keeps an existing entry, \<open>insert_or_assign\<close> replaces it;
  both keep the contract \<open>std_map\<close>, from which the clients prove what a filled map holds.
\<close>

type_synonym ('k, 'v) smap = "('k \<times> 'v) list"

definition smap_ok :: "('k::linorder, 'v) smap \<Rightarrow> bool" where
  "smap_ok m = sorted_wrt (<) (map fst m)"

fun smap_emplace :: "'k::linorder \<Rightarrow> 'v \<Rightarrow> ('k, 'v) smap \<Rightarrow> ('k, 'v) smap" where
  "smap_emplace k v [] = [(k, v)]"
| "smap_emplace k v ((j, w) # m) =
     (if k < j then (k, v) # (j, w) # m else if k = j then (j, w) # m else (j, w) # smap_emplace k v m)"

fun smap_assign :: "'k::linorder \<Rightarrow> 'v \<Rightarrow> ('k, 'v) smap \<Rightarrow> ('k, 'v) smap" where
  "smap_assign k v [] = [(k, v)]"
| "smap_assign k v ((j, w) # m) =
     (if k < j then (k, v) # (j, w) # m else if k = j then (k, v) # m else (j, w) # smap_assign k v m)"

lemma keys_emplace: "fst ` set (smap_emplace k v m) = insert k (fst ` set m)"
  by (induction k v m rule: smap_emplace.induct) (simp_all add: insert_commute split: if_split)

lemma keys_assign: "fst ` set (smap_assign k v m) = insert k (fst ` set m)"
  by (induction k v m rule: smap_assign.induct) (simp_all add: insert_commute split: if_split)

lemma smap_ok_Cons: "smap_ok ((k, v) # m) \<longleftrightarrow> (\<forall>j \<in> fst ` set m. k < j) \<and> smap_ok m"
  by (simp add: smap_ok_def)

lemma smap_emplace_ok: "smap_ok m \<Longrightarrow> smap_ok (smap_emplace k v m)"
proof (induction m)
  case (Cons a m)
  obtain j w where a: "a = (j, w)" by (cases a)
  with Cons show ?case by (auto simp: smap_ok_Cons keys_emplace)
qed (simp add: smap_ok_def)

lemma smap_assign_ok: "smap_ok m \<Longrightarrow> smap_ok (smap_assign k v m)"
proof (induction m)
  case (Cons a m)
  obtain j w where a: "a = (j, w)" by (cases a)
  with Cons show ?case by (auto simp: smap_ok_Cons keys_assign)
qed (simp add: smap_ok_def)

lemma map_of_less: "smap_ok m \<Longrightarrow> \<forall>j \<in> fst ` set m. k < j \<Longrightarrow> map_of m k = None"
  by (metis map_of_eq_None_iff order_less_irrefl)

lemma lookup_emplace:
  "smap_ok m \<Longrightarrow> map_of (smap_emplace k v m) i =
     (if i = k then (case map_of m k of None \<Rightarrow> Some v | Some w \<Rightarrow> Some w) else map_of m i)"
proof (induction m)
  case (Cons a m)
  obtain j w where a: "a = (j, w)" by (cases a)
  have "map_of m k = None" if "k \<le> j"
    using Cons(2) a that by (intro map_of_less) (auto simp: smap_ok_Cons)
  with Cons a show ?case by (auto simp: smap_ok_Cons)
qed simp

lemma lookup_assign:
  "smap_ok m \<Longrightarrow> map_of (smap_assign k v m) i = (if i = k then Some v else map_of m i)"
proof (induction m)
  case (Cons a m)
  obtain j w where a: "a = (j, w)" by (cases a)
  with Cons show ?case by (auto simp: smap_ok_Cons)
qed simp

lemma lookup_assign_same [simp]: "map_of (smap_assign k v m) k = Some v"
  by (induction k v m rule: smap_assign.induct) auto

text \<open>A map is determined by its lookups.\<close>

lemma smap_ext: "smap_ok m \<Longrightarrow> smap_ok n \<Longrightarrow> map_of m = map_of n \<Longrightarrow> m = n"
proof -
  assume ok: "smap_ok m" "smap_ok n" and eq: "map_of m = map_of n"
  have d: "distinct (map fst m)" "distinct (map fst n)"
    using ok by (auto simp: smap_ok_def strict_sorted_iff)
  then have "(k, v) \<in> set m \<longleftrightarrow> (k, v) \<in> set n" for k v
    using eq by (metis map_of_eq_Some_iff)
  then have "set m = set n" by auto
  moreover have "sorted (map fst m)" "sorted (map fst n)"
    using ok by (auto simp: smap_ok_def strict_sorted_iff)
  ultimately show "m = n" using d by (intro map_sorted_distinct_set_unique [of fst]) (auto simp: distinct_map)
qed

section \<open>The contract of an insertion\<close>

locale std_map =
  fixes put :: "'k::linorder \<Rightarrow> 'v \<Rightarrow> ('k, 'v) smap \<Rightarrow> ('k, 'v) smap"
    and keep :: "'v option \<Rightarrow> 'v \<Rightarrow> 'v"
  assumes put_ok: "smap_ok m \<Longrightarrow> smap_ok (put k v m)"
    and lookup_put: "smap_ok m \<Longrightarrow> map_of (put k v m) i = (if i = k then Some (keep (map_of m k) v) else map_of m i)"
    and keep_new: "keep None v = v"
begin

lemma fill_ok: "smap_ok m \<Longrightarrow> smap_ok (fold (\<lambda>(k, v). put k v) kvs m)"
  by (induction kvs arbitrary: m) (auto intro: put_ok)

text \<open>Entries with keys that are new and differ are looked up as they were put.\<close>

lemma fill_lookup:
  "smap_ok m \<Longrightarrow> distinct (map fst kvs) \<Longrightarrow> \<forall>k \<in> fst ` set kvs. map_of m k = None \<Longrightarrow>
   map_of (fold (\<lambda>(k, v). put k v) kvs m) i = (case map_of kvs i of None \<Rightarrow> map_of m i | Some v \<Rightarrow> Some v)"
proof (induction kvs arbitrary: m)
  case (Cons kv kvs)
  obtain k v where kv: "kv = (k, v)" by (cases kv)
  have ok: "smap_ok (put k v m)" using Cons(2) by (rule put_ok)
  have l: "map_of (put k v m) j = (if j = k then Some v else map_of m j)" for j
    using Cons(2,4) kv by (simp add: lookup_put keep_new)
  have "map_of (fold (\<lambda>(k, v). put k v) kvs (put k v m)) i =
      (case map_of kvs i of None \<Rightarrow> map_of (put k v m) i | Some v \<Rightarrow> Some v)"
    by (rule Cons.IH [OF ok]) (use Cons(3,4) kv l in auto)
  moreover have "map_of kvs k = None" using Cons(3) kv by (simp add: map_of_eq_None_iff)
  ultimately show ?case using kv l by (auto split: option.splits)
qed simp

text \<open>Filling an empty map from the entries of a map gives that map.\<close>

lemma refill:
  assumes "smap_ok kvs"
  shows "fold (\<lambda>(k, v). put k v) kvs [] = kvs"
proof (rule smap_ext)
  have "distinct (map fst kvs)" using assms by (simp add: smap_ok_def strict_sorted_iff)
  then show "map_of (fold (\<lambda>(k, v). put k v) kvs []) = map_of kvs"
    using fill_lookup [of "[]" kvs] by (intro ext) (auto simp: smap_ok_def split: option.splits)
  show "smap_ok (fold (\<lambda>(k, v). put k v) kvs [])" by (rule fill_ok) (simp add: smap_ok_def)
qed (rule assms)

end

interpretation emplace: std_map smap_emplace "\<lambda>old v. case old of None \<Rightarrow> v | Some w \<Rightarrow> w"
  by unfold_locales (auto simp: smap_emplace_ok lookup_emplace split: option.splits)

interpretation assign: std_map smap_assign "\<lambda>old v. v"
  by unfold_locales (auto simp: smap_assign_ok lookup_assign)

end
