(* ===== verification/URL_Utils.thy ===== *)
theory URL_Utils
  imports Tools_Text Std_Map
begin

text \<open>
  \<open>src/src/util/url_utils.cc\<close>: escaping, the encodings of dictionaries and paths, and the
  resolution of references (RFC 3986). The UTF-8 validation of the string converter is a parameter.
\<close>

datatype url_error = Forbidden_separator

datatype UrlMode = Form | FilePath

section \<open>Splitting\<close>

definition rfind_char :: "char \<Rightarrow> string \<Rightarrow> nat option" where
  "rfind_char c s = map_option (\<lambda>i. length s - Suc i) (find_char c (rev s))"

definition split_at_pos :: "string \<Rightarrow> nat option \<Rightarrow> string \<times> string" where
  "split_at_pos url pos = (case pos of None \<Rightarrow> (url, []) | Some p \<Rightarrow> (take p url, drop (p + 1) url))"

definition splitUrl :: "string \<Rightarrow> char \<Rightarrow> url_error + string \<times> string" where
  "splitUrl url separator =
     (if separator = CHR ''/'' then Inr (split_at_pos url (rfind_char separator url))
      else if separator = CHR ''?'' \<or> separator = CHR ''#'' \<or> separator = CHR '':''
        then Inr (split_at_pos url (find_char separator url))
      else Inl Forbidden_separator)"

definition getQuery :: "string \<Rightarrow> url_error + string" where
  "getQuery url = bindE (splitUrl url (CHR ''?'')) (\<lambda>r. Inr (snd r))"

definition getFile :: "string \<Rightarrow> url_error + string" where
  "getFile url = bindE (splitUrl url (CHR ''?'')) (\<lambda>r. Inr (fst r))"

definition joinUrl :: "string list \<Rightarrow> bool \<Rightarrow> string \<Rightarrow> string" where
  "joinUrl components addToEnd separator =
     (if components = [] then separator
      else separator @ join separator components @ (if addToEnd then separator else []))"

section \<open>Escaping\<close>

definition hexCharS2 :: string where
  "hexCharS2 = ''0123456789ABCDEF''"

definition unreserved :: "bool \<Rightarrow> char \<Rightarrow> bool" where
  "unreserved path c =
     (isalnum c \<or> c = CHR ''_'' \<or> c = CHR ''-'' \<or> c = CHR ''.'' \<or>
      (path \<and> (c = CHR ''/'' \<or> c = CHR ''~'' \<or> c = CHR '':'')))"

text \<open>The length of the code point announced by a lead byte, 1 when the text is too short.\<close>

definition cp_length :: "bool \<Rightarrow> string \<Rightarrow> nat" where
  "cp_length path s =
     (let c = code_of (hd s);
          n = (if and c 0xf8 = 0xf0 then 4 else if and c 0xf0 = 0xe0 then 3
               else if and c 0xe0 = 0xc0 then 2 else 1)
      in if path \<or> n > length s then 1 else n)"

definition percent :: "char \<Rightarrow> string" where
  "percent c = [CHR ''%'', hexCharS2 ! (code_of c div 16), hexCharS2 ! (code_of c mod 16)]"

lemma cp_length_pos [simp]: "0 < cp_length path s"
  by (simp add: cp_length_def Let_def)

function escape_from :: "bool \<Rightarrow> string \<Rightarrow> string" where
  "escape_from path [] = []"
| "escape_from path (c # cs) =
     (let cplen = cp_length path (c # cs) in
      (if unreserved path c then [c] else if cplen > 1 then take cplen (c # cs) else percent c) @
      escape_from path (drop cplen (c # cs)))"
  by pat_completeness auto
termination
proof (relation "measure (\<lambda>(path, s). length s)")
  show "((path, drop cplen (c # cs)), path, c # cs) \<in> measure (\<lambda>(path, s). length s)"
    if "cplen = cp_length path (c # cs)" for path c cs cplen
    using cp_length_pos [of path "c # cs"] that by simp
qed simp

declare escape_from.simps(2) [simp del]

definition urlEscape :: "UrlMode \<Rightarrow> string \<Rightarrow> string" where
  "urlEscape mode str = escape_from (mode = FilePath) str"

text \<open>
  \<open>strchr(hexCharS2, c)\<close> less the start, 0 when not found; the terminating NUL is found at 16.
\<close>

definition hex_pos :: "char \<Rightarrow> nat" where
  "hex_pos c = (if c = CHR 0x00 then 16 else case find_char c hexCharS2 of Some i \<Rightarrow> i | None \<Rightarrow> 0)"

fun urlUnescape :: "string \<Rightarrow> string" where
  "urlUnescape [] = []"
| "urlUnescape (c # cs) =
     (if c = CHR ''%'' then
        (case cs of
           chi # clo # rest \<Rightarrow> char_of (or (hex_pos chi * 16) (hex_pos clo)) # urlUnescape rest
         | _ \<Rightarrow> [])
      else if c = CHR ''+'' then CHR '' '' # urlUnescape cs
      else c # urlUnescape cs)"

text \<open>The validation in front of the decoder for URIs: \<open>None\<close> is a refused escape.\<close>

definition upper_hex :: "char \<Rightarrow> char" where
  "upper_hex c = (if 97 \<le> code_of c \<and> code_of c \<le> 102 then char_of (code_of c - 32) else c)"

definition is_hex :: "char \<Rightarrow> bool" where
  "is_hex c = (c \<noteq> CHR 0x00 \<and> c \<in> set hexCharS2)"

fun encode_checked :: "string \<Rightarrow> string option" where
  "encode_checked [] = Some []"
| "encode_checked (c # cs) =
     (if c = CHR ''+'' then map_option (\<lambda>r. ''%2B'' @ r) (encode_checked cs)
      else if c \<noteq> CHR ''%'' then map_option (\<lambda>r. c # r) (encode_checked cs)
      else case cs of
        a # b # rest \<Rightarrow>
          if is_hex (upper_hex a) \<and> is_hex (upper_hex b)
          then map_option (\<lambda>r. [c, upper_hex a, upper_hex b] @ r) (encode_checked rest) else None
      | _ \<Rightarrow> None)"

definition urlUnescapeMode :: "(string \<Rightarrow> bool) \<Rightarrow> string \<Rightarrow> UrlMode \<Rightarrow> string option" where
  "urlUnescapeMode validate str mode =
     (if mode = Form then Some (urlUnescape str)
      else case encode_checked str of
        None \<Rightarrow> None
      | Some encoded \<Rightarrow>
          (let result = urlUnescape encoded
           in if CHR 0x00 \<in> set result \<or> \<not> validate result then None else Some result))"

section \<open>Dictionaries and paths\<close>

definition dict_items :: "(string, string) smap \<Rightarrow> string \<Rightarrow> string list" where
  "dict_items dict sep2 = map (\<lambda>(k, v). urlEscape Form k @ sep2 @ urlEscape Form v) dict"

definition dictEncode :: "(string, string) smap \<Rightarrow> string" where
  "dictEncode dict = join ''&'' (dict_items dict ''='')"

definition dictEncodeSimple :: "(string, string) smap \<Rightarrow> string" where
  "dictEncodeSimple dict = join ''/'' (dict_items dict ''/'')"

text \<open>
  \<open>strchr\<close> on the bytes from a position on: it stops at a NUL byte, not at the end of the view.
\<close>

definition cstr_find :: "char \<Rightarrow> string \<Rightarrow> nat option" where
  "cstr_find c s = find_char c (takeWhile (\<lambda>x. x \<noteq> CHR 0x00) s)"

text \<open>
  \<open>dictDecode\<close> on a view that ends at \<open>dataEnd\<close> in the memory \<open>mem\<close> up to its NUL byte.
\<close>

function decode_loop :: "(string \<Rightarrow> string) \<Rightarrow> string \<Rightarrow> nat \<Rightarrow> nat \<Rightarrow> (string, string) smap \<Rightarrow> (string, string) smap" where
  "decode_loop f mem dataEnd data dict =
     (if data < dataEnd then
        let ampPos = (case cstr_find (CHR ''&'') (drop data mem) of None \<Rightarrow> dataEnd | Some i \<Rightarrow> data + i);
            dict' = (case cstr_find (CHR ''='') (drop data mem) of
                       None \<Rightarrow> dict
                     | Some i \<Rightarrow> if data + i < ampPos
                         then smap_emplace (f (substr mem data i)) (f (substr mem (data + i + 1) (ampPos - (data + i) - 1))) dict
                         else dict)
        in decode_loop f mem dataEnd (ampPos + 1) dict'
      else dict)"
  by pat_completeness auto
termination
  by (relation "measure (\<lambda>(u, mem, dataEnd, data, dict). dataEnd - data)") (auto split: option.splits)

declare decode_loop.simps [simp del]

text \<open>
  The macro \<open>GrbUrlUnescape\<close> of \<open>upnp/compat.h\<close>: built against npupnp it decodes twice, because
  that library encodes the arguments of a request once more.
\<close>

definition GrbUrlUnescape :: "bool \<Rightarrow> string \<Rightarrow> string" where
  "GrbUrlUnescape npupnp s = (if npupnp then urlUnescape (urlUnescape s) else urlUnescape s)"

definition dictDecode :: "bool \<Rightarrow> string \<Rightarrow> string \<Rightarrow> bool \<Rightarrow> (string, string) smap" where
  "dictDecode npupnp url after unEscape =
     decode_loop (if unEscape then GrbUrlUnescape npupnp else id) (url @ after) (length url) 0 []"

function path_loop :: "string \<Rightarrow> nat \<Rightarrow> (string, string) smap \<Rightarrow> (string, string) smap" where
  "path_loop url lastPos m =
     (let size0 = length url;
          pos1 = (case find_from (CHR ''/'') url lastPos of None \<Rightarrow> size0 | Some i \<Rightarrow> i);
          key = urlUnescape (substr url lastPos (pos1 - lastPos));
          last1 = (if pos1 = size0 then size0 else pos1 + 1);
          pos2 = (case find_from (CHR ''/'') url last1 of None \<Rightarrow> size0 | Some i \<Rightarrow> i);
          val = urlUnescape (substr url last1 (pos2 - last1));
          m' = smap_emplace key val m
      in if pos2 + 1 < size0 \<and> lastPos < size0 then path_loop url (pos2 + 1) m' else m')"
  by pat_completeness auto
termination
  by (relation "measure (\<lambda>(url, lastPos, m). length url - lastPos)")
    (auto simp: Let_def dest!: find_from_Some split: option.splits if_splits)

declare path_loop.simps [simp del]

definition pathToMap :: "string \<Rightarrow> (string, string) smap" where
  "pathToMap url = path_loop url 0 []"

definition parseParameters :: "string \<Rightarrow> string \<Rightarrow> tools_error + (string, string) smap" where
  "parseParameters filename baseLink =
     (if length baseLink > length filename then Inl Out_of_range
      else Inr (pathToMap (drop (length baseLink) filename)))"

section \<open>References\<close>

record Url =
  scheme :: string
  authority :: string
  uri_path :: string
  query :: string
  fragment :: string
  hasAuthority :: bool
  hasQuery :: bool
  hasFragment :: bool

definition splitUri :: "string \<Rightarrow> Url" where
  "splitUri text0 =
     (let (text1, frag) = split_at_pos text0 (find_char (CHR ''#'') text0);
          (text2, qry) = split_at_pos text1 (find_char (CHR ''?'') text1);
          colon = find_char (CHR '':'') text2;
          slash = find_char (CHR ''/'') text2;
          isScheme = (case colon of None \<Rightarrow> False | Some p \<Rightarrow> (case slash of None \<Rightarrow> True | Some s \<Rightarrow> p < s));
          (schm, text3) = (if isScheme then split_at_pos text2 colon else ([], text2));
          isAuth = (take 2 text3 = ''//'');
          pos = find_from (CHR ''/'') text3 2
      in \<lparr>scheme = toLower schm,
          authority = (if isAuth then (case pos of None \<Rightarrow> drop 2 text3 | Some p \<Rightarrow> substr text3 2 (p - 2)) else []),
          uri_path = (if isAuth then (case pos of None \<Rightarrow> [] | Some p \<Rightarrow> drop p text3) else text3),
          query = qry, fragment = frag, hasAuthority = isAuth,
          hasQuery = (length text2 \<noteq> length text1), hasFragment = (length text1 \<noteq> length text0)\<rparr>)"

definition joinUri :: "Url \<Rightarrow> string" where
  "joinUri uri =
     (if scheme uri = [] then [] else scheme uri @ '':'') @
     (if hasAuthority uri then ''//'' @ authority uri else []) @
     uri_path uri @
     (if hasQuery uri then ''?'' @ query uri else []) @
     (if hasFragment uri then ''#'' @ fragment uri else [])"

text \<open>The output up to its last slash.\<close>

definition up_to_slash :: "string \<Rightarrow> string" where
  "up_to_slash s = (case rfind_char (CHR ''/'') s of None \<Rightarrow> [] | Some p \<Rightarrow> take p s)"

definition segment_end :: "string \<Rightarrow> nat option" where
  "segment_end s = find_from (CHR ''/'') s (if hd s = CHR ''/'' then 1 else 0)"

function remove_dots :: "string \<Rightarrow> string \<Rightarrow> string" where
  "remove_dots inp outp =
     (if inp = [] then outp
      else if prefix ''../'' inp then remove_dots (drop 3 inp) outp
      else if prefix ''./'' inp then remove_dots (drop 2 inp) outp
      else if prefix ''/./'' inp \<or> inp = ''/.'' then remove_dots (CHR ''/'' # drop 3 inp) outp
      else if prefix ''/../'' inp \<or> inp = ''/..'' then remove_dots (CHR ''/'' # drop 4 inp) (up_to_slash outp)
      else if inp = ''.'' \<or> inp = ''..'' then remove_dots [] outp
      else (case segment_end inp of
              None \<Rightarrow> remove_dots [] (outp @ inp)
            | Some e \<Rightarrow> remove_dots (drop e inp) (outp @ take e inp)))"
  by pat_completeness auto
termination
proof (relation "measure (\<lambda>(inp, outp). length inp)")
  show "((drop e inp, outp @ take e inp), inp, outp) \<in> measure (\<lambda>(inp, outp). length inp)"
    if "inp \<noteq> []" "segment_end inp = Some e" for inp outp e
  proof -
    have "0 < e" "e < length inp"
      using that by (cases inp; auto simp: segment_end_def dest!: find_from_Some split: if_splits intro: gr0I)+
    then show ?thesis by simp
  qed
qed (auto simp: prefix_def)

declare remove_dots.simps [simp del]

definition removeDotSegments :: "string \<Rightarrow> string" where
  "removeDotSegments inp = remove_dots inp []"

definition resolveUriReference :: "string \<Rightarrow> string \<Rightarrow> string" where
  "resolveUriReference reference base =
     (let r = splitUri reference;
          parent = splitUri base;
          r1 =
            (if scheme r \<noteq> [] then r
             else let r0 = r\<lparr>scheme := scheme parent\<rparr> in
               if hasAuthority r then r0
               else let ra = r0\<lparr>hasAuthority := hasAuthority parent, authority := authority parent\<rparr> in
                 if uri_path r = [] then
                   (let rp = ra\<lparr>uri_path := uri_path parent\<rparr>
                    in if hasQuery r then rp else rp\<lparr>hasQuery := hasQuery parent, query := query parent\<rparr>)
                 else if hd (uri_path r) \<noteq> CHR ''/'' then
                   ra\<lparr>uri_path := (case rfind_char (CHR ''/'') (uri_path parent) of
                        None \<Rightarrow> if hasAuthority parent then ''/'' else []
                      | Some s \<Rightarrow> take (s + 1) (uri_path parent)) @ uri_path r\<rparr>
                 else ra)
      in joinUri (r1\<lparr>uri_path := removeDotSegments (uri_path r1)\<rparr>))"

end
