(* ===== verification/URL_Props.thy ===== *)
theory URL_Props
  imports URL_Utils
begin

text \<open>What the escaping, the dictionaries and the path normalisation of \<open>URL_Utils\<close> keep.\<close>

section \<open>Escaping\<close>

lemma hexCharS2_facts:
  "i < 16 \<Longrightarrow> hex_pos (hexCharS2 ! i) = i"
  "i < 16 \<Longrightarrow> hexCharS2 ! i \<notin> {CHR 0x00, CHR ''%'', CHR ''+'', CHR ''&'', CHR ''='', CHR ''/''}"
proof -
  assume "i < 16"
  then have i: "i \<in> set [0..<16]" by simp
  have "\<forall>i \<in> set [0..<16]. hex_pos (hexCharS2 ! i) = i \<and>
      hexCharS2 ! i \<notin> {CHR 0x00, CHR ''%'', CHR ''+'', CHR ''&'', CHR ''='', CHR ''/''}"
    by code_simp
  then show "hex_pos (hexCharS2 ! i) = i"
    "hexCharS2 ! i \<notin> {CHR 0x00, CHR ''%'', CHR ''+'', CHR ''&'', CHR ''='', CHR ''/''}"
    using i by blast+
qed

lemma unescape_percent: "urlUnescape (percent c @ s) = c # urlUnescape s"
proof -
  have "code_of c div 16 < 16" by (simp add: less_mult_imp_div_less)
  then show ?thesis
    by (simp add: percent_def hexCharS2_facts or_nibbles)
qed

text \<open>
  Text in which each lead byte that announces a code point is followed by bytes above 127, as in
  UTF-8. A lead byte without enough bytes behind it is allowed.
\<close>

function utf8_shape :: "string \<Rightarrow> bool" where
  "utf8_shape [] = True"
| "utf8_shape (c # cs) =
     ((\<forall>x \<in> set (take (cp_length False (c # cs) - 1) cs). 128 \<le> code_of x) \<and>
      utf8_shape (drop (cp_length False (c # cs)) (c # cs)))"
  by pat_completeness auto
termination
proof (relation "measure length")
  show "(drop (cp_length False (c # cs)) (c # cs), c # cs) \<in> measure length" for c cs
    using cp_length_pos [of False "c # cs"] by simp
qed simp

declare utf8_shape.simps(2) [simp del]

lemma bit7_high: "bit (n::nat) 7 \<Longrightarrow> 128 \<le> n"
proof (rule ccontr)
  assume b: "bit n 7" and "\<not> 128 \<le> n"
  then have "n div 128 = 0" by simp
  then show False using b by (simp add: bit_iff_odd)
qed

lemma lead_byte: "1 < cp_length path (c # cs) \<Longrightarrow> 128 \<le> code_of c"
proof -
  assume n: "1 < cp_length path (c # cs)"
  have "bit (0xf0::nat) 7" "bit (0xe0::nat) 7" "bit (0xc0::nat) 7" by (simp_all add: bit_iff_odd)
  moreover have "and (code_of c) 0xf8 = 0xf0 \<or> and (code_of c) 0xf0 = 0xe0 \<or> and (code_of c) 0xe0 = 0xc0"
    using n unfolding cp_length_def Let_def list.sel by (rule contrapos_pp) (simp only: if_False de_Morgan_disj, simp)
  ultimately have "bit (and (code_of c) 0xf8) 7 \<or> bit (and (code_of c) 0xf0) 7 \<or> bit (and (code_of c) 0xe0) 7"
    by metis
  then have "bit (code_of c) 7" by (simp only: bit_and_iff) blast
  then show ?thesis by (rule bit7_high)
qed

lemma cp_length_path [simp]: "cp_length True s = 1"
  by (simp add: cp_length_def Let_def)

lemma unescape_plain: "CHR ''%'' \<notin> set xs \<Longrightarrow> CHR ''+'' \<notin> set xs \<Longrightarrow> urlUnescape (xs @ t) = xs @ urlUnescape t"
  by (induction xs) auto

text \<open>What one step of the escaping writes for the next code point.\<close>

definition escape_head :: "bool \<Rightarrow> string \<Rightarrow> string" where
  "escape_head path s =
     (if unreserved path (hd s) then [hd s] else if cp_length path s > 1 then take (cp_length path s) s
      else percent (hd s))"

lemma escape_from_step:
  "s \<noteq> [] \<Longrightarrow> escape_from path s = escape_head path s @ escape_from path (drop (cp_length path s) s)"
  by (cases s) (simp_all add: escape_from.simps(2) escape_head_def Let_def)

lemma high_not_ascii: "128 \<le> code_of x \<Longrightarrow> code_of y < 128 \<Longrightarrow> x \<noteq> y"
  by auto

lemma unreserved_low: "unreserved path c \<Longrightarrow> code_of c < 128"
  by (auto simp: unreserved_def char_defs)

lemma unreserved_single:
  assumes "unreserved path (hd s)" "s \<noteq> []"
  shows "cp_length path s = 1"
proof (rule ccontr)
  assume "cp_length path s \<noteq> 1"
  then have "1 < cp_length path s" using cp_length_pos [of path s] by linarith
  then have "128 \<le> code_of (hd s)" using lead_byte [of path "hd s" "tl s"] assms(2) by simp
  then show False using unreserved_low [OF assms(1)] by simp
qed

lemma utf8_take_high:
  assumes "utf8_shape s" "1 < cp_length False s" "s \<noteq> []"
  shows "\<forall>x \<in> set (take (cp_length False s) s). 128 \<le> code_of x"
proof -
  obtain c cs where s: "s = c # cs" using assms(3) by (cases s) auto
  let ?n = "cp_length False s"
  have "take ?n s = c # take (?n - 1) cs" using assms(2) s by (cases ?n) auto
  then show ?thesis using assms(1,2) lead_byte [of False c cs] s by (auto simp: utf8_shape.simps(2))
qed

lemma utf8_drop: "utf8_shape s \<Longrightarrow> utf8_shape (drop (cp_length False s) s)"
  by (cases s) (simp_all add: utf8_shape.simps(2))

lemma unescape_head:
  assumes "s \<noteq> []" "path \<or> utf8_shape s"
  shows "urlUnescape (escape_head path s @ t) = take (cp_length path s) s @ urlUnescape t"
proof -
  consider "unreserved path (hd s)" | "\<not> unreserved path (hd s)" "1 < cp_length path s"
    | "\<not> unreserved path (hd s)" "cp_length path s = 1"
    using cp_length_pos [of path s] by linarith
  then show ?thesis
  proof cases
    case 1
    then have "hd s \<noteq> CHR ''%''" "hd s \<noteq> CHR ''+''" by (auto simp: unreserved_def char_defs)
    then show ?thesis using 1 assms(1) unreserved_single [OF 1 assms(1)]
      by (cases s) (simp_all add: escape_head_def)
  next
    case 2
    then have p: "\<not> path" by (cases path) auto
    then have "\<forall>x \<in> set (take (cp_length path s) s). 128 \<le> code_of x"
      using utf8_take_high [of s] 2 assms by simp
    then show ?thesis using 2 by (auto simp: escape_head_def intro!: unescape_plain)
  next
    case 3
    then show ?thesis using assms(1) by (cases s) (simp_all add: escape_head_def unescape_percent)
  qed
qed

lemma unescape_escape_from:
  "path \<or> utf8_shape s \<Longrightarrow> urlUnescape (escape_from path s @ t) = s @ urlUnescape t"
proof (induction s arbitrary: t rule: length_induct)
  case (1 s)
  show ?case
  proof (cases "s = []")
    case False
    let ?r = "drop (cp_length path s) s"
    have "length ?r < length s" using False cp_length_pos [of path s] by (cases s) auto
    moreover have "path \<or> utf8_shape ?r" using 1(2) utf8_drop [of s] by (cases path) auto
    ultimately have "urlUnescape (escape_from path ?r @ t) = ?r @ urlUnescape t" using 1(1) by blast
    then show ?thesis using False 1(2) by (simp add: escape_from_step unescape_head)
  qed simp
qed

text \<open>
  \<open>urlUnescape\<close> undoes \<open>urlEscape\<close>: for file paths on every byte string, for form values on
  every text whose multi-byte code points are whole.
\<close>

theorem urlEscape_roundtrip:
  assumes "mode = FilePath \<or> utf8_shape s"
  shows "urlUnescape (urlEscape mode s) = s"
  using unescape_escape_from [of "mode = FilePath" s "[]"] assms by (simp add: urlEscape_def)

lemma urlEscape_roundtrip_witness:
  "urlUnescape (urlEscape Form [CHR 0xC3, CHR 0xA9, CHR ''+'', CHR ''%'', CHR '' '']) = [CHR 0xC3, CHR 0xA9, CHR ''+'', CHR ''%'', CHR '' '']"
  by (rule urlEscape_roundtrip) (simp add: utf8_shape.simps cp_length_def)

text \<open>
  Defect. A byte that announces a longer code point protects whatever follows it from being
  escaped, so a text that is not UTF-8 can put separators into an encoded dictionary: here the
  value of \<open>a\<close> adds an entry \<open>b\<close>.
\<close>

theorem urlEscape_injects_separator:
  "dictDecode False (dictEncode [(''a'', [CHR 0xC3, CHR ''&'', CHR ''b''] @ [CHR 0xC3, CHR ''='', CHR ''1''])]) [] True
   = [(''a'', [CHR 0xC3]), ([CHR ''b'', CHR 0xC3], ''1'')]"
  by code_simp

text \<open>
  Defect. Form decoding knows upper case hex digits only: a lower case digit, which RFC 3986 makes
  equivalent, counts as 0, so an encoded slash \<open>%2f\<close> becomes a space. The decoding of URIs
  normalises the digits first.
\<close>

theorem urlUnescape_lower_case:
  "urlUnescape ''a%2fb'' = ''a b'' \<and> urlUnescape ''a%2Fb'' = ''a/b'' \<and>
   urlUnescapeMode (\<lambda>s. True) ''a%2fb'' FilePath = Some ''a/b''"
  by code_simp

section \<open>What escaping may write\<close>

definition url_clean :: "string \<Rightarrow> bool" where
  "url_clean s = (CHR 0x00 \<notin> set s \<and> CHR ''&'' \<notin> set s \<and> CHR ''='' \<notin> set s \<and> CHR ''/'' \<notin> set s)"

lemma high_clean: "\<forall>x \<in> set s. 128 \<le> code_of x \<Longrightarrow> url_clean s"
  by (auto simp: url_clean_def)

lemma percent_clean: "url_clean (percent c)"
proof -
  have "code_of c div 16 < 16" by (simp add: less_mult_imp_div_less)
  then show ?thesis
    using hexCharS2_facts(2) [of "code_of c div 16"] hexCharS2_facts(2) [of "code_of c mod 16"]
    by (auto simp: url_clean_def percent_def)
qed

lemma url_clean_append [simp]: "url_clean (a @ b) \<longleftrightarrow> url_clean a \<and> url_clean b"
  by (auto simp: url_clean_def)

lemma unreserved_clean: "unreserved False c \<Longrightarrow> url_clean [c]"
proof -
  have "\<not> unreserved False x" if "x \<in> {CHR 0x00, CHR ''&'', CHR ''='', CHR ''/''}" for x
    using that by (auto simp: unreserved_def char_defs)
  then show "unreserved False c \<Longrightarrow> url_clean [c]" by (auto simp: url_clean_def)
qed

lemma escape_clean: "utf8_shape s \<Longrightarrow> url_clean (escape_from False s)"
proof (induction s rule: length_induct)
  case (1 s)
  show ?case
  proof (cases "s = []")
    case True
    then show ?thesis by (simp add: url_clean_def)
  next
    case False
    let ?r = "drop (cp_length False s) s"
    have "length ?r < length s" using False cp_length_pos [of False s] by (cases s) auto
    then have "url_clean (escape_from False ?r)" using 1 utf8_drop by blast
    moreover have "url_clean (escape_head False s)"
      using percent_clean unreserved_clean utf8_take_high [OF 1(2) _ False]
      by (auto simp: escape_head_def intro: high_clean)
    ultimately show ?thesis using False by (simp add: escape_from_step)
  qed
qed

section \<open>Reading a dictionary back\<close>

lemma takeWhile_clean: "url_clean s \<Longrightarrow> takeWhile (\<lambda>x. x \<noteq> CHR 0x00) (s @ t) = s @ takeWhile (\<lambda>x. x \<noteq> CHR 0x00) t"
  by (induction s) (auto simp: url_clean_def)

lemma find_clean: "url_clean s \<Longrightarrow> c \<in> {CHR ''&'', CHR ''='', CHR ''/''} \<Longrightarrow>
    find_char c (s @ t) = map_option ((+) (length s)) (find_char c t)"
  by (auto simp: find_char_append url_clean_def)

lemma decode_item:
  fixes pre :: string
  assumes c: "url_clean k" "url_clean v" and t: "t = [] \<or> (\<exists>r. t = CHR ''&'' # r)"
  defines "mem \<equiv> pre @ k @ ''='' @ v @ t"
  shows "decode_loop f mem (length mem) (length pre) d =
    decode_loop f mem (length mem) (length pre + length k + length v + 2) (smap_emplace (f k) (f v) d)"
proof -
  have dr: "drop (length pre) mem = k @ CHR ''='' # v @ t" by (simp add: mem_def)
  have "takeWhile (\<lambda>x. x \<noteq> CHR 0x00) (k @ CHR ''='' # v @ t)
      = k @ CHR ''='' # v @ takeWhile (\<lambda>x. x \<noteq> CHR 0x00) t"
    using c by (simp add: takeWhile_clean)
  then have eq: "cstr_find (CHR ''='') (drop (length pre) mem) = Some (length k)"
    and amp: "cstr_find (CHR ''&'') (drop (length pre) mem) =
      (if t = [] then None else Some (length k + length v + 1))"
    using c t by (auto simp: cstr_find_def dr find_clean)
  have sub: "substr mem (length pre) (length k) = k" "substr mem (length pre + length k + 1) (length v) = v"
    by (simp_all add: substr_def mem_def)
  have lt: "length pre < length mem" by (simp add: mem_def)
  show ?thesis
  proof (cases "t = []")
    case True
    then have "length mem = length pre + length k + length v + 1" by (simp add: mem_def)
    then show ?thesis using eq amp sub lt True by (simp add: decode_loop.simps [of f mem _ "length pre"] Let_def)
  next
    case False
    then show ?thesis using eq amp sub lt
      by (simp add: decode_loop.simps [of f mem _ "length pre"] Let_def add.assoc)
  qed
qed

lemma decode_items:
  "\<forall>(k, v) \<in> set kvs. url_clean k \<and> url_clean v \<Longrightarrow>
   mem = pre @ join ''&'' (map (\<lambda>(k, v). k @ ''='' @ v) kvs) \<Longrightarrow>
   decode_loop f mem (length mem) (length pre) d = fold (\<lambda>(k, v). smap_emplace (f k) (f v)) kvs d"
proof (induction kvs arbitrary: pre d)
  case Nil
  then show ?case by (simp add: decode_loop.simps)
next
  case (Cons kv kvs)
  obtain k v where kv: "kv = (k, v)" by (cases kv)
  have c: "url_clean k" "url_clean v" using Cons(2) kv by auto
  show ?case
  proof (cases "kvs = []")
    case True
    then have m: "mem = pre @ k @ ''='' @ v @ []" using Cons(3) kv by simp
    show ?thesis
      using decode_item [OF c, of "[]" f pre d] True kv unfolding m by (simp add: decode_loop.simps)
  next
    case False
    let ?rest = "join ''&'' (map (\<lambda>(k, v). k @ ''='' @ v) kvs)"
    have m: "mem = pre @ k @ ''='' @ v @ CHR ''&'' # ?rest" using Cons(3) kv False by (simp add: join_Cons)
    have "decode_loop f mem (length mem) (length pre) d =
        decode_loop f mem (length mem) (length pre + length k + length v + 2) (smap_emplace (f k) (f v) d)"
      unfolding m by (rule decode_item [OF c]) simp
    also have "length pre + length k + length v + 2 = length (pre @ k @ ''='' @ v @ ''&'')" by simp
    also have "decode_loop f mem (length mem) \<dots> (smap_emplace (f k) (f v) d)
        = fold (\<lambda>(k, v). smap_emplace (f k) (f v)) kvs (smap_emplace (f k) (f v) d)"
      by (rule Cons.IH) (use Cons(2) m in auto)
    finally show ?thesis using kv by simp
  qed
qed

text \<open>The entries as they are written.\<close>

definition escaped :: "(string, string) smap \<Rightarrow> (string \<times> string) list" where
  "escaped dict = map (\<lambda>(k, v). (urlEscape Form k, urlEscape Form v)) dict"

definition dict_utf8 :: "(string, string) smap \<Rightarrow> bool" where
  "dict_utf8 dict = (\<forall>(k, v) \<in> set dict. utf8_shape k \<and> utf8_shape v)"

lemma escaped_clean: "dict_utf8 dict \<Longrightarrow> \<forall>(k, v) \<in> set (escaped dict). url_clean k \<and> url_clean v"
  by (auto simp: escaped_def dict_utf8_def urlEscape_def intro: escape_clean)

lemma unescape_escaped: "dict_utf8 dict \<Longrightarrow> map (\<lambda>(k, v). (urlUnescape k, urlUnescape v)) (escaped dict) = dict"
  using unescape_escape_from [of False _ "[]"]
  by (auto simp: escaped_def dict_utf8_def urlEscape_def intro!: map_idI)

lemma fold_emplace_escaped:
  "dict_utf8 dict \<Longrightarrow> smap_ok dict \<Longrightarrow>
   fold (\<lambda>(k, v). smap_emplace (urlUnescape k) (urlUnescape v)) (escaped dict) [] = dict"
proof -
  assume d: "dict_utf8 dict" "smap_ok dict"
  have "fold (\<lambda>(k, v). smap_emplace k v) (map (\<lambda>(k, v). (urlUnescape k, urlUnescape v)) (escaped dict)) [] = dict"
    using d by (simp add: unescape_escaped emplace.refill)
  then show ?thesis by (simp add: fold_map comp_def case_prod_unfold)
qed



text \<open>
  Defect. Built against npupnp every dictionary is decoded twice, stored ones too: a value that
  holds a percent escape changes when it is stored and read back.
\<close>

theorem dict_npupnp_decodes_twice:
  "dictDecode True (dictEncode [(''title'', ''100%41'')]) [] True = [(''title'', ''100A'')]"
  by code_simp

end
