(* ===== verification/URL_Paths.thy ===== *)
theory URL_Paths
  imports URL_Props
begin

text \<open>
  Paths and references of \<open>URL_Utils\<close>: the path encoding of dictionaries, the removal of dot
  segments (RFC 3986, 5.2.4) and the splitting of a URI into its parts.
\<close>

section \<open>Path encoding\<close>

lemma no_slash_clean: "url_clean s \<Longrightarrow> CHR ''/'' \<notin> set s"
  by (simp add: url_clean_def)

lemma path_item:
  fixes pre :: string
  assumes c: "CHR ''/'' \<notin> set k" "CHR ''/'' \<notin> set v" and t: "t = [] \<or> (\<exists>r. t = CHR ''/'' # r \<and> r \<noteq> [])"
  defines "url \<equiv> pre @ k @ ''/'' @ v @ t"
  shows "path_loop url (length pre) m =
    (let m' = smap_emplace (urlUnescape k) (urlUnescape v) m
     in if t = [] then m' else path_loop url (length pre + length k + length v + 2) m')"
proof -
  have f1: "find_from (CHR ''/'') url (length pre) = Some (length pre + length k)"
    using c by (simp add: find_from_def url_def find_char_append)
  have "drop (length pre + length k + 1) url = v @ t" by (simp add: url_def)
  then have f2: "find_from (CHR ''/'') url (length pre + length k + 1) =
      (if t = [] then None else Some (length pre + length k + 1 + length v))"
    using c(2) t by (auto simp: find_from_def find_char_append)
  have l: "length url = length pre + length k + length v + length t + 1" by (simp add: url_def)
  have sub: "substr url (length pre) (length k) = k" "substr url (length pre + length k + 1) (length v) = v"
    by (simp_all add: substr_def url_def)
  show ?thesis
    using f1 f2 l sub t by (auto simp: path_loop.simps [of url "length pre"] Let_def add.assoc)
qed

lemma path_items:
  "\<forall>(k, v) \<in> set kvs. CHR ''/'' \<notin> set k \<and> CHR ''/'' \<notin> set v \<Longrightarrow> kvs \<noteq> [] \<Longrightarrow>
   url = pre @ join ''/'' (map (\<lambda>(k, v). k @ ''/'' @ v) kvs) \<Longrightarrow>
   path_loop url (length pre) m = fold (\<lambda>(k, v). smap_emplace (urlUnescape k) (urlUnescape v)) kvs m"
proof (induction kvs arbitrary: pre m)
  case (Cons kv kvs)
  obtain k v where kv: "kv = (k, v)" by (cases kv)
  have c: "CHR ''/'' \<notin> set k" "CHR ''/'' \<notin> set v" using Cons(2) kv by auto
  show ?case
  proof (cases "kvs = []")
    case True
    then have m: "url = pre @ k @ ''/'' @ v @ []" using Cons(4) kv by simp
    show ?thesis using path_item [OF c, of "[]" pre m] True kv unfolding m by simp
  next
    case False
    let ?rest = "join ''/'' (map (\<lambda>(k, v). k @ ''/'' @ v) kvs)"
    have ne: "?rest \<noteq> []" using False by (cases kvs; cases "tl kvs") (auto simp: join_Cons)
    have u: "url = pre @ k @ ''/'' @ v @ CHR ''/'' # ?rest" using Cons(4) kv False by (simp add: join_Cons)
    have "path_loop url (length pre) m =
        path_loop url (length pre + length k + length v + 2) (smap_emplace (urlUnescape k) (urlUnescape v) m)"
      unfolding u using path_item [OF c, of "CHR ''/'' # ?rest" pre m] ne by simp
    also have "length pre + length k + length v + 2 = length (pre @ k @ ''/'' @ v @ ''/'')" by simp
    also have "path_loop url \<dots> (smap_emplace (urlUnescape k) (urlUnescape v) m)
        = fold (\<lambda>(k, v). smap_emplace (urlUnescape k) (urlUnescape v)) kvs
            (smap_emplace (urlUnescape k) (urlUnescape v) m)"
      by (rule Cons.IH) (use Cons(2) u False in auto)
    finally show ?thesis using kv by simp
  qed
qed simp

text \<open>
  A non-empty dictionary written as a path (\<open>key/value/key/value\<close>, as in the links to media) is
  read back by \<open>pathToMap\<close>.
\<close>

theorem path_roundtrip:
  assumes "smap_ok dict" and "dict_utf8 dict" and "dict \<noteq> []"
  shows "pathToMap (dictEncodeSimple dict) = dict"
proof -
  have e: "dictEncodeSimple dict = join ''/'' (map (\<lambda>(k, v). k @ ''/'' @ v) (escaped dict))"
    by (simp add: dictEncodeSimple_def dict_items_def escaped_def comp_def case_prod_unfold)
  have "\<forall>(k, v) \<in> set (escaped dict). CHR ''/'' \<notin> set k \<and> CHR ''/'' \<notin> set v"
    using escaped_clean [OF assms(2)] no_slash_clean by auto
  moreover have "escaped dict \<noteq> []" using assms(3) by (simp add: escaped_def)
  ultimately have "path_loop (dictEncodeSimple dict) 0 []
      = fold (\<lambda>(k, v). smap_emplace (urlUnescape k) (urlUnescape v)) (escaped dict) []"
    using path_items [of "escaped dict" "dictEncodeSimple dict" "[]" "[]"] e by simp
  then show ?thesis using assms by (simp add: pathToMap_def fold_emplace_escaped)
qed

lemma path_roundtrip_witness:
  "pathToMap (dictEncodeSimple [(''object_id'', ''5/6''), (''res_id'', '''')]) = [(''object_id'', ''5/6''), (''res_id'', '''')]"
proof (rule path_roundtrip)
  show "smap_ok [(''object_id'', ''5/6''), (''res_id'', '''')]"
    by (simp add: smap_ok_def less_char_def)
  show "dict_utf8 [(''object_id'', ''5/6''), (''res_id'', '''')]"
    by (simp add: dict_utf8_def utf8_shape.simps cp_length_def)
qed simp

section \<open>Dot segments\<close>

fun slash_segments :: "string \<Rightarrow> string list" where
  "slash_segments [] = [[]]"
| "slash_segments (c # cs) =
     (if c = CHR ''/'' then [] # slash_segments cs
      else (c # hd (slash_segments cs)) # tl (slash_segments cs))"

definition dot_free :: "string \<Rightarrow> bool" where
  "dot_free s = (''.'' \<notin> set (slash_segments s) \<and> ''..'' \<notin> set (slash_segments s))"

lemma slash_segments_nonempty [simp]: "slash_segments s \<noteq> []"
  by (induction s) auto

lemma slash_segments_single: "CHR ''/'' \<notin> set x \<Longrightarrow> slash_segments x = [x]"
  by (induction x) auto

lemma slash_segments_slash: "slash_segments (a @ CHR ''/'' # b) = slash_segments a @ slash_segments b"
  by (induction a) (auto simp: hd_append tl_append split: list.splits)

lemma dot_free_slash: "dot_free (a @ CHR ''/'' # b) \<longleftrightarrow> dot_free a \<and> dot_free b"
  by (auto simp: dot_free_def slash_segments_slash)

lemma dot_free_Nil [simp]: "dot_free []"
  by (simp add: dot_free_def)

lemma dot_free_single: "CHR ''/'' \<notin> set x \<Longrightarrow> dot_free x \<longleftrightarrow> x \<noteq> ''.'' \<and> x \<noteq> ''..''"
  by (auto simp: dot_free_def slash_segments_single)

lemma rfind_char_Some:
  assumes "rfind_char c s = Some p"
  shows "p < length s \<and> s = take p s @ c # drop (Suc p) s"
proof -
  obtain i where i: "find_char c (rev s) = Some i" "p = length s - Suc i"
    using assms by (auto simp: rfind_char_def)
  then have "i < length s" "rev s ! i = c" using find_char_Some [of c "rev s" i] by auto
  then have "p < length s" "s ! p = c" using i(2) by (auto simp: rev_nth)
  then show ?thesis by (metis id_take_nth_drop)
qed

lemma dot_free_up: "dot_free s \<Longrightarrow> dot_free (up_to_slash s)"
  by (auto simp: up_to_slash_def split: option.splits dest!: rfind_char_Some) (metis dot_free_slash)

text \<open>The first segment, with its leading slash, and what follows it.\<close>

lemma segment_end_split:
  assumes "s \<noteq> []"
  obtains (last) "segment_end s = None" "CHR ''/'' \<notin> set (tl s)"
    | (more) e r where "segment_end s = Some e" "drop e s = CHR ''/'' # r" "CHR ''/'' \<notin> set (tl (take e s))" "0 < e"
proof -
  obtain c cs where s: "s = c # cs" using assms by (cases s) auto
  show thesis
  proof (cases "segment_end s")
    case None
    then have "CHR ''/'' \<notin> set cs" by (auto simp: segment_end_def s find_from_None split: if_splits)
    then show thesis using last None s by simp
  next
    case (Some e)
    then have e: "0 < e" "e < length s" "s ! e = CHR ''/''" "CHR ''/'' \<notin> set (take (e - 1) cs)"
    proof -
      show "0 < e" using Some by (auto simp: segment_end_def s dest!: find_from_Some split: if_splits intro: gr0I)
      show "e < length s" "s ! e = CHR ''/''"
        using Some by (auto simp: segment_end_def dest!: find_from_Some split: if_splits)
      show "CHR ''/'' \<notin> set (take (e - 1) cs)"
        using Some \<open>0 < e\<close>
        by (cases e) (auto simp: segment_end_def s dest!: find_from_Some split: if_splits)
    qed
    have "drop e s = CHR ''/'' # drop (Suc e) s" using e(2,3) by (metis Cons_nth_drop_Suc)
    moreover have "tl (take e s) = take (e - 1) cs" using e(1) s by (cases e) auto
    ultimately show thesis using more Some e by metis
  qed
qed

text \<open>What the recursion of \<open>remove_dots\<close> keeps: the output has no dot segment and the input goes on
  with a slash.\<close>

definition dots_state :: "string \<Rightarrow> string \<Rightarrow> bool" where
  "dots_state inp outp = (dot_free outp \<and> (outp = [] \<or> inp = [] \<or> hd inp = CHR ''/''))"

lemma dots_state_segment:
  assumes d: "dots_state inp outp" and x: "CHR ''/'' \<notin> set (tl x)" "x \<noteq> []" "hd x = hd inp" "inp \<noteq> []"
    and n: "x \<notin> {''.'', ''..'', ''/.'', ''/..''}"
  shows "dot_free (outp @ x)"
proof (cases "hd x = CHR ''/''")
  case True
  then have xe: "x = CHR ''/'' # tl x" using x(2) by (cases x) auto
  then have "tl x \<noteq> ''.''" "tl x \<noteq> ''..''" using n by auto
  then have "dot_free (outp @ CHR ''/'' # tl x)"
    using d x(1) by (simp add: dot_free_slash dot_free_single dots_state_def)
  then show ?thesis using xe by metis
next
  case False
  then have "outp = []" "CHR ''/'' \<notin> set x" using d x by (cases x; auto simp: dots_state_def)+
  then show ?thesis using n by (simp add: dot_free_single)
qed

lemma dot_prefixes:
  assumes "dot_free s"
  shows "\<not> prefix ''../'' s" "\<not> prefix ''./'' s" "\<not> prefix ''/./'' s" "\<not> prefix ''/../'' s"
    "s \<notin> {''.'', ''..'', ''/.'', ''/..''}"
  using assms dot_free_slash [of "''..''"] dot_free_slash [of "''.''"] dot_free_slash [of "[]"]
  by (auto simp: prefix_def dot_free_single dot_free_def)

lemma remove_dots_free: "dots_state inp outp \<Longrightarrow> dot_free (remove_dots inp outp)"
proof (induction inp outp rule: remove_dots.induct)
  case (1 inp outp)
  note st = 1(8)
  consider (fin) "inp = []" | (up) "prefix ''../'' inp" | (here) "\<not> prefix ''../'' inp" "prefix ''./'' inp"
    | (dot) "\<not> prefix ''../'' inp" "\<not> prefix ''./'' inp" "prefix ''/./'' inp \<or> inp = ''/.''"
    | (dots) "\<not> prefix ''../'' inp" "\<not> prefix ''./'' inp" "\<not> (prefix ''/./'' inp \<or> inp = ''/.'')"
        "prefix ''/../'' inp \<or> inp = ''/..''"
    | (last) "\<not> prefix ''../'' inp" "\<not> prefix ''./'' inp" "\<not> (prefix ''/./'' inp \<or> inp = ''/.'')"
        "\<not> (prefix ''/../'' inp \<or> inp = ''/..'')" "inp = ''.'' \<or> inp = ''..''"
    | (seg) "inp \<noteq> []" "\<not> prefix ''../'' inp" "\<not> prefix ''./'' inp" "\<not> (prefix ''/./'' inp \<or> inp = ''/.'')"
        "\<not> (prefix ''/../'' inp \<or> inp = ''/..'')" "\<not> (inp = ''.'' \<or> inp = ''..'')"
    by blast
  then show ?case
  proof cases
    case fin
    then show ?thesis using st by (simp add: remove_dots.simps dots_state_def)
  next
    case up
    then have "outp = []" "inp \<noteq> []" using st by (auto simp: dots_state_def prefix_def)
    then show ?thesis using up 1(1) by (subst remove_dots.simps) (simp add: dots_state_def)
  next
    case here
    then have "outp = []" "inp \<noteq> []" using st by (auto simp: dots_state_def prefix_def)
    then show ?thesis using here 1(2) by (subst remove_dots.simps) (simp add: dots_state_def)
  next
    case dot
    then have "inp \<noteq> []" by auto
    moreover have "dots_state (CHR ''/'' # drop 3 inp) outp" using st by (simp add: dots_state_def)
    ultimately show ?thesis using dot 1(3) by (subst remove_dots.simps) auto
  next
    case dots
    then have "inp \<noteq> []" by auto
    moreover have "dots_state (CHR ''/'' # drop 4 inp) (up_to_slash outp)"
      using st dot_free_up by (simp add: dots_state_def)
    ultimately show ?thesis using dots 1(4) by (subst remove_dots.simps) auto
  next
    case last
    then have "inp \<noteq> []" by auto
    moreover have "dots_state [] outp" using st by (simp add: dots_state_def)
    ultimately show ?thesis using last 1(5) by (subst remove_dots.simps) auto
  next
    case seg
    from seg(1) show ?thesis
    proof (cases rule: segment_end_split)
      case last
      have "dot_free (outp @ inp)"
        by (rule dots_state_segment [OF st]) (use seg last in auto)
      then have "dots_state [] (outp @ inp)" by (simp add: dots_state_def)
      then show ?thesis using seg last 1(6) by (subst remove_dots.simps) auto
    next
      case (more e r)
      have i: "inp = take e inp @ CHR ''/'' # r" using more(2) by (metis append_take_drop_id)
      have "take e inp \<notin> {''.'', ''..'', ''/.'', ''/..''}"
      proof
        assume "take e inp \<in> {''.'', ''..'', ''/.'', ''/..''}"
        then have "prefix ''./'' inp \<or> prefix ''../'' inp \<or> prefix ''/./'' inp \<or> prefix ''/../'' inp"
          using i by (auto simp: prefix_def)
        then show False using seg by blast
      qed
      moreover have "take e inp \<noteq> []" "hd (take e inp) = hd inp" using more(4) seg(1) by auto
      ultimately have "dot_free (outp @ take e inp)"
        using dots_state_segment [OF st more(3)] seg(1) by blast
      then have "dots_state (drop e inp) (outp @ take e inp)" using more(2) by (simp add: dots_state_def)
      then show ?thesis using seg more(1) 1(7) by (subst remove_dots.simps) auto
    qed
  qed
qed

lemma remove_dots_identity: "dot_free inp \<Longrightarrow> outp = [] \<or> inp = [] \<or> hd inp = CHR ''/'' \<Longrightarrow> remove_dots inp outp = outp @ inp"
proof (induction "length inp" arbitrary: inp outp rule: less_induct)
  case less
  show ?case
  proof (cases "inp = []")
    case False
    note d = dot_prefixes [OF less(2)]
    from False show ?thesis
    proof (cases rule: segment_end_split)
      case last
      then show ?thesis using False d by (subst remove_dots.simps) (simp add: remove_dots.simps [of "[]"])
    next
      case (more e r)
      have i: "inp = take e inp @ CHR ''/'' # r" using more(2) by (metis append_take_drop_id)
      have "dot_free (take e inp @ CHR ''/'' # r)" using less(2) i by simp
      then have "dot_free (drop e inp)" using dot_free_slash [of "[]" r] by (simp add: dot_free_slash more(2))
      then have "remove_dots (drop e inp) (outp @ take e inp) = (outp @ take e inp) @ drop e inp"
      proof (intro less(1))
        show "length (drop e inp) < length inp" using more(4) False by simp
        show "outp @ take e inp = [] \<or> drop e inp = [] \<or> hd (drop e inp) = CHR ''/''" by (simp add: more(2))
      qed
      then show ?thesis using False d more(1) by (subst remove_dots.simps) auto
    qed
  qed (simp add: remove_dots.simps)
qed

text \<open>
  After \<open>removeDotSegments\<close> no segment of the path is \<open>.\<close> or \<open>..\<close>, whatever the input, and a
  path without such segments is left as it is; so normalising twice changes nothing more.
\<close>

theorem removeDotSegments_normal:
  "dot_free (removeDotSegments inp) \<and> (dot_free inp \<longrightarrow> removeDotSegments inp = inp) \<and>
   removeDotSegments (removeDotSegments inp) = removeDotSegments inp"
proof -
  have f: "dot_free (removeDotSegments p)" for p
    unfolding removeDotSegments_def by (rule remove_dots_free) (simp add: dots_state_def)
  have i: "dot_free p \<longrightarrow> removeDotSegments p = p" for p
    unfolding removeDotSegments_def using remove_dots_identity [of p "[]"] by simp
  show ?thesis using f i by blast
qed

lemma removeDotSegments_normal_witness:
  "removeDotSegments ''/a/b'' = ''/a/b'' \<and> dot_free (removeDotSegments ''/a/b/../../c/./d/..'')"
proof -
  have "dot_free ''/a/b''" by (simp add: dot_free_def)
  then show ?thesis using removeDotSegments_normal by blast
qed

section \<open>Parts of a URI\<close>

lemma split_find:
  "split_at_pos t (find_char c t) = (a, b) \<Longrightarrow>
   (length a \<noteq> length t \<and> t = a @ c # b) \<or> (length a = length t \<and> t = a \<and> b = [])"
  by (cases "find_char c t")
    (auto simp: split_at_pos_def dest!: find_char_Some intro: id_take_nth_drop)

lemma map_idD: "map f xs = xs \<Longrightarrow> x \<in> set xs \<Longrightarrow> f x = x"
  by (induction xs) auto

text \<open>
  Putting the parts of a URI together again gives the URI, when its letters are in lower case (the
  scheme is normalised) and it does not start with a colon.
\<close>

theorem splitUri_joinUri:
  assumes "toLower text = text" and "text = [] \<or> hd text \<noteq> CHR '':''"
  shows "joinUri (splitUri text) = text"
proof -
  obtain t1 frag where f: "split_at_pos text (find_char (CHR ''#'') text) = (t1, frag)" by fastforce
  obtain t2 qry where q: "split_at_pos t1 (find_char (CHR ''?'') t1) = (t2, qry)" by fastforce
  define isS where "isS = (case find_char (CHR '':'') t2 of None \<Rightarrow> False
    | Some p \<Rightarrow> (case find_char (CHR ''/'') t2 of None \<Rightarrow> True | Some s \<Rightarrow> p < s))"
  obtain schm t3 where s: "(if isS then split_at_pos t2 (find_char (CHR '':'') t2) else ([], t2)) = (schm, t3)" by fastforce
  note f' = split_find [OF f] and q' = split_find [OF q]
  have "t1 = [] \<or> hd t1 = hd text" using f' by (cases t1) auto
  moreover have "t2 = [] \<or> hd t2 = hd t1" using q' by (cases t2) auto
  moreover have "t2 \<noteq> [] \<longrightarrow> text \<noteq> [] \<and> t1 \<noteq> []" using f' q' by auto
  ultimately have hd: "t2 = [] \<or> hd t2 \<noteq> CHR '':''" using assms(2) by auto
  have t2: "t2 = (if isS then schm @ CHR '':'' # t3 else t3) \<and> (isS \<longleftrightarrow> schm \<noteq> [])"
  proof (cases isS)
    case True
    then have "find_char (CHR '':'') t2 \<noteq> None" by (auto simp: isS_def split: option.splits)
    then obtain p where p: "find_char (CHR '':'') t2 = Some p" by blast
    then have n: "p < length t2" "t2 ! p = CHR '':''" using find_char_Some by auto
    then have "p \<noteq> 0" using hd by (cases t2; cases p) auto
    moreover have "schm = take p t2" "t3 = drop (Suc p) t2" using s True p by (auto simp: split_at_pos_def)
    ultimately show ?thesis using True n id_take_nth_drop [of p t2] by auto
  qed (use s in auto)
  have e1: "t1 @ (if length t1 \<noteq> length text then ''#'' @ frag else []) = text" using f' by auto
  have e2: "t2 @ (if length t2 \<noteq> length t1 then ''?'' @ qry else []) = t1" using q' by auto
  have e3: "(if schm = [] then [] else schm @ '':'') @ t3 = t2" using t2 by (cases isS) auto
  have "set schm \<subseteq> set t2" using t2 by (cases isS) auto
  also have "\<dots> \<subseteq> set t1" by (subst e2 [symmetric]) simp
  also have "\<dots> \<subseteq> set text" by (subst e1 [symmetric]) simp
  finally have "set schm \<subseteq> set text" .
  then have low: "toLower schm = schm"
    using map_idD [of tolower "text"] assms(1) by (auto simp: toLower_def intro!: map_idI)
  define auth where "auth = (take 2 t3 = ''//'')"
  define body where "body = (if auth then ''//'' @ (case find_from (CHR ''/'') t3 2 of None \<Rightarrow> drop 2 t3
      | Some p \<Rightarrow> substr t3 2 (p - 2)) @ (case find_from (CHR ''/'') t3 2 of None \<Rightarrow> [] | Some p \<Rightarrow> drop p t3) else t3)"
  have body: "body = t3"
  proof (cases auth)
    case True
    then have t: "t3 = ''//'' @ drop 2 t3" by (metis append_take_drop_id auth_def)
    show ?thesis
    proof (cases "find_from (CHR ''/'') t3 2")
      case None
      then show ?thesis using True t by (simp add: body_def)
    next
      case (Some p)
      then have "2 \<le> p" using find_from_Some by blast
      then have "drop p t3 = drop (p - 2) (drop 2 t3)" by (simp only: drop_drop le_add_diff_inverse2)
      then have "substr t3 2 (p - 2) @ drop p t3 = drop 2 t3"
        unfolding substr_def by (simp only: append_take_drop_id)
      then show ?thesis using True t Some by (simp add: body_def)
    qed
  qed (simp add: body_def)
  have "joinUri (splitUri text) = (if schm = [] then [] else schm @ '':'') @ body @
      (if length t2 \<noteq> length t1 then ''?'' @ qry else []) @ (if length t1 \<noteq> length text then ''#'' @ frag else [])"
    using s by (simp add: splitUri_def joinUri_def f q Let_def isS_def [symmetric] low body_def auth_def)
  also have "\<dots> = text" using body e1 e2 e3 by (metis append.assoc)
  finally show ?thesis .
qed

lemma splitUri_joinUri_witness:
  "joinUri (splitUri ''http://host:80/a/b?x=1#top'') = ''http://host:80/a/b?x=1#top''"
  by (rule splitUri_joinUri) (simp_all add: toLower_def char_defs)

end
