(* ===== verification/CDS_Enums.thy ===== *)
theory CDS_Enums
  imports Tools Std_Map
begin

text \<open>
  The enumerations of the content directory (\<open>src/src/cds/cds_enums.cc\<close>, \<open>cds_enums.h\<close>) and the
  mappings between enumerators, flag words and names (\<open>src/src/cds/cds_objects.cc\<close>).
\<close>

datatype cds_error =
  Out_of_range_at | Invalid_content_handler | Invalid_purpose | Unknown_attribute string |
  Missing_title | Missing_class | Invalid_object_type | Invalid_entry_type | Cannot_parse_resources | Not_a_number

section \<open>Attributes and purposes of resources\<close>

datatype ResourceAttribute =
  SIZE | DURATION | BITRATE | SAMPLEFREQUENCY | NRAUDIOCHANNELS | RESOLUTION | COLORDEPTH | PROTOCOLINFO |
  RESOURCE_FILE | TYPE_ATTRIBUTE | FANART_OBJ_ID | FANART_RES_ID | BITS_PER_SAMPLE | LANGUAGE | AUDIOCODEC | VIDEOCODEC |
  FORMAT | ORIENTATION | PIXELFORMAT | LYRICS | OFFSET | COLORTRANSFER | MAX_ATTRIBUTE

text \<open>The enumerators in their order; their values are the positions.\<close>

definition all_attributes :: "ResourceAttribute list" where
  "all_attributes =
     [SIZE, DURATION, BITRATE, SAMPLEFREQUENCY, NRAUDIOCHANNELS, RESOLUTION, COLORDEPTH, PROTOCOLINFO,
      RESOURCE_FILE, TYPE_ATTRIBUTE, FANART_OBJ_ID, FANART_RES_ID, BITS_PER_SAMPLE, LANGUAGE, AUDIOCODEC, VIDEOCODEC,
      FORMAT, ORIENTATION, PIXELFORMAT, LYRICS, OFFSET, COLORTRANSFER, MAX_ATTRIBUTE]"

fun attribute_value :: "ResourceAttribute \<Rightarrow> nat" where
  "attribute_value SIZE = 0" | "attribute_value DURATION = 1" | "attribute_value BITRATE = 2"
| "attribute_value SAMPLEFREQUENCY = 3" | "attribute_value NRAUDIOCHANNELS = 4"
| "attribute_value RESOLUTION = 5" | "attribute_value COLORDEPTH = 6" | "attribute_value PROTOCOLINFO = 7"
| "attribute_value RESOURCE_FILE = 8" | "attribute_value TYPE_ATTRIBUTE = 9" | "attribute_value FANART_OBJ_ID = 10"
| "attribute_value FANART_RES_ID = 11" | "attribute_value BITS_PER_SAMPLE = 12" | "attribute_value LANGUAGE = 13"
| "attribute_value AUDIOCODEC = 14" | "attribute_value VIDEOCODEC = 15" | "attribute_value FORMAT = 16"
| "attribute_value ORIENTATION = 17" | "attribute_value PIXELFORMAT = 18" | "attribute_value LYRICS = 19"
| "attribute_value OFFSET = 20" | "attribute_value COLORTRANSFER = 21" | "attribute_value MAX_ATTRIBUTE = 22"

lemma attribute_value_nth: "attribute_value a < length all_attributes \<and> all_attributes ! attribute_value a = a"
  by (cases a) (simp_all add: all_attributes_def)

lemma attribute_value_inj: "attribute_value a = attribute_value b \<Longrightarrow> a = b"
  by (metis attribute_value_nth)

instantiation ResourceAttribute :: linorder
begin

definition less_eq_ResourceAttribute :: "ResourceAttribute \<Rightarrow> ResourceAttribute \<Rightarrow> bool" where
  "less_eq_ResourceAttribute a b = (attribute_value a \<le> attribute_value b)"

definition less_ResourceAttribute :: "ResourceAttribute \<Rightarrow> ResourceAttribute \<Rightarrow> bool" where
  "less_ResourceAttribute a b = (attribute_value a < attribute_value b)"

instance
  by standard (auto simp: less_eq_ResourceAttribute_def less_ResourceAttribute_def attribute_value_inj)

end

definition attrToName :: "(ResourceAttribute \<times> string) list" where
  "attrToName =
     [(SIZE, ''size''), (DURATION, ''duration''), (BITRATE, ''bitrate''), (SAMPLEFREQUENCY, ''sampleFrequency''),
      (NRAUDIOCHANNELS, ''nrAudioChannels''), (RESOLUTION, ''resolution''), (COLORDEPTH, ''colorDepth''),
      (PROTOCOLINFO, ''protocolInfo''), (RESOURCE_FILE, ''resFile''), (TYPE_ATTRIBUTE, ''type''),
      (FANART_OBJ_ID, ''fanArtObject''), (FANART_RES_ID, ''fanArtResource''), (BITS_PER_SAMPLE, ''bitsPerSample''),
      (LANGUAGE, ''dc:language''), (AUDIOCODEC, ''sec:acodec''), (VIDEOCODEC, ''sec:vcodec''), (FORMAT, ''format''),
      (ORIENTATION, ''orientation''), (PIXELFORMAT, ''pixelFormat''), (LYRICS, ''lyrics''), (OFFSET, ''offset''),
      (COLORTRANSFER, ''colorTransfer''), (MAX_ATTRIBUTE, ''unknown'')]"

definition attrToDisplay :: "(ResourceAttribute \<times> string) list" where
  "attrToDisplay =
     [(SIZE, ''size''), (DURATION, ''duration''), (BITRATE, ''bitrate''), (SAMPLEFREQUENCY, ''sampleFrequency''),
      (NRAUDIOCHANNELS, ''nrAudioChannels''), (RESOLUTION, ''resolution''), (COLORDEPTH, ''colorDepth''),
      (PROTOCOLINFO, ''protocolInfo''), (RESOURCE_FILE, ''resFile''), (TYPE_ATTRIBUTE, ''type''),
      (FANART_OBJ_ID, ''fanArtObject''), (FANART_RES_ID, ''fanArtResource''), (BITS_PER_SAMPLE, ''bitsPerSample''),
      (LANGUAGE, ''language''), (AUDIOCODEC, ''audioCodec''), (VIDEOCODEC, ''videoCodec''), (FORMAT, ''format''),
      (ORIENTATION, ''orientation''), (PIXELFORMAT, ''pixelFormat''), (LYRICS, ''lyrics''), (OFFSET, ''offset''),
      (COLORTRANSFER, ''colorTransfer''), (MAX_ATTRIBUTE, ''unknown'')]"

text \<open>The names scripts use (\<open>src/src/content/scripting/script_names.h\<close>).\<close>

definition res_names :: "(ResourceAttribute \<times> string) list" where
  "res_names =
     [(SIZE, ''R_SIZE''), (DURATION, ''R_DURATION''), (BITRATE, ''R_BITRATE''),
      (SAMPLEFREQUENCY, ''R_SAMPLEFREQUENCY''), (NRAUDIOCHANNELS, ''R_NRAUDIOCHANNELS''),
      (RESOLUTION, ''R_RESOLUTION''), (COLORDEPTH, ''R_COLORDEPTH''), (PROTOCOLINFO, ''R_PROTOCOLINFO''),
      (RESOURCE_FILE, ''R_RESOURCE_FILE''), (TYPE_ATTRIBUTE, ''R_TYPE''), (FANART_OBJ_ID, ''R_FANART_OBJ_ID''),
      (FANART_RES_ID, ''R_FANART_RES_ID''), (BITS_PER_SAMPLE, ''R_BITS_PER_SAMPLE''), (LANGUAGE, ''R_LANGUAGE''),
      (AUDIOCODEC, ''R_AUDIOCODEC''), (VIDEOCODEC, ''R_VIDEOCODEC''), (FORMAT, ''R_FORMAT''),
      (ORIENTATION, ''R_ORIENTATION''), (PIXELFORMAT, ''R_PIXELFORMAT''), (LYRICS, ''R_LYRICS''),
      (OFFSET, ''R_OFFSET''), (COLORTRANSFER, ''R_COLORTRANSFER'')]"

text \<open>\<open>map::at\<close>, and the search for a name.\<close>

definition map_at :: "('k \<times> 'v) list \<Rightarrow> 'k \<Rightarrow> cds_error + 'v" where
  "map_at m k = (case map_of m k of None \<Rightarrow> Inl Out_of_range_at | Some v \<Rightarrow> Inr v)"

fun find_name :: "('k \<times> string) list \<Rightarrow> string \<Rightarrow> 'k option" where
  "find_name [] name = None"
| "find_name ((k, n) # m) name = (if n = name then Some k else find_name m name)"

definition getAttributeName :: "ResourceAttribute \<Rightarrow> cds_error + string" where
  "getAttributeName = map_at attrToName"

definition getAttributeDisplay :: "ResourceAttribute \<Rightarrow> cds_error + string" where
  "getAttributeDisplay = map_at attrToDisplay"

definition mapAttributeName :: "string \<Rightarrow> cds_error + ResourceAttribute" where
  "mapAttributeName name =
     (case find_name attrToName name of
        Some a \<Rightarrow> Inr a
      | None \<Rightarrow> (case find_name res_names name of Some a \<Rightarrow> Inr a | None \<Rightarrow> Inl (Unknown_attribute name)))"

datatype ResourcePurpose = Content | Thumbnail | Subtitle | Transcode

definition purposeToDisplay :: "(ResourcePurpose \<times> string) list" where
  "purposeToDisplay =
     [(Content, ''Content''), (Thumbnail, ''Thumbnail''), (Subtitle, ''Subtitle''), (Transcode, ''Transcode'')]"

definition getPurposeDisplay :: "ResourcePurpose \<Rightarrow> cds_error + string" where
  "getPurposeDisplay = map_at purposeToDisplay"

fun find_lower :: "('k \<times> string) list \<Rightarrow> string \<Rightarrow> 'k option" where
  "find_lower [] name = None"
| "find_lower ((k, n) # m) name = (if toLower n = toLower name then Some k else find_lower m name)"

lemma find_lower_None: "find_lower m name = None \<longleftrightarrow> (\<forall>e \<in> set m. toLower (snd e) \<noteq> toLower name)"
  by (induction m name rule: find_lower.induct) auto

definition mapPurpose :: "string \<Rightarrow> cds_error + ResourcePurpose" where
  "mapPurpose name = (case find_lower purposeToDisplay name of None \<Rightarrow> Inl Invalid_purpose | Some p \<Rightarrow> Inr p)"

text \<open>The content handlers by number (any 32-bit number can be cast), and their names in a build.\<close>

record build =
  have_libexif :: bool
  have_taglib :: bool
  have_ffmpegthumbnailer :: bool
  have_matroska :: bool
  have_wavpack :: bool
  have_ffmpeg :: bool
  online_services :: bool

definition handler_DEFAULT :: int where "handler_DEFAULT = 0"

definition chKeys :: "build \<Rightarrow> (int \<times> string) list" where
  "chKeys b = map snd (filter fst
     [(True, 0, ''Default''), (have_libexif b, 1, ''LibExif''), (have_taglib b, 2, ''TagLib''),
      (True, 3, ''Transcode''), (True, 4, ''Exturl''), (have_ffmpegthumbnailer b, 6, ''FFmpegThumbnailer''),
      (True, 7, ''Flac''), (True, 8, ''Fanart''), (True, 11, ''ContainerArt''), (have_matroska b, 9, ''Matroska''),
      (have_wavpack b, 12, ''WavPack''), (have_ffmpeg b, 21, ''InternalTranscode''), (have_ffmpeg b, 5, ''FFmpeg''),
      (True, 10, ''Subtitle''), (True, 13, ''MetaFile''), (True, 14, ''CueSheet''), (True, 20, ''Resource'')])"

definition checkContentHandler :: "build \<Rightarrow> string \<Rightarrow> bool" where
  "checkContentHandler b h = (\<exists>e \<in> set (chKeys b). snd e = h)"

definition remapContentHandler :: "build \<Rightarrow> string \<Rightarrow> cds_error + int" where
  "remapContentHandler b h =
     (case find_name (chKeys b) h of None \<Rightarrow> Inl Invalid_content_handler | Some ch \<Rightarrow> Inr ch)"

definition mapContentHandler2String :: "build \<Rightarrow> int \<Rightarrow> cds_error + string" where
  "mapContentHandler2String b ch =
     (case map_of (chKeys b) ch of None \<Rightarrow> Inl Invalid_content_handler | Some h \<Rightarrow> Inr h)"

datatype ResourceDataType = String_data | Number_data | Text_data

fun getAttributeType :: "ResourceAttribute \<Rightarrow> ResourceDataType" where
  "getAttributeType SIZE = Number_data" | "getAttributeType DURATION = String_data"
| "getAttributeType BITRATE = Number_data" | "getAttributeType SAMPLEFREQUENCY = Number_data"
| "getAttributeType NRAUDIOCHANNELS = Number_data" | "getAttributeType RESOLUTION = String_data"
| "getAttributeType COLORDEPTH = String_data" | "getAttributeType PROTOCOLINFO = String_data"
| "getAttributeType RESOURCE_FILE = String_data" | "getAttributeType FANART_OBJ_ID = Number_data"
| "getAttributeType FANART_RES_ID = Number_data" | "getAttributeType BITS_PER_SAMPLE = Number_data"
| "getAttributeType LANGUAGE = String_data" | "getAttributeType AUDIOCODEC = String_data"
| "getAttributeType VIDEOCODEC = String_data" | "getAttributeType FORMAT = String_data"
| "getAttributeType TYPE_ATTRIBUTE = String_data" | "getAttributeType ORIENTATION = Number_data"
| "getAttributeType PIXELFORMAT = String_data" | "getAttributeType LYRICS = Text_data"
| "getAttributeType OFFSET = Number_data" | "getAttributeType COLORTRANSFER = String_data"
| "getAttributeType MAX_ATTRIBUTE = String_data"

section \<open>Entry types and sources\<close>

datatype CdsEntryType =
  Unset | Root | Directory | File | VirtualContainer | VirtualItem | ExternalUrl | DynamicFolder | ExtraFile |
  ExtraDirectory | PlaylistContainer

definition entryTypes :: "(CdsEntryType \<times> string) list" where
  "entryTypes =
     [(Unset, ''Unset''), (Root, ''Root''), (Directory, ''Directory''), (File, ''File''),
      (VirtualContainer, ''Container''), (VirtualItem, ''Item''), (ExternalUrl, ''ExternalUrl''),
      (DynamicFolder, ''DynamicFolder''), (ExtraFile, ''ExtraFile''), (ExtraDirectory, ''ExtraDirectory''),
      (PlaylistContainer, ''PlaylistContainer'')]"

definition mapEntryType :: "CdsEntryType \<Rightarrow> cds_error + string" where
  "mapEntryType = map_at entryTypes"

definition remapEntryType :: "string \<Rightarrow> CdsEntryType" where
  "remapEntryType t = (case find_lower entryTypes t of Some e \<Rightarrow> e | None \<Rightarrow> Unset)"

datatype ObjectSource = Import | ImportModified | User

fun source_value :: "ObjectSource \<Rightarrow> nat" where
  "source_value Import = 0"
| "source_value ImportModified = 1"
| "source_value User = 2"

instantiation ObjectSource :: linorder
begin

definition less_eq_ObjectSource :: "ObjectSource \<Rightarrow> ObjectSource \<Rightarrow> bool" where
  "less_eq_ObjectSource a b = (source_value a \<le> source_value b)"

definition less_ObjectSource :: "ObjectSource \<Rightarrow> ObjectSource \<Rightarrow> bool" where
  "less_ObjectSource a b = (source_value a < source_value b)"

instance
proof
  fix a b :: ObjectSource
  show "a \<le> b \<Longrightarrow> b \<le> a \<Longrightarrow> a = b" by (cases a; cases b) (simp_all add: less_eq_ObjectSource_def)
qed (auto simp: less_eq_ObjectSource_def less_ObjectSource_def)

end

definition sourceNames :: "(ObjectSource \<times> string) list" where
  "sourceNames = [(Import, ''Import''), (ImportModified, ''Modified''), (User, ''User'')]"

definition mapSource :: "ObjectSource \<Rightarrow> cds_error + string" where
  "mapSource = map_at sourceNames"

definition remapSource :: "string \<Rightarrow> ObjectSource" where
  "remapSource s = (case find_lower sourceNames s of Some e \<Rightarrow> e | None \<Rightarrow> User)"

section \<open>Object types\<close>

definition OBJECT_TYPE_CONTAINER :: "32 word" where "OBJECT_TYPE_CONTAINER = 1"
definition OBJECT_TYPE_ITEM :: "32 word" where "OBJECT_TYPE_ITEM = 2"
definition OBJECT_TYPE_ITEM_EXTERNAL_URL :: "32 word" where "OBJECT_TYPE_ITEM_EXTERNAL_URL = 8"

definition IS_CDS_CONTAINER :: "32 word \<Rightarrow> bool" where
  "IS_CDS_CONTAINER t = (and t OBJECT_TYPE_CONTAINER \<noteq> 0)"

definition IS_CDS_ITEM_EXTERNAL_URL :: "32 word \<Rightarrow> bool" where
  "IS_CDS_ITEM_EXTERNAL_URL t = (and t OBJECT_TYPE_ITEM_EXTERNAL_URL \<noteq> 0)"

definition isCdsItem :: "32 word \<Rightarrow> bool" where
  "isCdsItem t = (and t OBJECT_TYPE_ITEM \<noteq> 0)"

definition isCdsPureItem :: "32 word \<Rightarrow> bool" where
  "isCdsPureItem t = (t = OBJECT_TYPE_ITEM)"

definition mapObjectType :: "32 word \<Rightarrow> cds_error + string" where
  "mapObjectType t =
     (if IS_CDS_CONTAINER t then Inr ''container''
      else if isCdsPureItem t then Inr ''item''
      else if IS_CDS_ITEM_EXTERNAL_URL t then Inr ''external_url''
      else Inl Invalid_object_type)"

definition remapObjectType :: "string \<Rightarrow> 32 word" where
  "remapObjectType t =
     (if t = ''container'' then OBJECT_TYPE_CONTAINER
      else if t = ''item'' then OBJECT_TYPE_ITEM
      else if t = ''external_url'' then or OBJECT_TYPE_ITEM OBJECT_TYPE_ITEM_EXTERNAL_URL
      else 0)"

section \<open>Names are read back\<close>

lemma find_name_map_of:
  "distinct (map snd m) \<Longrightarrow> map_of m k = Some n \<Longrightarrow> find_name m n = Some k"
proof (induction m)
  case (Cons e m)
  have "snd e \<noteq> n" if "map_of m k = Some n" using Cons.prems(1) map_of_SomeD [OF that] by (auto simp: image_iff)
  then show ?case using Cons by (cases e) (auto split: if_splits)
qed simp

lemma find_lower_entry:
  "distinct (map (\<lambda>e. toLower (snd e)) m) \<Longrightarrow> (k, n) \<in> set m \<Longrightarrow> find_lower m n = Some k"
proof (induction m)
  case (Cons e m)
  obtain j l where e: "e = (j, l)" by (cases e)
  show ?case
  proof (cases "(k, n) \<in> set m")
    case True
    then have "toLower (snd (k, n)) \<in> (\<lambda>e. toLower (snd e)) ` set m" by (rule imageI)
    moreover have "toLower l \<notin> (\<lambda>e. toLower (snd e)) ` set m" using Cons.prems(1) e by simp
    ultimately have "toLower l \<noteq> toLower n" by (metis snd_conv)
    then show ?thesis using Cons True e by simp
  next
    case False
    then show ?thesis using Cons.prems(2) e by simp
  qed
qed simp

lemma find_lower_map_of:
  "distinct (map (\<lambda>e. toLower (snd e)) m) \<Longrightarrow> map_of m k = Some n \<Longrightarrow> find_lower m n = Some k"
proof (induction m)
  case (Cons e m)
  have "toLower (snd e) \<noteq> toLower n" if "map_of m k = Some n" using Cons.prems(1) map_of_SomeD [OF that] by (auto simp: image_iff)
  then show ?case using Cons by (cases e) (auto split: if_splits)
qed simp

lemma entry_type_known: "\<exists>n. map_of entryTypes e = Some n"
  by (cases e) (simp_all add: entryTypes_def)

lemma source_known: "\<exists>n. map_of sourceNames s = Some n"
  by (cases s) (simp_all add: sourceNames_def)

lemma attribute_known: "\<exists>n. map_of attrToName a = Some n"
  by (cases a) (simp_all add: attrToName_def)

lemma purpose_known: "\<exists>n. map_of purposeToDisplay p = Some n"
  by (cases p) (simp_all add: purposeToDisplay_def)

lemma lower_names_distinct:
  "distinct (map (\<lambda>e. toLower (snd e)) entryTypes)" "distinct (map (\<lambda>e. toLower (snd e)) sourceNames)"
  "distinct (map (\<lambda>e. toLower (snd e)) purposeToDisplay)" "distinct (map snd attrToName)"
  by (code_simp, code_simp, code_simp, code_simp)

lemma handler_names_distinct: "distinct (map snd (chKeys b))"
  unfolding chKeys_def map_map by (rule distinct_map_filter) simp

text \<open>Every entry type, source, attribute and purpose has a name, and the reader of that name gives
  the value back (entry types, sources and purposes in any letter case); a content handler the build
  knows has a name that is read back, one it does not know is an error in both directions.\<close>

theorem names_roundtrip:
  "(\<exists>n. mapEntryType e = Inr n \<and> remapEntryType n = e) \<and>
   (\<exists>n. mapSource s = Inr n \<and> remapSource n = s) \<and>
   (\<exists>n. getAttributeName a = Inr n \<and> mapAttributeName n = Inr a) \<and>
   (\<exists>n. getPurposeDisplay p = Inr n \<and> mapPurpose n = Inr p) \<and>
   (case mapContentHandler2String b h of
      Inr n \<Rightarrow> remapContentHandler b n = Inr h \<and> checkContentHandler b n
    | Inl err \<Rightarrow> err = Invalid_content_handler \<and> h \<notin> fst ` set (chKeys b))"
proof (intro conjI)
  show "\<exists>n. mapEntryType e = Inr n \<and> remapEntryType n = e"
    using entry_type_known [of e] find_lower_map_of [OF lower_names_distinct(1)]
    by (fastforce simp: mapEntryType_def map_at_def remapEntryType_def)
  show "\<exists>n. mapSource s = Inr n \<and> remapSource n = s"
    using source_known [of s] find_lower_map_of [OF lower_names_distinct(2)]
    by (fastforce simp: mapSource_def map_at_def remapSource_def)
  show "\<exists>n. getAttributeName a = Inr n \<and> mapAttributeName n = Inr a"
    using attribute_known [of a] find_name_map_of [OF lower_names_distinct(4)]
    by (fastforce simp: getAttributeName_def map_at_def mapAttributeName_def)
  show "\<exists>n. getPurposeDisplay p = Inr n \<and> mapPurpose n = Inr p"
    using purpose_known [of p] find_lower_map_of [OF lower_names_distinct(3)]
    by (fastforce simp: getPurposeDisplay_def map_at_def mapPurpose_def)
  show "case mapContentHandler2String b h of
      Inr n \<Rightarrow> remapContentHandler b n = Inr h \<and> checkContentHandler b n
    | Inl err \<Rightarrow> err = Invalid_content_handler \<and> h \<notin> fst ` set (chKeys b)"
  proof (cases "map_of (chKeys b) h")
    case None
    then show ?thesis using None [unfolded map_of_eq_None_iff] by (simp add: mapContentHandler2String_def)
  next
    case (Some n)
    then have "find_name (chKeys b) n = Some h" by (rule find_name_map_of [OF handler_names_distinct])
    moreover have "(h, n) \<in> set (chKeys b)" using Some by (rule map_of_SomeD)
    ultimately show ?thesis using Some
      by (auto simp: mapContentHandler2String_def remapContentHandler_def checkContentHandler_def intro: bexI [of _ "(h, n)"])
  qed
qed

end
