(* ===== verification/CDS_Resource.thy ===== *)
theory CDS_Resource
  imports CDS_Enums URL_Utils
begin

text \<open>
  The resources of an object (\<open>src/src/cds/cds_resource.cc\<close>, \<open>cds_resource.h\<close>). Handlers are the
  numbers cast to \<open>ContentHandler\<close>. \<open>std::equal\<close> with three iterators reads the second range as far as
  the first one goes: reading past its end is the result \<open>None\<close>.
\<close>

fun equal3 :: "('a \<Rightarrow> 'a \<Rightarrow> bool) \<Rightarrow> 'a list \<Rightarrow> 'a list \<Rightarrow> bool option" where
  "equal3 eq [] ys = Some True"
| "equal3 eq (x # xs) [] = None"
| "equal3 eq (x # xs) (y # ys) = (if eq x y then equal3 eq xs ys else Some False)"

text \<open>\<open>\<open>\<and>\<close>\<close> with the short circuit of C++.\<close>

fun and_then :: "bool option \<Rightarrow> bool option \<Rightarrow> bool option" where
  "and_then (Some True) q = q"
| "and_then p q = p"

lemma and_then_True [simp]: "and_then p q = Some True \<longleftrightarrow> p = Some True \<and> q = Some True"
  by (cases "(p, q)" rule: and_then.cases) auto

lemma equal3_prefix: "equal3 (=) xs ys = Some True \<longleftrightarrow> (\<exists>zs. ys = xs @ zs)"
  by (induction "(=) :: 'a \<Rightarrow> 'a \<Rightarrow> bool" xs ys rule: equal3.induct) auto

lemma equal3_refl [simp]: "equal3 (=) xs xs = Some True"
  by (simp add: equal3_prefix)

lemma equal3_past_end: "equal3 (=) xs ys = None \<longleftrightarrow> (\<exists>z zs. xs = ys @ z # zs)"
  by (induction "(=) :: 'a \<Rightarrow> 'a \<Rightarrow> bool" xs ys rule: equal3.induct) auto

section \<open>Resources\<close>

record CdsResource =
  purpose :: ResourcePurpose
  handlerType :: int
  resId :: int
  attributes :: "(ResourceAttribute, string) smap"
  parameters :: "(string, string) smap"
  options :: "(string, string) smap"

definition new_resource ::
  "int \<Rightarrow> ResourcePurpose \<Rightarrow> (ResourceAttribute, string) smap \<Rightarrow> (string, string) smap \<Rightarrow> (string, string) smap \<Rightarrow>
   CdsResource" where
  "new_resource h p attrs par opts =
     \<lparr>purpose = p, handlerType = h, resId = - 1, attributes = attrs, parameters = par, options = opts\<rparr>"

definition new_resource_encoded :: "bool \<Rightarrow> int \<Rightarrow> ResourcePurpose \<Rightarrow> string \<Rightarrow> string \<Rightarrow> CdsResource" where
  "new_resource_encoded npupnp h p opts par =
     new_resource h p [] (dictDecode npupnp par [] True) (dictDecode npupnp opts [] True)"

definition addAttribute :: "ResourceAttribute \<Rightarrow> string \<Rightarrow> CdsResource \<Rightarrow> CdsResource" where
  "addAttribute a v r = r\<lparr>attributes := smap_assign a v (attributes r)\<rparr>"

definition addAttributeNumber :: "ResourceAttribute \<Rightarrow> int \<Rightarrow> CdsResource \<Rightarrow> CdsResource" where
  "addAttributeNumber a n r = r\<lparr>attributes := smap_assign a (show_int n) (attributes r)\<rparr>"

definition mergeAttributes :: "(ResourceAttribute, string) smap \<Rightarrow> CdsResource \<Rightarrow> CdsResource" where
  "mergeAttributes added r = r\<lparr>attributes := fold (\<lambda>(k, v). smap_assign k v) added (attributes r)\<rparr>"

definition addParameter :: "string \<Rightarrow> string \<Rightarrow> CdsResource \<Rightarrow> CdsResource" where
  "addParameter n v r = r\<lparr>parameters := smap_assign n v (parameters r)\<rparr>"

definition addOption :: "string \<Rightarrow> string \<Rightarrow> CdsResource \<Rightarrow> CdsResource" where
  "addOption n v r = r\<lparr>options := smap_assign n v (options r)\<rparr>"

definition getAttribute :: "CdsResource \<Rightarrow> ResourceAttribute \<Rightarrow> string" where
  "getAttribute r a = (case map_of (attributes r) a of Some v \<Rightarrow> v | None \<Rightarrow> [])"

definition getParameter :: "CdsResource \<Rightarrow> string \<Rightarrow> string" where
  "getParameter r n = getValueOrDefault (parameters r) n []"

definition getOption :: "CdsResource \<Rightarrow> string \<Rightarrow> string" where
  "getOption r n = getValueOrDefault (options r) n []"

definition resource_equals :: "CdsResource \<Rightarrow> CdsResource \<Rightarrow> bool option" where
  "resource_equals r s =
     and_then (Some (handlerType r = handlerType s))
       (and_then (Some (purpose r = purpose s))
         (and_then (equal3 (=) (attributes r) (attributes s))
           (and_then (equal3 (=) (parameters r) (parameters s)) (equal3 (=) (options r) (options s)))))"

definition clone_resource :: "CdsResource \<Rightarrow> CdsResource" where
  "clone_resource r = new_resource (handlerType r) (purpose r) (attributes r) (parameters r) (options r)"

section \<open>Reading the serialised form\<close>

definition std_stoi :: "string \<Rightarrow> cds_error + int" where
  "std_stoi str = (case std_sto 31 str of None \<Rightarrow> Inl Not_a_number | Some v \<Rightarrow> Inr v)"

text \<open>The attributes are taken over in the order of their names: a later name of the same attribute wins.\<close>

fun parse_attributes ::
  "(string \<times> string) list \<Rightarrow> (ResourceAttribute, string) smap \<Rightarrow> cds_error + (ResourceAttribute, string) smap" where
  "parse_attributes [] m = Inr m"
| "parse_attributes ((k, v) # kvs) m = bindE (mapAttributeName k) (\<lambda>a. parse_attributes kvs (smap_assign a v m))"

definition decode_resource :: "bool \<Rightarrow> string \<Rightarrow> cds_error + CdsResource" where
  "decode_resource npupnp serial =
     (let parts = splitString serial (CHR ''~'') (CHR 0x00) True; n = length parts in
      if n < 2 \<or> 4 < n then Inl Cannot_parse_resources
      else bindE (std_stoi (parts ! 0)) (\<lambda>h.
        bindE (parse_attributes (dictDecode npupnp (parts ! 1) [] True) []) (\<lambda>attrs.
          Inr (new_resource h (if h = handler_DEFAULT then Content else Thumbnail) attrs
            (if 3 \<le> n then dictDecode npupnp (parts ! 2) [] True else [])
            (if 4 \<le> n then dictDecode npupnp (parts ! 3) [] True else [])))))"

section \<open>Properties of the operations\<close>

definition resource_ok :: "CdsResource \<Rightarrow> bool" where
  "resource_ok r = (smap_ok (attributes r) \<and> smap_ok (parameters r) \<and> smap_ok (options r))"

lemma resource_ok_ops:
  assumes "resource_ok r"
  shows "resource_ok (addAttribute a v r)" "resource_ok (addAttributeNumber a n r)" "resource_ok (mergeAttributes added r)"
    "resource_ok (addParameter k v r)" "resource_ok (addOption k v r)" "resource_ok (clone_resource r)"
  using assms
  by (simp_all add: resource_ok_def addAttribute_def addAttributeNumber_def mergeAttributes_def addParameter_def
      addOption_def clone_resource_def new_resource_def smap_assign_ok assign.fill_ok)

lemma getAttribute_addAttribute:
  "resource_ok r \<Longrightarrow> getAttribute (addAttribute a v r) b = (if b = a then v else getAttribute r b)"
  by (simp add: resource_ok_def getAttribute_def addAttribute_def lookup_assign)

lemma clone_equals: "resource_equals r (clone_resource r) = Some True" "resource_equals (clone_resource r) r = Some True"
  by (simp_all add: resource_equals_def clone_resource_def new_resource_def)

end
