(* ===== verification/Flag_Words.thy ===== *)
theory Flag_Words
  imports Tools "HOL-Library.Word"
begin

text \<open>
  Flag words in configuration files and tables: a list of labels and a hexadecimal rest, separated by
  \<open>" | "\<close>, and the numerals with a prefix that the readers accept (\<open>src/src/util/tools.cc\<close>). The printers and
  readers of object flags and of media types share the contract \<open>flag_words\<close>.
\<close>

unbundle bit_operations_syntax

text \<open>The hexadecimal form of the flags without a label, \<open>{:#04x}\<close>.\<close>

definition hex_digit :: "nat \<Rightarrow> char" where
  "hex_digit d = (if d < 10 then char_of (48 + d) else char_of (87 + d))"

fun show_hex :: "nat \<Rightarrow> string" where
  "show_hex n = (if n < 16 then [hex_digit n] else show_hex (n div 16) @ [hex_digit (n mod 16)])"

declare show_hex.simps [simp del]

definition format_hex :: "nat \<Rightarrow> string" where
  "format_hex n = (let s = show_hex n in ''0x'' @ replicate (2 - length s) (CHR ''0'') @ s)"

text \<open>\<open>stoulString\<close> with base 0: the prefix chooses between 16, 8 and 10.\<close>

definition hex_val :: "char \<Rightarrow> nat" where
  "hex_val c = (let n = code_of c in
     if 48 \<le> n \<and> n \<le> 57 then n - 48 else if 97 \<le> n \<and> n \<le> 102 then n - 87
     else if 65 \<le> n \<and> n \<le> 70 then n - 55 else 16)"

definition read_base :: "nat \<Rightarrow> string \<Rightarrow> nat" where
  "read_base b s = foldl (\<lambda>a c. b * a + hex_val c) 0 (takeWhile (\<lambda>c. hex_val c < b) s)"

definition read_prefixed :: "string \<Rightarrow> nat" where
  "read_prefixed s =
     (case s of
        z # x # h # _ \<Rightarrow>
          if z = CHR ''0'' \<and> (x = CHR ''x'' \<or> x = CHR ''X'') \<and> hex_val h < 16 then read_base 16 (drop 2 s)
          else if z = CHR ''0'' then read_base 8 s else read_base 10 s
      | z # _ \<Rightarrow> if z = CHR ''0'' then read_base 8 s else read_base 10 s
      | [] \<Rightarrow> 0)"

definition stoulString0 :: "string \<Rightarrow> int \<Rightarrow> int" where
  "stoulString0 str def =
     (if \<not> starts_number str then def
      else let v = (if hd str = CHR ''-'' then - int (read_prefixed (tl str)) else int (read_prefixed str))
           in if \<bar>v\<bar> < 2 ^ 64 then v mod 2 ^ 64 else def)"

definition stoiString0 :: "string \<Rightarrow> int \<Rightarrow> int" where
  "stoiString0 str def =
     (if \<not> starts_number str then def
      else let v = (if hd str = CHR ''-'' then - int (read_prefixed (tl str)) else int (read_prefixed str))
           in if - (2 ^ 31) \<le> v \<and> v < 2 ^ 31 then v else def)"

section \<open>The printed form is read back\<close>

lemma hex_val_hex_digit: "d < 16 \<Longrightarrow> hex_val (hex_digit d) = d"
  by (simp add: hex_val_def hex_digit_def)

lemma foldl_base: "foldl (\<lambda>a c. b * a + hex_val c) a (s @ [c]) = b * foldl (\<lambda>a c. b * a + hex_val c) a s + hex_val c"
  by simp

lemma show_hex_val:
  "(\<forall>c \<in> set (show_hex n). hex_val c < 16) \<and> show_hex n \<noteq> [] \<and> foldl (\<lambda>a c. 16 * a + hex_val c) 0 (show_hex n) = n"
proof (induction n rule: show_hex.induct)
  case (1 n)
  show ?case
  proof (cases "n < 16")
    case True
    then show ?thesis by (subst (1 2 3) show_hex.simps) (simp add: hex_val_hex_digit)
  next
    case False
    then have "show_hex n = show_hex (n div 16) @ [hex_digit (n mod 16)]" by (subst show_hex.simps) simp
    then show ?thesis using 1 [OF False] by (auto simp: hex_val_hex_digit)
  qed
qed

lemma read_format_hex: "read_prefixed (format_hex n) = n"
proof -
  have zeros: "foldl (\<lambda>a c. 16 * a + hex_val c) 0 (replicate k (CHR ''0'')) = 0" for k
    by (induction k) (simp_all add: hex_val_def)
  let ?s = "replicate (2 - length (show_hex n)) (CHR ''0'') @ show_hex n"
  have d: "\<forall>c \<in> set ?s. hex_val c < 16" using show_hex_val [of n] by (auto simp: hex_val_def)
  obtain h t where s: "?s = h # t" using show_hex_val [of n] by (cases ?s) auto
  then have "hex_val h < 16" using d by simp
  have "read_base 16 ?s = n"
    unfolding read_base_def using d show_hex_val [of n] by (subst takeWhile_eq_all_conv [THEN iffD2]) (auto simp: zeros)
  moreover have "format_hex n = CHR ''0'' # CHR ''x'' # h # t" using s by (simp add: format_hex_def Let_def)
  ultimately show ?thesis using s \<open>hex_val h < 16\<close> by (simp add: read_prefixed_def)
qed

lemma single_bit:
  assumes "flags AND push_bit n 1 \<noteq> 0"
  shows "push_bit n 1 OR (flags AND NOT (push_bit n 1)) = (flags :: 32 word)"
proof -
  have "bit flags n" using assms by (simp add: and_exp_eq_0_iff_not_bit push_bit_eq_mult)
  then show ?thesis
    by (intro bit_eqI) (auto simp: bit_simps)
qed

lemma trim_pad:
  "w \<noteq> [] \<Longrightarrow> \<not> isspace (hd w) \<Longrightarrow> \<not> isspace (last w) \<Longrightarrow> \<forall>c \<in> set p. isspace c \<Longrightarrow> \<forall>c \<in> set q. isspace c \<Longrightarrow>
   trimString (p @ w @ q) = w"
proof -
  assume w: "w \<noteq> []" "\<not> isspace (hd w)" "\<not> isspace (last w)" and p: "\<forall>c \<in> set p. isspace c" "\<forall>c \<in> set q. isspace c"
  have a: "dropWhile isspace (x @ y) = y" if "\<forall>c \<in> set x. isspace c" "y \<noteq> []" "\<not> isspace (hd y)" for x y
    using that by (cases y) auto
  have "dropWhile isspace (p @ w @ q) = w @ q" using w by (intro a p) auto
  moreover have "dropWhile isspace (rev q @ rev w) = rev w" using w p by (intro a) (auto simp: hd_rev)
  ultimately show "trimString (p @ w @ q) = w" using w by (simp add: trimString_def)
qed

text \<open>The printed labels come back from \<open>splitString\<close> with a blank on the inner sides.\<close>

fun padded :: "bool \<Rightarrow> string list \<Rightarrow> string list" where
  "padded h [] = []"
| "padded h (w # ws) = ((if h then [] else [CHR '' '']) @ w @ (if ws = [] then [] else [CHR '' ''])) # padded False ws"

lemma join_padded: "join [CHR ''|''] (padded h ws) = (if h \<or> ws = [] then [] else '' '') @ join '' | '' ws"
proof (induction ws arbitrary: h)
  case (Cons w ws)
  moreover have "padded False ws \<noteq> []" if "ws \<noteq> []" using that by (cases ws) simp_all
  ultimately show ?case by (auto simp: join_Cons)
qed simp

lemma trim_padded:
  "\<forall>w \<in> set ws. w \<noteq> [] \<and> \<not> isspace (hd w) \<and> \<not> isspace (last w) \<Longrightarrow> map trimString (padded h ws) = ws"
proof (induction ws arbitrary: h)
  case (Cons w ws)
  then have "trimString ((if h then [] else [CHR '' '']) @ w @ (if ws = [] then [] else [CHR '' ''])) = w"
    by (intro trim_pad) (auto simp: isspace_def)
  then show ?case using Cons by simp
qed simp

lemma splitString_join:
  "sep \<noteq> quote \<Longrightarrow> \<forall>x \<in> set xs. x \<noteq> [] \<and> sep \<notin> set x \<and> quote \<notin> set x \<Longrightarrow> xs \<noteq> [] \<Longrightarrow>
   splitString (join [sep] xs) sep quote False = xs"
  by (simp add: splitString_segments segments_join)

text \<open>The labels and the hexadecimal rest have no separator in them and no blank at their ends.\<close>

definition flag_word :: "string \<Rightarrow> bool" where
  "flag_word w = (w \<noteq> [] \<and> \<not> isspace (hd w) \<and> \<not> isspace (last w) \<and> CHR ''|'' \<notin> set w \<and> CHR 0x00 \<notin> set w)"

lemma hex_digit_plain: "d < 16 \<Longrightarrow> \<not> isspace (hex_digit d) \<and> hex_digit d \<noteq> CHR ''|'' \<and> hex_digit d \<noteq> CHR 0x00"
  by (auto simp: hex_digit_def isspace_def char_eq_code)

lemma show_hex_plain: "c \<in> set (show_hex n) \<Longrightarrow> \<not> isspace c \<and> c \<noteq> CHR ''|'' \<and> c \<noteq> CHR 0x00"
proof (induction n rule: show_hex.induct)
  case (1 n)
  show ?case
  proof (cases "n < 16")
    case True
    then have "show_hex n = [hex_digit n]" by (subst show_hex.simps) simp
    then show ?thesis using True 1(2) by (simp add: hex_digit_plain)
  next
    case False
    then have "show_hex n = show_hex (n div 16) @ [hex_digit (n mod 16)]" by (subst show_hex.simps) simp
    then show ?thesis using 1 False by (auto simp: hex_digit_plain)
  qed
qed

lemma flag_word_hex: "flag_word (format_hex n)"
proof -
  have "last (format_hex n) = last (show_hex n)" using show_hex_val [of n] by (simp add: format_hex_def Let_def)
  moreover have "last (show_hex n) \<in> set (show_hex n)" using show_hex_val [of n] by simp
  ultimately have "\<not> isspace (last (format_hex n))" using show_hex_plain by metis
  then show ?thesis using show_hex_plain [of _ n] by (auto simp: flag_word_def format_hex_def Let_def isspace_def)
qed

lemma padded_words:
  "\<forall>w \<in> set ws. flag_word w \<Longrightarrow> x \<in> set (padded h ws) \<Longrightarrow> x \<noteq> [] \<and> CHR ''|'' \<notin> set x \<and> CHR 0x00 \<notin> set x"
proof (induction ws arbitrary: h)
  case (Cons w ws)
  show ?case
  proof (cases "x \<in> set (padded False ws)")
    case True
    then show ?thesis using Cons by simp
  next
    case False
    then have "x = (if h then [] else [CHR '' '']) @ w @ (if ws = [] then [] else [CHR '' ''])"
      using Cons.prems(2) by simp
    moreover have "flag_word w" using Cons.prems(1) by simp
    ultimately show ?thesis by (simp add: flag_word_def)
  qed
qed simp

text \<open>The reader of a signed integer accepts what fits 31 bits.\<close>

lemma stoiString0_format_hex:
  assumes "\<not> bit w 31"
  shows "word_of_int (stoiString0 (format_hex (unat w)) 0) = (w :: 32 word)"
proof -
  obtain t where t: "format_hex (unat w) = CHR ''0'' # t" by (simp add: format_hex_def Let_def)
  have "take_bit 31 w = w"
  proof (rule bit_word_eqI)
    fix n assume "n < LENGTH(32)"
    then show "bit (take_bit 31 w) n = bit w n" using assms by (cases "n = 31") (auto simp: bit_take_bit_iff)
  qed
  then have "uint w = take_bit 31 (uint w)" by (metis unsigned_take_bit_eq)
  then have "uint w < 2 ^ 31" by (metis take_bit_int_less_exp)
  moreover have "- 2147483648 \<le> uint w" by (rule order_trans [where y = 0]) simp_all
  ultimately show ?thesis
    using t read_format_hex [of "unat w"] by (simp add: stoiString0_def starts_number_def isdigit_def Let_def)
qed

lemma toLower_format_hex: "\<exists>t. toLower (format_hex n) = CHR ''0'' # t"
  by (simp add: format_hex_def Let_def toLower_def char_defs)

text \<open>Joined words have no blank at their ends.\<close>

lemma joined_words:
  assumes "\<forall>w \<in> set ws. flag_word w" and "ws \<noteq> []"
  shows "join '' | '' ws \<noteq> [] \<and> hd (join '' | '' ws) = hd (hd ws) \<and> \<not> isspace (hd (join '' | '' ws)) \<and>
    \<not> isspace (last (join '' | '' ws))"
  using assms
proof (induction ws)
  case (Cons w ws)
  have w: "w \<noteq> []" "\<not> isspace (hd w)" "\<not> isspace (last w)" using Cons.prems(1) by (auto simp: flag_word_def)
  show ?case
  proof (cases "ws = []")
    case False
    then have "join '' | '' ws \<noteq> [] \<and> \<not> isspace (last (join '' | '' ws))" using Cons by simp
    then show ?thesis using w False by (simp add: join_Cons)
  qed (use w in \<open>simp add: join_Cons\<close>)
qed simp

lemma trim_joined:
  assumes "\<forall>w \<in> set ws. flag_word w" and "ws \<noteq> []"
  shows "trimString (join '' | '' ws) = join '' | '' ws"
    and "\<not> isspace c \<Longrightarrow> trimString (c # join '' | '' ws) = c # join '' | '' ws"
  using joined_words [OF assms] trim_pad [of "join '' | '' ws" "[]" "[]"] trim_pad [of "c # join '' | '' ws" "[]" "[]"]
  by auto

section \<open>The contract of a printer and a reader of flags\<close>

locale flag_words =
  fixes shift :: "'f \<Rightarrow> 32 word"
    and remap :: "string \<Rightarrow> 32 word"
    and labels :: "('f \<times> string) list \<Rightarrow> 32 word \<Rightarrow> string list \<times> 32 word"
    and make :: "string \<Rightarrow> 32 word"
    and small :: "32 word \<Rightarrow> bool"
  assumes labels_Nil: "labels [] flags = ([], flags)"
    and labels_skip: "flags AND shift f = 0 \<Longrightarrow> labels ((f, l) # t) flags = labels t flags"
    and labels_take: "flags AND shift f \<noteq> 0 \<Longrightarrow>
          labels ((f, l) # t) flags = (let (ls, rest) = labels t (flags AND NOT (shift f)) in (l # ls, rest))"
    and make_split: "make s = foldl (\<lambda>flg i. flg OR remap (trimString i)) 0 (splitString s (CHR ''|'') (CHR 0x00) False)"
    and remap_hex: "small w \<Longrightarrow> remap (format_hex (unat w)) = w"
    and small_sub: "small w \<Longrightarrow> small (w AND v)"
begin

lemma remap_fold_trim: "foldl (\<lambda>flg i. flg OR remap (trimString i)) a xs = foldl (\<lambda>flg l. flg OR remap l) a (map trimString xs)"
  by (induction xs arbitrary: a) simp_all

lemma make_join:
  assumes "\<forall>w \<in> set ws. flag_word w" "ws \<noteq> []"
  shows "make (join '' | '' ws) = foldl (\<lambda>flg l. flg OR remap l) 0 ws"
proof -
  have j: "join '' | '' ws = join [CHR ''|''] (padded True ws)" by (simp add: join_padded)
  have "\<forall>x \<in> set (padded h ws). x \<noteq> [] \<and> CHR ''|'' \<notin> set x \<and> CHR 0x00 \<notin> set x" for h
    using padded_words [OF assms(1)] by blast
  moreover have "padded True ws \<noteq> []" using assms(2) by (cases ws) simp_all
  ultimately have "splitString (join '' | '' ws) (CHR ''|'') (CHR 0x00) False = padded True ws"
    unfolding j by (intro splitString_join) simp_all
  moreover have "map trimString (padded True ws) = ws"
    using assms(1) by (intro trim_padded) (simp add: flag_word_def)
  ultimately show ?thesis by (simp add: make_split remap_fold_trim)
qed

text \<open>Each flag of the word is a label read back to it, a bit without a label, or no bit of the word.\<close>

lemma read_labels:
  assumes "\<forall>(f, l) \<in> set t. flags AND shift f = 0 \<or> (remap l = shift f \<and> (\<exists>n. shift f = push_bit n 1))"
    and "labels t flags = (ls, rest)" and "small flags"
  shows "foldl (\<lambda>a l. a OR remap l) acc ls OR rest = acc OR flags \<and> set ls \<subseteq> snd ` set t \<and> small rest"
  using assms
proof (induction t arbitrary: flags ls acc)
  case Nil
  then show ?case by (simp add: labels_Nil)
next
  case (Cons e t)
  obtain f l where e: "e = (f, l)" by (cases e)
  let ?u = "shift f"
  show ?case
  proof (cases "flags AND ?u = 0")
    case True
    then have "foldl (\<lambda>a l. a OR remap l) acc ls OR rest = acc OR flags \<and> set ls \<subseteq> snd ` set t \<and> small rest"
      using Cons.prems e by (intro Cons.IH) (simp_all add: labels_skip)
    then show ?thesis using e by auto
  next
    case False
    then obtain n where f: "remap l = ?u" and n: "?u = push_bit n 1" using Cons.prems(1) e by auto
    obtain ls' where ls: "ls = l # ls'" "labels t (flags AND NOT ?u) = (ls', rest)"
      using Cons.prems(2) e False by (auto simp: labels_take Let_def split: prod.splits)
    have z: "(flags AND NOT ?u) AND v = 0" if "flags AND v = 0" for v
    proof -
      have "(flags AND NOT ?u) AND v = (flags AND v) AND NOT ?u" by (simp add: ac_simps)
      then show ?thesis using that by simp
    qed
    have p: "flags AND shift g = 0 \<or> (remap k = shift g \<and> (\<exists>n. shift g = push_bit n 1))" if "(g, k) \<in> set t" for g k
      using bspec [OF Cons.prems(1), of "(g, k)"] that by (simp only: prod.case list.set insert_iff) simp
    have "foldl (\<lambda>a l. a OR remap l) (acc OR ?u) ls' OR rest = (acc OR ?u) OR (flags AND NOT ?u) \<and>
        set ls' \<subseteq> snd ` set t \<and> small rest"
    proof (intro Cons.IH [OF _ ls(2)])
      show "\<forall>(g, k) \<in> set t. (flags AND NOT ?u) AND shift g = 0 \<or> (remap k = shift g \<and> (\<exists>n. shift g = push_bit n 1))"
        using p z by blast
    qed (use Cons.prems(3) small_sub in auto)
    moreover have "?u OR (flags AND NOT ?u) = flags" using False unfolding n by (rule single_bit)
    ultimately show ?thesis using ls(1) f e by (auto simp: or.assoc)
  qed
qed

lemma print_read:
  assumes "\<forall>(f, l) \<in> set t. flags AND shift f = 0 \<or> (remap l = shift f \<and> (\<exists>n. shift f = push_bit n 1))"
    and "labels t flags = (ls, rest)" and "small flags" and "flags \<noteq> 0" and "\<forall>w \<in> snd ` set t. flag_word w"
  shows "make (join '' | '' (ls @ (if rest \<noteq> 0 then [format_hex (unat rest)] else []))) = flags"
proof -
  have m: "foldl (\<lambda>a l. a OR remap l) 0 ls OR rest = 0 OR flags \<and> set ls \<subseteq> snd ` set t \<and> small rest"
    by (rule read_labels [OF assms(1,2,3)])
  let ?ws = "ls @ (if rest \<noteq> 0 then [format_hex (unat rest)] else [])"
  have "?ws \<noteq> []" using m assms(4) by auto
  moreover have "\<forall>w \<in> set ?ws. flag_word w" using m assms(5) flag_word_hex by auto
  ultimately have "make (join '' | '' ?ws) = foldl (\<lambda>flg l. flg OR remap l) 0 ?ws"
    by (intro make_join)
  also have "\<dots> = flags" using m by (auto simp: remap_hex)
  finally show ?thesis .
qed

end

end
