(* ===== verification/CDS_Flags.thy ===== *)
theory CDS_Flags
  imports CDS_Enums Flag_Words
begin

text \<open>
  The flag word of an object (\<open>src/src/cds/cds_enums.h\<close>, \<open>src/src/cds/cds_objects.cc\<close>): its flags, its
  printed form, and the reader of that form. The printer evaluates \<open>1U << -1\<close> for the label
  \<open>None\<close>, which C++ leaves undefined; the word the build computes there is the parameter \<open>undef\<close>.
\<close>

unbundle bit_operations_syntax

datatype ObjectFlag =
  No_flag | Restricted | Searchable | UseResourceReference | PersistentContainer | PlaylistReference | ProxyUrl |
  OnlineServiceFlag | OggTheora

fun flag_bit :: "ObjectFlag \<Rightarrow> nat option" where
  "flag_bit No_flag = None"
| "flag_bit Restricted = Some 0"
| "flag_bit Searchable = Some 1"
| "flag_bit UseResourceReference = Some 2"
| "flag_bit PersistentContainer = Some 3"
| "flag_bit PlaylistReference = Some 4"
| "flag_bit ProxyUrl = Some 5"
| "flag_bit OnlineServiceFlag = Some 6"
| "flag_bit OggTheora = Some 7"

definition getFlag :: "ObjectFlag \<Rightarrow> 32 word" where
  "getFlag f = (case flag_bit f of None \<Rightarrow> 0 | Some n \<Rightarrow> push_bit n 1)"

definition shift_flag :: "32 word \<Rightarrow> ObjectFlag \<Rightarrow> 32 word" where
  "shift_flag undef f = (case flag_bit f of None \<Rightarrow> undef | Some n \<Rightarrow> push_bit n 1)"

definition upnpObjectFlags :: "(ObjectFlag \<times> string) list" where
  "upnpObjectFlags =
     [(No_flag, ''None''), (Restricted, ''Restricted''), (Searchable, ''Searchable''),
      (UseResourceReference, ''UseResourceRef''), (PersistentContainer, ''PersistentContainer''),
      (PlaylistReference, ''PlaylistRef''), (ProxyUrl, ''ProxyUrl''), (OnlineServiceFlag, ''OnlineService''),
      (OggTheora, ''OggTheora'')]"

fun flag_labels :: "32 word \<Rightarrow> (ObjectFlag \<times> string) list \<Rightarrow> 32 word \<Rightarrow> string list \<times> 32 word" where
  "flag_labels undef [] flags = ([], flags)"
| "flag_labels undef ((f, uLabel) # t) flags =
     (let uFlag = shift_flag undef f
      in if flags AND uFlag \<noteq> 0
         then (let (ls, rest) = flag_labels undef t (flags AND NOT uFlag) in (uLabel # ls, rest))
         else flag_labels undef t flags)"

definition mapFlags :: "32 word \<Rightarrow> 32 word \<Rightarrow> string" where
  "mapFlags undef flags =
     (if flags = 0 then ''None''
      else let (ls, rest) = flag_labels undef upnpObjectFlags flags
           in join '' | '' (ls @ (if rest \<noteq> 0 then [format_hex (unat rest)] else [])))"

definition mapFlag :: "ObjectFlag \<Rightarrow> string" where
  "mapFlag f = (case map_of upnpObjectFlags f of Some l \<Rightarrow> l | None \<Rightarrow> ''None'')"

definition remapFlags :: "32 word \<Rightarrow> string \<Rightarrow> 32 word" where
  "remapFlags undef flag =
     (if toLower flag = toLower ''None'' then 0
      else case find_lower upnpObjectFlags flag of
        Some f \<Rightarrow> shift_flag undef f
      | None \<Rightarrow> word_of_int (stoulString0 flag 0))"

definition makeFlag :: "32 word \<Rightarrow> string \<Rightarrow> 32 word" where
  "makeFlag undef optValue =
     foldl (\<lambda>flg i. flg OR remapFlags undef (trimString i)) 0 (splitString optValue (CHR ''|'') (CHR 0x00) False)"

section \<open>The printed form is read back\<close>

lemma remap_labels: "\<forall>(f, l) \<in> set upnpObjectFlags. f = No_flag \<or> remapFlags undef l = shift_flag undef f"
  by (simp add: upnpObjectFlags_def remapFlags_def toLower_def tolower_def isupper_def Let_def)

lemma remap_format_hex: "remapFlags undef (format_hex (unat w)) = w"
proof -
  obtain t where t: "format_hex (unat w) = CHR ''0'' # t" by (simp add: format_hex_def Let_def)
  then have "toLower (format_hex (unat w)) = CHR ''0'' # toLower t" by (simp add: toLower_def char_defs)
  moreover have "\<forall>e \<in> set upnpObjectFlags. hd (toLower (snd e)) \<noteq> CHR ''0''" by code_simp
  moreover have "hd (toLower ''None'') \<noteq> CHR ''0''" by code_simp
  ultimately have "find_lower upnpObjectFlags (format_hex (unat w)) = None" "toLower (format_hex (unat w)) \<noteq> toLower ''None''"
    unfolding find_lower_None by (metis list.sel(1))+
  moreover have "uint w < 2 ^ 64" using unsigned_less [of w, where 'a=int] by simp
  ultimately show ?thesis
    using t read_format_hex [of "unat w"] by (simp add: remapFlags_def stoulString0_def starts_number_def isdigit_def)
qed
lemma flag_word_label: "\<forall>w \<in> snd ` set upnpObjectFlags. flag_word w"
  by code_simp

interpretation object_flags: flag_words "shift_flag undef" "remapFlags undef" "flag_labels undef" "makeFlag undef" "\<lambda>w. True"
  for undef
  by unfold_locales (auto simp: Let_def makeFlag_def remap_format_hex split: prod.splits)

text \<open>The printed flags of an object are read back to the same word, as long as the word shares no
  bit with what \<open>1U << -1\<close> happens to be: the labels, their separators and the hexadecimal rest lose
  no flag.\<close>

theorem flags_roundtrip:
  assumes "flags AND undef = 0"
  shows "makeFlag undef (mapFlags undef flags) = flags"
proof (cases "flags = 0")
  case True
  have "makeFlag undef (join '' | '' [''None'']) = foldl (\<lambda>flg l. flg OR remapFlags undef l) 0 [''None'']"
    by (rule object_flags.make_join) (simp_all add: flag_word_def isspace_def)
  then show ?thesis using True by (simp add: mapFlags_def remapFlags_def)
next
  case False
  obtain ls rest where l: "flag_labels undef upnpObjectFlags flags = (ls, rest)" by (cases "flag_labels undef upnpObjectFlags flags")
  have "flags AND shift_flag undef f = 0 \<or> (remapFlags undef k = shift_flag undef f \<and> (\<exists>n. shift_flag undef f = push_bit n 1))"
    if "(f, k) \<in> set upnpObjectFlags" for f k
  proof (cases "flag_bit f")
    case None
    then show ?thesis using assms by (simp add: shift_flag_def)
  next
    case (Some n)
    then have "f \<noteq> No_flag" by auto
    then show ?thesis using that remap_labels [of undef] Some by (auto simp: shift_flag_def simp del: push_bit_of_1)
  qed
  then show ?thesis
    using object_flags.print_read [OF _ l] False l flag_word_label by (simp add: mapFlags_def case_prod_beta)
qed

lemma flags_roundtrip_witness:
  "makeFlag 0x80000000 (mapFlags 0x80000000 0x1285) = 0x1285"
  by (rule flags_roundtrip) simp

text \<open>The undefined shift shows: where it gives the top bit, a word with that bit prints as \<open>None\<close> and
  loses it.\<close>

lemma flags_top_bit_lost:
  "mapFlags 0x80000000 0x80000001 = ''None | Restricted'' \<and>
   makeFlag 0x80000000 (mapFlags 0x80000000 0x80000001) = 1"
proof -
  have "mapFlags 0x80000000 0x80000001 = join '' | '' [''None'', ''Restricted'']"
    by (simp add: mapFlags_def upnpObjectFlags_def shift_flag_def Let_def)
  moreover have "makeFlag 0x80000000 (join '' | '' [''None'', ''Restricted'']) =
      foldl (\<lambda>flg l. flg OR remapFlags 0x80000000 l) 0 [''None'', ''Restricted'']"
    by (rule object_flags.make_join) (simp_all add: flag_word_def isspace_def)
  moreover have "remapFlags 0x80000000 ''Restricted'' = shift_flag 0x80000000 Restricted"
    using remap_labels [of "0x80000000"] by (simp add: upnpObjectFlags_def)
  ultimately show ?thesis by (simp add: remapFlags_def [of _ "''None''"] shift_flag_def)
qed

end
