(* ===== verification/Metadata.thy ===== *)
theory Metadata
  imports CDS_Enums
begin

text \<open>
  The metadata fields and their names (\<open>src/src/metadata/metadata_enums.h\<close>, \<open>metadata_enums.cc\<close>), and the
  metadata of an object as its list of named values (\<open>CdsObject\<close> in \<open>src/src/cds/cds_objects.h\<close>).
\<close>

datatype MetadataFields =
  M_TITLE | M_ARTIST | M_ALBUM | M_DATE | M_CREATION_DATE | M_UPNP_DATE | M_GENRE | M_DESCRIPTION |
  M_LONGDESCRIPTION | M_PARTNUMBER | M_TRACKNUMBER | M_ALBUMARTURI | M_REGION | M_CREATOR | M_AUTHOR | M_DIRECTOR |
  M_PUBLISHER | M_RATING | M_ACTOR | M_PRODUCER | M_ALBUMARTIST | M_COMPOSER | M_CONDUCTOR | M_ORCHESTRA |
  M_CONTENT_CLASS | M_UPNP_SHORTCUT | M_MAX

definition mt_single :: "(MetadataFields \<times> bool) list" where
  "mt_single =
     [(M_TITLE, True), (M_ARTIST, False), (M_ALBUM, True), (M_DATE, True), (M_CREATION_DATE, True),
      (M_UPNP_DATE, True), (M_GENRE, False), (M_DESCRIPTION, False), (M_LONGDESCRIPTION, False),
      (M_PARTNUMBER, True), (M_TRACKNUMBER, True), (M_ALBUMARTURI, False), (M_REGION, False), (M_CREATOR, False),
      (M_AUTHOR, False), (M_DIRECTOR, False), (M_PUBLISHER, False), (M_RATING, True), (M_ACTOR, False),
      (M_PRODUCER, False), (M_ALBUMARTIST, False), (M_COMPOSER, False), (M_CONDUCTOR, False), (M_ORCHESTRA, False),
      (M_CONTENT_CLASS, True), (M_UPNP_SHORTCUT, True)]"

definition mt_keys :: "(MetadataFields \<times> string) list" where
  "mt_keys =
     [(M_TITLE, ''dc:title''), (M_ARTIST, ''upnp:artist''), (M_ALBUM, ''upnp:album''), (M_DATE, ''dc:date''),
      (M_CREATION_DATE, ''dc:created''), (M_UPNP_DATE, ''upnp:date''), (M_GENRE, ''upnp:genre''),
      (M_DESCRIPTION, ''dc:description''), (M_LONGDESCRIPTION, ''upnp:longDescription''),
      (M_PARTNUMBER, ''upnp:episodeSeason''), (M_TRACKNUMBER, ''upnp:originalTrackNumber''),
      (M_ALBUMARTURI, ''upnp:albumArtURI''), (M_REGION, ''upnp:region''), (M_CREATOR, ''dc:creator''),
      (M_AUTHOR, ''upnp:author''), (M_DIRECTOR, ''upnp:director''), (M_PUBLISHER, ''dc:publisher''),
      (M_RATING, ''upnp:rating''), (M_ACTOR, ''upnp:actor''), (M_PRODUCER, ''upnp:producer''),
      (M_ALBUMARTIST, ''upnp:artist@role[AlbumArtist]''), (M_COMPOSER, ''upnp:composer''),
      (M_CONDUCTOR, ''upnp:conductor''), (M_ORCHESTRA, ''upnp:orchestra''),
      (M_CONTENT_CLASS, ''upnp:contentClass''), (M_UPNP_SHORTCUT, ''upnp:shortcut'')]"

text \<open>The names scripts use (\<open>src/src/content/scripting/script_names.h\<close>).\<close>

definition mt_names :: "(MetadataFields \<times> string) list" where
  "mt_names =
     [(M_TITLE, ''M_TITLE''), (M_ARTIST, ''M_ARTIST''), (M_ALBUM, ''M_ALBUM''), (M_DATE, ''M_DATE''),
      (M_CREATION_DATE, ''M_CREATION_DATE''), (M_UPNP_DATE, ''M_UPNP_DATE''), (M_GENRE, ''M_GENRE''),
      (M_DESCRIPTION, ''M_DESCRIPTION''), (M_LONGDESCRIPTION, ''M_LONGDESCRIPTION''),
      (M_PARTNUMBER, ''M_PARTNUMBER''), (M_TRACKNUMBER, ''M_TRACKNUMBER''), (M_ALBUMARTURI, ''M_ALBUMARTURI''),
      (M_REGION, ''M_REGION''), (M_CREATOR, ''M_CREATOR''), (M_AUTHOR, ''M_AUTHOR''), (M_DIRECTOR, ''M_DIRECTOR''),
      (M_PUBLISHER, ''M_PUBLISHER''), (M_RATING, ''M_RATING''), (M_ACTOR, ''M_ACTOR''), (M_PRODUCER, ''M_PRODUCER''),
      (M_ALBUMARTIST, ''M_ALBUMARTIST''), (M_COMPOSER, ''M_COMPOSER''), (M_CONDUCTOR, ''M_CONDUCTOR''),
      (M_ORCHESTRA, ''M_ORCHESTRA''), (M_CONTENT_CLASS, ''M_CONTENT_CLASS''), (M_UPNP_SHORTCUT, ''M_UPNP_SHORTCUT'')]"

definition remapMetaDataField :: "string \<Rightarrow> MetadataFields" where
  "remapMetaDataField fieldName =
     (case find_name mt_names fieldName of
        Some f \<Rightarrow> f
      | None \<Rightarrow> (case find_name mt_keys fieldName of Some f \<Rightarrow> f | None \<Rightarrow> M_MAX))"

definition getMetaFieldName :: "MetadataFields \<Rightarrow> string" where
  "getMetaFieldName field = (case map_of mt_keys field of Some n \<Rightarrow> n | None \<Rightarrow> ''unknown'')"

section \<open>The metadata of an object\<close>

type_synonym metadata = "(string \<times> string) list"

definition getMetaDataByName :: "metadata \<Rightarrow> string \<Rightarrow> string" where
  "getMetaDataByName md field = (case map_of md field of Some v \<Rightarrow> v | None \<Rightarrow> [])"

definition getMetaData :: "metadata \<Rightarrow> MetadataFields \<Rightarrow> string" where
  "getMetaData md key = getMetaDataByName md (getMetaFieldName key)"

fun getMetaGroupByName :: "metadata \<Rightarrow> string \<Rightarrow> string list" where
  "getMetaGroupByName [] field = []"
| "getMetaGroupByName ((k, v) # md) field =
     (if k \<noteq> field then getMetaGroupByName md field else v # getMetaGroupByName md field)"

definition getMetaGroup :: "metadata \<Rightarrow> MetadataFields \<Rightarrow> string list" where
  "getMetaGroup md key = getMetaGroupByName md (getMetaFieldName key)"

text \<open>\<open>try_emplace\<close> puts an empty vector for a new name; the value goes to the end of the name's vector.\<close>

definition push_group :: "string \<Rightarrow> string \<Rightarrow> (string, string list) smap \<Rightarrow> (string, string list) smap" where
  "push_group k v groups =
     (let g = smap_emplace k [] groups
      in smap_assign k ((case map_of g k of Some vec \<Rightarrow> vec | None \<Rightarrow> []) @ [v]) g)"

definition getMetaGroups :: "metadata \<Rightarrow> (string, string list) smap" where
  "getMetaGroups md = fold (\<lambda>(k, v). push_group k v) md []"

definition removeMetaDataByName :: "string \<Rightarrow> metadata \<Rightarrow> metadata" where
  "removeMetaDataByName field md = filter (\<lambda>e. fst e \<noteq> field) md"

definition removeMetaData :: "MetadataFields \<Rightarrow> metadata \<Rightarrow> metadata" where
  "removeMetaData key md = removeMetaDataByName (getMetaFieldName key) md"

definition addMetaDataByName :: "string \<Rightarrow> string \<Rightarrow> metadata \<Rightarrow> metadata" where
  "addMetaDataByName key v md = md @ [(key, v)]"

definition addMetaData :: "MetadataFields \<Rightarrow> string \<Rightarrow> metadata \<Rightarrow> cds_error + metadata" where
  "addMetaData key v md =
     bindE (map_at mt_single key) (\<lambda>single.
       Inr ((if single then removeMetaData key md else md) @ [(getMetaFieldName key, v)]))"

section \<open>Properties\<close>

lemma mt_key_known: "key \<noteq> M_MAX \<Longrightarrow> \<exists>n. map_of mt_keys key = Some n"
  by (cases key) (simp_all add: mt_keys_def)

lemma mt_key_names_distinct: "distinct (map snd mt_keys)"
  by code_simp

lemma mt_names_not_keys: "\<forall>e \<in> set mt_keys. find_name mt_names (snd e) = None"
  by code_simp

lemma remap_getMetaFieldName: "key \<noteq> M_MAX \<Longrightarrow> remapMetaDataField (getMetaFieldName key) = key"
proof -
  assume "key \<noteq> M_MAX"
  then obtain n where n: "map_of mt_keys key = Some n" using mt_key_known by blast
  then have "find_name mt_keys n = Some key" by (rule find_name_map_of [OF mt_key_names_distinct])
  moreover have "find_name mt_names n = None" using map_of_SomeD [OF n] mt_names_not_keys by fastforce
  ultimately show ?thesis using n by (simp add: remapMetaDataField_def getMetaFieldName_def)
qed

lemma getMetaFieldName_eq:
  assumes "key \<noteq> M_MAX" "key' \<noteq> M_MAX"
  shows "getMetaFieldName key = getMetaFieldName key' \<longleftrightarrow> key = key'"
  using assms remap_getMetaFieldName by metis

lemma group_append: "getMetaGroupByName (xs @ ys) k = getMetaGroupByName xs k @ getMetaGroupByName ys k"
  by (induction xs k rule: getMetaGroupByName.induct) simp_all

lemma group_remove:
  "getMetaGroupByName (removeMetaDataByName f md) k = (if k = f then [] else getMetaGroupByName md k)"
  by (induction md k rule: getMetaGroupByName.induct) (auto simp: removeMetaDataByName_def)

lemma group_hd: "getMetaDataByName md k = (case getMetaGroupByName md k of [] \<Rightarrow> [] | v # vs \<Rightarrow> v)"
  by (induction md k rule: getMetaGroupByName.induct) (simp_all add: getMetaDataByName_def)

text \<open>What adding metadata does to what is read: the value is the only one of a field with a single value
  and the last one of any other, no other field changes, and the number that ends the enumeration is an
  error.\<close>

theorem addMetaData_groups:
  "(case addMetaData key v md of
      Inl e \<Rightarrow> key = M_MAX \<and> e = Out_of_range_at
    | Inr md' \<Rightarrow> key \<noteq> M_MAX \<and>
        getMetaGroup md' key = (if map_of mt_single key = Some True then [v] else getMetaGroup md key @ [v]) \<and>
        (\<forall>other. getMetaGroup md' other = getMetaGroup md other \<or> other = key))"
proof (cases "map_of mt_single key")
  case None
  then have "key = M_MAX" by (cases key) (simp_all add: mt_single_def)
  with None show ?thesis by (simp add: addMetaData_def map_at_def)
next
  case (Some single)
  then have k: "key \<noteq> M_MAX" by (cases key) (simp_all add: mt_single_def)
  have d: "getMetaFieldName other \<noteq> getMetaFieldName key" if "other \<noteq> key" for other
  proof (cases "other = M_MAX")
    case True
    have "\<forall>e \<in> set mt_keys. snd e \<noteq> ''unknown''" by code_simp
    moreover obtain n where n: "map_of mt_keys key = Some n" using mt_key_known [OF k] by blast
    moreover have "map_of mt_keys M_MAX = None" by (simp add: mt_keys_def)
    ultimately show ?thesis using True map_of_SomeD [OF n] by (auto simp: getMetaFieldName_def)
  next
    case False
    then show ?thesis using k that by (simp add: getMetaFieldName_eq)
  qed
  have g: "getMetaGroup md' other = getMetaGroup md other \<or> other = key"
    if "md' = removeMetaData key md @ [(getMetaFieldName key, v)] \<or> md' = md @ [(getMetaFieldName key, v)]" for md' other
  proof (cases "other = key")
    case False
    then have "getMetaFieldName key \<noteq> getMetaFieldName other" using d [of other] by metis
    then show ?thesis using that by (auto simp: getMetaGroup_def group_append group_remove removeMetaData_def)
  qed simp
  show ?thesis
  proof (cases single)
    case True
    have "getMetaGroup (removeMetaData key md @ [(getMetaFieldName key, v)]) key = [v]"
      by (simp add: getMetaGroup_def group_append group_remove removeMetaData_def)
    then show ?thesis using True Some k g by (simp add: addMetaData_def map_at_def)
  next
    case False
    have "getMetaGroup (md @ [(getMetaFieldName key, v)]) key = getMetaGroup md key @ [v]"
      by (simp add: getMetaGroup_def group_append)
    then show ?thesis using False Some k g by (simp add: addMetaData_def map_at_def)
  qed
qed

lemma push_group_ok: "smap_ok m \<Longrightarrow> smap_ok (push_group k v m)"
  by (simp add: push_group_def Let_def smap_emplace_ok smap_assign_ok)

lemma push_group_lookup:
  "smap_ok m \<Longrightarrow> map_of (push_group k v m) i =
     (if i = k then Some ((case map_of m k of Some vec \<Rightarrow> vec | None \<Rightarrow> []) @ [v]) else map_of m i)"
  by (simp add: push_group_def Let_def lookup_assign smap_emplace_ok lookup_emplace split: option.splits)

lemma groups_fold:
  "smap_ok m \<Longrightarrow> smap_ok (fold (\<lambda>(k, v). push_group k v) md m) \<and>
   map_of (fold (\<lambda>(k, v). push_group k v) md m) i =
     (case map_of m i of
        Some vec \<Rightarrow> Some (vec @ getMetaGroupByName md i)
      | None \<Rightarrow> if getMetaGroupByName md i = [] then None else Some (getMetaGroupByName md i))"
proof (induction md arbitrary: m)
  case (Cons e md)
  obtain k v where e: "e = (k, v)" by (cases e)
  show ?case
    using Cons.IH [OF push_group_ok [OF Cons.prems, of k v]] e
    by (auto simp: push_group_lookup [OF Cons.prems] split: option.splits)
qed (auto split: option.splits)

text \<open>Grouping all metadata at once agrees with asking for each field by its name: the map holds exactly the
  fields that have a value, each with its values in their order.\<close>

theorem getMetaGroups_equiv:
  "smap_ok (getMetaGroups md) \<and>
   map_of (getMetaGroups md) k = (if getMetaGroupByName md k = [] then None else Some (getMetaGroupByName md k))"
  using groups_fold [of "[]" md k] by (simp add: getMetaGroups_def smap_ok_def)

end
