(* ===== verification/CDS_Objects.thy ===== *)
theory CDS_Objects
  imports CDS_Resource CDS_Flags Metadata
begin

text \<open>
  The objects of the content directory (\<open>src/src/cds/cds_objects.h\<close>, \<open>cds_objects.cc\<close>, \<open>cds_item.h\<close>,
  \<open>cds_item.cc\<close>, \<open>cds_container.h\<close>, \<open>cds_container.cc\<close>). The members of the base class are a record, what a
  subclass adds is the value of \<open>part\<close>. Locations are values of the type \<open>'p\<close>, whose equality is the
  \<open>operator==\<close> of \<open>fs::path\<close>; the empty path and the test for a regular file are parameters. A cast to a
  subclass the object does not have is the result \<open>None\<close>.
\<close>

record ClientStatusDetail =
  statusGroup :: string
  itemId :: int
  playCount :: int
  lastPlayed :: int
  lastPlayedPosition :: int
  bookMarkPos :: int

definition new_status :: "int \<Rightarrow> string \<Rightarrow> int \<Rightarrow> int \<Rightarrow> int \<Rightarrow> int \<Rightarrow> int \<Rightarrow> ClientStatusDetail" where
  "new_status now g i c l p b =
     \<lparr>statusGroup = g, itemId = i, playCount = c, lastPlayed = (if l = 0 then now else l),
      lastPlayedPosition = p, bookMarkPos = b\<rparr>"

definition clone_status :: "int \<Rightarrow> ClientStatusDetail \<Rightarrow> ClientStatusDetail" where
  "clone_status now s =
     new_status now (statusGroup s) (itemId s) (playCount s) (lastPlayed s) (lastPlayedPosition s) (bookMarkPos s)"

record CdsItem =
  mimeType :: string
  partNumber :: int
  trackNumber :: int
  serviceID :: string
  playStatus :: "ClientStatusDetail option"

record CdsContainer =
  updateID :: int
  childCount :: int
  autoscanType :: nat

datatype cds_part = Plain_object | Item_part CdsItem | External_part CdsItem | Container_part CdsContainer

record 'p CdsObject =
  objID :: int
  refID :: int
  parentID :: int
  title :: string
  upnpClass :: string
  location :: 'p
  mtime :: int
  utime :: int
  sizeOnDisk :: nat
  virt :: bool
  objectType :: "32 word"
  objectFlags :: "32 word"
  sortKey :: string
  source :: ObjectSource
  entryType :: CdsEntryType
  metaData :: metadata
  auxdata :: "(string, string) smap"
  resources :: "CdsResource list"
  part :: cds_part

section \<open>Construction\<close>

definition UPNP_CLASS_ITEM :: string where "UPNP_CLASS_ITEM = ''object.item''"
definition UPNP_CLASS_CONTAINER :: string where "UPNP_CLASS_CONTAINER = ''object.container''"
definition UPNP_CLASS_AUDIO_ITEM :: string where "UPNP_CLASS_AUDIO_ITEM = ''object.item.audioItem''"
definition UPNP_CLASS_IMAGE_ITEM :: string where "UPNP_CLASS_IMAGE_ITEM = ''object.item.imageItem''"
definition UPNP_CLASS_VIDEO_ITEM :: string where "UPNP_CLASS_VIDEO_ITEM = ''object.item.videoItem''"
definition MIMETYPE_DEFAULT :: string where "MIMETYPE_DEFAULT = ''application/octet-stream''"

definition new_object :: "'p \<Rightarrow> CdsEntryType \<Rightarrow> 'p CdsObject" where
  "new_object no_path t =
     \<lparr>objID = INVALID_OBJECT_ID, refID = INVALID_OBJECT_ID, parentID = INVALID_OBJECT_ID, title = [], upnpClass = [], location = no_path, mtime = 0,
      utime = 0, sizeOnDisk = 0, virt = False, objectType = 0, objectFlags = getFlag Restricted, sortKey = [],
      source = Import, entryType = t, metaData = [], auxdata = [], resources = [], part = Plain_object\<rparr>"

definition new_item_part :: CdsItem where
  "new_item_part =
     \<lparr>mimeType = MIMETYPE_DEFAULT, partNumber = 0, trackNumber = 0, serviceID = [], playStatus = None\<rparr>"

definition new_container_part :: CdsContainer where
  "new_container_part = \<lparr>updateID = 0, childCount = - 1, autoscanType = 0\<rparr>"

definition new_item :: "int \<Rightarrow> 'p \<Rightarrow> CdsEntryType \<Rightarrow> 'p CdsObject" where
  "new_item now no_path t =
     (new_object no_path t)\<lparr>objectType := OBJECT_TYPE_ITEM, upnpClass := UPNP_CLASS_ITEM, mtime := now,
       part := Item_part new_item_part\<rparr>"

definition new_external_url :: "int \<Rightarrow> 'p \<Rightarrow> CdsEntryType \<Rightarrow> 'p CdsObject" where
  "new_external_url now no_path t =
     (new_item now no_path t)\<lparr>objectType := OBJECT_TYPE_ITEM OR OBJECT_TYPE_ITEM_EXTERNAL_URL,
       upnpClass := UPNP_CLASS_ITEM, part := External_part new_item_part\<rparr>"

definition new_container :: "int \<Rightarrow> 'p \<Rightarrow> CdsEntryType \<Rightarrow> 'p CdsObject" where
  "new_container now no_path t =
     (new_object no_path t)\<lparr>objectType := OBJECT_TYPE_CONTAINER, upnpClass := UPNP_CLASS_CONTAINER, mtime := now,
       part := Container_part new_container_part\<rparr>"

definition new_titled_container :: "'p \<Rightarrow> string \<Rightarrow> string \<Rightarrow> CdsEntryType \<Rightarrow> 'p CdsObject" where
  "new_titled_container no_path ttl cls t =
     (new_object no_path t)\<lparr>objectType := OBJECT_TYPE_CONTAINER, title := ttl, upnpClass := cls,
       part := Container_part new_container_part\<rparr>"

definition createObject :: "int \<Rightarrow> 'p \<Rightarrow> 32 word \<Rightarrow> cds_error + 'p CdsObject" where
  "createObject now no_path t =
     (if IS_CDS_CONTAINER t then Inr (new_container now no_path VirtualContainer)
      else if IS_CDS_ITEM_EXTERNAL_URL t then Inr (new_external_url now no_path ExternalUrl)
      else if isCdsItem t then Inr (new_item now no_path VirtualItem)
      else if t = 0 then Inr (new_object no_path Root)
      else Inl Invalid_object_type)"

definition container_type :: "CdsEntryType \<Rightarrow> bool" where
  "container_type t =
     (t = Directory \<or> t = VirtualContainer \<or> t = DynamicFolder \<or> t = ExtraDirectory \<or> t = PlaylistContainer)"

definition pure_item_type :: "CdsEntryType \<Rightarrow> bool" where
  "pure_item_type t = (t = File \<or> t = VirtualItem \<or> t = ExtraFile)"

definition createObjectOfEntry :: "int \<Rightarrow> 'p \<Rightarrow> CdsEntryType \<Rightarrow> cds_error + 'p CdsObject" where
  "createObjectOfEntry now no_path t =
     (if container_type t then Inr (new_container now no_path t)
      else if t = ExternalUrl then Inr (new_external_url now no_path ExternalUrl)
      else if pure_item_type t then Inr (new_item now no_path t)
      else if t = Root then Inr (new_object no_path t)
      else Inl Invalid_entry_type)"

section \<open>Members\<close>

definition isPureItem :: "'p CdsObject \<Rightarrow> bool" where
  "isPureItem o1 = pure_item_type (entryType o1)"

definition isExternalItem :: "'p CdsObject \<Rightarrow> bool" where
  "isExternalItem o1 = (entryType o1 = ExternalUrl)"

definition isItem :: "'p CdsObject \<Rightarrow> bool" where
  "isItem o1 = (isPureItem o1 \<or> isExternalItem o1)"

definition isContainer :: "'p CdsObject \<Rightarrow> bool" where
  "isContainer o1 = container_type (entryType o1)"

definition setTitle :: "string \<Rightarrow> 'p CdsObject \<Rightarrow> 'p CdsObject" where
  "setTitle t o1 = o1\<lparr>title := t, sortKey := (if sortKey o1 = [] then t else sortKey o1)\<rparr>"

definition setSortKey :: "string \<Rightarrow> 'p CdsObject \<Rightarrow> 'p CdsObject" where
  "setSortKey k o1 = (if k \<noteq> [] then o1\<lparr>sortKey := k\<rparr> else o1)"

definition setLocation :: "'p \<Rightarrow> CdsEntryType \<Rightarrow> 'p CdsObject \<Rightarrow> 'p CdsObject" where
  "setLocation l t o1 = o1\<lparr>location := l, entryType := t\<rparr>"

definition setSource :: "ObjectSource \<Rightarrow> 'p CdsObject \<Rightarrow> 'p CdsObject" where
  "setSource s o1 = (if s > source o1 then o1\<lparr>source := s\<rparr> else o1)"

definition setURL :: "'p \<Rightarrow> 'p CdsObject \<Rightarrow> 'p CdsObject" where
  "setURL url o1 = o1\<lparr>location := url, entryType := ExternalUrl\<rparr>"

definition hasFlag :: "ObjectFlag \<Rightarrow> 'p CdsObject \<Rightarrow> bool" where
  "hasFlag f o1 = (objectFlags o1 AND getFlag f \<noteq> 0)"

definition setFlag :: "ObjectFlag \<Rightarrow> 'p CdsObject \<Rightarrow> 'p CdsObject" where
  "setFlag f o1 = o1\<lparr>objectFlags := objectFlags o1 OR getFlag f\<rparr>"

definition clearFlag :: "ObjectFlag \<Rightarrow> 'p CdsObject \<Rightarrow> 'p CdsObject" where
  "clearFlag f o1 = o1\<lparr>objectFlags := objectFlags o1 AND NOT (getFlag f)\<rparr>"

definition changeFlag :: "ObjectFlag \<Rightarrow> bool \<Rightarrow> 'p CdsObject \<Rightarrow> 'p CdsObject" where
  "changeFlag f v o1 = (if v then setFlag f o1 else clearFlag f o1)"

definition setRestricted :: "bool \<Rightarrow> 'p CdsObject \<Rightarrow> 'p CdsObject" where
  "setRestricted = changeFlag Restricted"

definition isRestricted :: "'p CdsObject \<Rightarrow> bool" where
  "isRestricted = hasFlag Restricted"

definition setSearchable :: "bool \<Rightarrow> 'p CdsObject \<Rightarrow> 'p CdsObject" where
  "setSearchable = changeFlag Searchable"

definition isSearchable :: "'p CdsObject \<Rightarrow> bool" where
  "isSearchable = hasFlag Searchable"

definition getAuxData :: "string \<Rightarrow> 'p CdsObject \<Rightarrow> string" where
  "getAuxData key o1 = getValueOrDefault (auxdata o1) key []"

definition setAuxData :: "string \<Rightarrow> string \<Rightarrow> 'p CdsObject \<Rightarrow> 'p CdsObject" where
  "setAuxData key v o1 = o1\<lparr>auxdata := smap_assign key v (auxdata o1)\<rparr>"

definition isSubClass :: "string \<Rightarrow> 'p CdsObject \<Rightarrow> bool" where
  "isSubClass cls o1 = (take (length cls) (upnpClass o1) = cls)"

datatype ObjectType = Unknown_type | Folder | Playlist | Cuesheet | Audio | Video | Image | OnlineService_type

definition getMediaType :: "bool \<Rightarrow> string \<Rightarrow> 'p CdsObject \<Rightarrow> ObjectType" where
  "getMediaType online contentType o1 =
     (if online \<and> hasFlag OnlineServiceFlag o1 \<and> isExternalItem o1 then OnlineService_type
      else if contentType = ''ogg'' then (if hasFlag OggTheora o1 then Video else Audio)
      else if contentType = ''playlist'' then Playlist
      else if contentType = ''cuesheet'' then Cuesheet
      else if isSubClass UPNP_CLASS_CONTAINER o1 then Folder
      else if isSubClass UPNP_CLASS_VIDEO_ITEM o1 then Video
      else if isSubClass UPNP_CLASS_AUDIO_ITEM o1 then Audio
      else if isSubClass UPNP_CLASS_IMAGE_ITEM o1 then Image
      else Unknown_type)"

definition isMediaItem :: "bool \<Rightarrow> 'p CdsObject \<Rightarrow> bool" where
  "isMediaItem online o1 =
     (let t = getMediaType online [] o1 in t = Audio \<or> t = Video \<or> t = Image)"

section \<open>Resources of an object\<close>

definition hasResource :: "int \<Rightarrow> 'p CdsObject \<Rightarrow> bool" where
  "hasResource h o1 = (\<exists>r \<in> set (resources o1). handlerType r = h)"

fun remove_first :: "('a \<Rightarrow> bool) \<Rightarrow> 'a list \<Rightarrow> 'a list" where
  "remove_first P [] = []"
| "remove_first P (x # xs) = (if P x then xs else x # remove_first P xs)"

definition removeResource :: "int \<Rightarrow> 'p CdsObject \<Rightarrow> 'p CdsObject" where
  "removeResource h o1 = o1\<lparr>resources := remove_first (\<lambda>r. handlerType r = h) (resources o1)\<rparr>"

definition getResource :: "int \<Rightarrow> 'p CdsObject \<Rightarrow> CdsResource option" where
  "getResource index o1 = find (\<lambda>r. resId r = index) (resources o1)"

definition getResourceByHandler :: "int \<Rightarrow> 'p CdsObject \<Rightarrow> CdsResource option" where
  "getResourceByHandler h o1 = find (\<lambda>r. handlerType r = h) (resources o1)"

definition getResourceByPurpose :: "ResourcePurpose \<Rightarrow> 'p CdsObject \<Rightarrow> CdsResource option" where
  "getResourceByPurpose p o1 = find (\<lambda>r. purpose r = p) (resources o1)"

definition addResource :: "CdsResource \<Rightarrow> 'p CdsObject \<Rightarrow> 'p CdsObject" where
  "addResource r o1 = o1\<lparr>resources := resources o1 @ [r\<lparr>resId := int (length (resources o1))\<rparr>]\<rparr>"

definition clearResources :: "'p CdsObject \<Rightarrow> 'p CdsObject" where
  "clearResources o1 = o1\<lparr>resources := []\<rparr>"

section \<open>copyTo\<close>

definition copy_base :: "'p CdsObject \<Rightarrow> 'p CdsObject \<Rightarrow> 'p CdsObject" where
  "copy_base self obj =
     (let obj1 = obj\<lparr>objID := objID self, refID := refID self, parentID := parentID self\<rparr>;
          obj2 = (setTitle (title self) obj1)\<lparr>upnpClass := upnpClass self\<rparr>;
          obj3 = setLocation (location self) (entryType obj2) obj2;
          obj4 = obj3\<lparr>mtime := mtime self, sizeOnDisk := sizeOnDisk self, virt := virt self,
                   metaData := metaData self, auxdata := auxdata self, objectFlags := objectFlags self\<rparr>;
          obj5 = setSource (source self) (setSortKey (sortKey self) obj4)
      in fold (\<lambda>r. addResource (clone_resource r)) (resources self) obj5)"

fun item_of :: "cds_part \<Rightarrow> CdsItem option" where
  "item_of (Item_part i) = Some i"
| "item_of (External_part i) = Some i"
| "item_of _ = None"

fun map_item :: "(CdsItem \<Rightarrow> CdsItem) \<Rightarrow> cds_part \<Rightarrow> cds_part option" where
  "map_item f (Item_part i) = Some (Item_part (f i))"
| "map_item f (External_part i) = Some (External_part (f i))"
| "map_item f _ = None"

fun map_container :: "(CdsContainer \<Rightarrow> CdsContainer) \<Rightarrow> cds_part \<Rightarrow> cds_part option" where
  "map_container f (Container_part c) = Some (Container_part (f c))"
| "map_container f _ = None"

definition setTrackNumber :: "int \<Rightarrow> CdsItem \<Rightarrow> CdsItem" where
  "setTrackNumber n i = (if n \<ge> 0 then i\<lparr>trackNumber := n\<rparr> else i)"

definition setPartNumber :: "int \<Rightarrow> CdsItem \<Rightarrow> CdsItem" where
  "setPartNumber n i = (if n \<ge> 0 then i\<lparr>partNumber := n\<rparr> else i)"

definition copy_item :: "int \<Rightarrow> CdsItem \<Rightarrow> CdsItem \<Rightarrow> CdsItem" where
  "copy_item now self item =
     (let item1 = setPartNumber (partNumber self) (setTrackNumber (trackNumber self) (item\<lparr>mimeType := mimeType self\<rparr>));
          item2 = item1\<lparr>serviceID := serviceID self\<rparr>
      in case playStatus self of None \<Rightarrow> item2 | Some s \<Rightarrow> item2\<lparr>playStatus := Some (clone_status now s)\<rparr>)"

definition copyTo :: "int \<Rightarrow> 'p CdsObject \<Rightarrow> 'p CdsObject \<Rightarrow> 'p CdsObject option" where
  "copyTo now self obj =
     (let obj' = copy_base self obj in
      case part self of
        Plain_object \<Rightarrow> Some obj'
      | Item_part i \<Rightarrow>
          if \<not> isItem obj' then Some obj'
          else map_option (\<lambda>p. obj'\<lparr>part := p\<rparr>) (map_item (copy_item now i) (part obj'))
      | External_part i \<Rightarrow>
          if \<not> isItem obj' then Some obj'
          else map_option (\<lambda>p. obj'\<lparr>part := p\<rparr>) (map_item (copy_item now i) (part obj'))
      | Container_part c \<Rightarrow>
          if \<not> isContainer obj' then Some obj'
          else map_option (\<lambda>p. obj'\<lparr>part := p\<rparr>) (map_container (\<lambda>d. d\<lparr>updateID := updateID c\<rparr>) (part obj')))"

section \<open>equals\<close>

fun equal3O :: "('a \<Rightarrow> 'a \<Rightarrow> bool option) \<Rightarrow> 'a list \<Rightarrow> 'a list \<Rightarrow> bool option" where
  "equal3O eq [] ys = Some True"
| "equal3O eq (x # xs) [] = None"
| "equal3O eq (x # xs) (y # ys) = and_then (eq x y) (equal3O eq xs ys)"

definition resourcesEqual :: "'p CdsObject \<Rightarrow> 'p CdsObject \<Rightarrow> bool option" where
  "resourcesEqual self obj =
     (if length (resources self) \<noteq> length (resources obj) then Some False
      else equal3O resource_equals (resources self) (resources obj))"

definition equals_base :: "'p CdsObject \<Rightarrow> 'p CdsObject \<Rightarrow> bool \<Rightarrow> bool option" where
  "equals_base self obj exactly =
     (if objID self \<noteq> objID obj \<or> parentID self \<noteq> parentID obj \<or> isRestricted self \<noteq> isRestricted obj \<or>
         title self \<noteq> title obj \<or> upnpClass self \<noteq> upnpClass obj \<or> sortKey self \<noteq> sortKey obj
      then Some False
      else and_then (resourcesEqual self obj)
        (if metaData self \<noteq> metaData obj then Some False
         else if \<not> exactly then Some True
         else and_then
           (Some (location self = location obj \<and> mtime self = mtime obj \<and> sizeOnDisk self = sizeOnDisk obj \<and>
                  virt self = virt obj \<and> source self = source obj))
           (and_then (equal3 (=) (auxdata self) (auxdata obj)) (Some (objectFlags self = objectFlags obj)))))"

definition equals_item :: "CdsItem \<Rightarrow> cds_part \<Rightarrow> bool option" where
  "equals_item i p =
     map_option (\<lambda>item. mimeType i = mimeType item \<and> partNumber i = partNumber item \<and>
       trackNumber i = trackNumber item \<and> serviceID i = serviceID item) (item_of p)"

definition equals :: "'p CdsObject \<Rightarrow> 'p CdsObject \<Rightarrow> bool \<Rightarrow> bool option" where
  "equals self obj exactly =
     (case part self of
        Plain_object \<Rightarrow> equals_base self obj exactly
      | Item_part i \<Rightarrow> and_then (equals_base self obj exactly) (equals_item i (part obj))
      | External_part i \<Rightarrow> and_then (equals_base self obj exactly) (equals_item i (part obj))
      | Container_part c \<Rightarrow> and_then (equals_base self obj exactly)
          (if \<exists>d. part obj = Container_part d then Some (isSearchable self = isSearchable obj) else None))"

section \<open>validate\<close>

datatype validation_error =
  No_title | No_class | No_mimetype | No_location | No_file | No_URL

definition validate_base :: "'p CdsObject \<Rightarrow> validation_error option" where
  "validate_base o1 = (if title o1 = [] then Some No_title else if upnpClass o1 = [] then Some No_class else None)"

definition validate_item :: "('p \<Rightarrow> bool) \<Rightarrow> ('p \<Rightarrow> bool) \<Rightarrow> CdsItem \<Rightarrow> 'p CdsObject \<Rightarrow> validation_error option" where
  "validate_item empty_path isRegularFile i o1 =
     (case validate_base o1 of Some e \<Rightarrow> Some e
      | None \<Rightarrow>
          if mimeType i = [] then Some No_mimetype
          else if isExternalItem o1 then None
          else if empty_path (location o1) then Some No_location
          else if \<not> isRegularFile (location o1) then Some No_file else None)"

definition validate :: "('p \<Rightarrow> bool) \<Rightarrow> ('p \<Rightarrow> bool) \<Rightarrow> 'p CdsObject \<Rightarrow> validation_error option" where
  "validate empty_path isRegularFile o1 =
     (case part o1 of
        Plain_object \<Rightarrow> validate_base o1
      | Container_part c \<Rightarrow> validate_base o1
      | Item_part i \<Rightarrow> validate_item empty_path isRegularFile i o1
      | External_part i \<Rightarrow>
          (case validate_item empty_path isRegularFile i o1 of Some e \<Rightarrow> Some e
           | None \<Rightarrow> if empty_path (location o1) then Some No_URL else None))"

end
