(* ===== verification/CDS_Props.thy ===== *)
theory CDS_Props
  imports CDS_Objects
begin

text \<open>
  Creating, copying and comparing objects: the class of an object fits its entry type, \<open>copyTo\<close> makes an
  equal object when the target is fresh, and what \<open>equals\<close> decides.
\<close>

section \<open>Classes\<close>

text \<open>The subclass of an object is the one its entry type names; the casts of the code rest on it.\<close>

definition class_ok :: "'p CdsObject \<Rightarrow> bool" where
  "class_ok o1 =
     (case part o1 of
        Plain_object \<Rightarrow> \<not> isItem o1 \<and> \<not> isContainer o1
      | Item_part i \<Rightarrow> isItem o1
      | External_part i \<Rightarrow> isItem o1
      | Container_part c \<Rightarrow> isContainer o1)"

lemmas member_defs = setTitle_def setSortKey_def setLocation_def setSource_def addResource_def

lemmas type_defs = isItem_def isContainer_def isPureItem_def isExternalItem_def container_type_def pure_item_type_def

lemmas create_defs = new_object_def new_item_def new_external_url_def new_container_def

lemma item_not_container: "\<not> (isItem o1 \<and> isContainer o1)"
  by (auto simp: type_defs)

lemma add_clones [simp]:
  "fold (\<lambda>r. addResource (clone_resource r)) rs o1 =
     o1\<lparr>resources := resources o1 @
        map (\<lambda>(i, r). (clone_resource r)\<lparr>resId := int i\<rparr>) (enumerate (length (resources o1)) rs)\<rparr>"
  by (induction rs arbitrary: o1) (simp_all add: addResource_def)

lemma copy_base_fields [simp]:
  "entryType (copy_base self obj) = entryType obj" "part (copy_base self obj) = part obj"
  "objID (copy_base self obj) = objID self" "parentID (copy_base self obj) = parentID self"
  "title (copy_base self obj) = title self" "upnpClass (copy_base self obj) = upnpClass self"
  "objectFlags (copy_base self obj) = objectFlags self" "metaData (copy_base self obj) = metaData self"
  "location (copy_base self obj) = location self" "mtime (copy_base self obj) = mtime self"
  "sizeOnDisk (copy_base self obj) = sizeOnDisk self" "virt (copy_base self obj) = virt self"
  "auxdata (copy_base self obj) = auxdata self" "source (copy_base self obj) = max (source self) (source obj)"
  "resources (copy_base self obj) = resources obj @
     map (\<lambda>(i, r). (clone_resource r)\<lparr>resId := int i\<rparr>) (enumerate (length (resources obj)) (resources self))"
  "sortKey (copy_base self obj) =
     (if sortKey self \<noteq> [] then sortKey self else if sortKey obj = [] then title self else sortKey obj)"
  by (auto simp: copy_base_def Let_def member_defs max_def)

lemma copy_base_types [simp]:
  "isItem (copy_base self obj) = isItem obj" "isContainer (copy_base self obj) = isContainer obj"
  by (simp_all add: type_defs)

lemma type_part [simp]: "isItem (o1\<lparr>part := p\<rparr>) = isItem o1" "isContainer (o1\<lparr>part := p\<rparr>) = isContainer o1"
  by (simp_all add: type_defs)

text \<open>C33: Objects keep the class of their entry type, so no cast goes to a class the object does not have: the
  factory builds the class for every entry type but \<open>Unset\<close>, which is its error, and copying one such
  object onto another keeps the entry type and the class of the target.\<close>

theorem copyTo_type_safe:
  "(case createObjectOfEntry now no_path t of
      Inr o1 \<Rightarrow> class_ok o1 \<and> entryType o1 = t
    | Inl e \<Rightarrow> t = Unset \<and> e = Invalid_entry_type) \<and>
   (class_ok self \<and> class_ok obj \<longrightarrow>
     (\<exists>copy. copyTo now self obj = Some copy \<and> class_ok copy \<and> entryType copy = entryType obj))"
proof (intro conjI impI)
  show "case createObjectOfEntry now no_path t of
      Inr o1 \<Rightarrow> class_ok o1 \<and> entryType o1 = t
    | Inl e \<Rightarrow> t = Unset \<and> e = Invalid_entry_type"
    by (cases t) (simp_all add: createObjectOfEntry_def create_defs class_ok_def type_defs)
next
  assume ok: "class_ok self \<and> class_ok obj"
  show "\<exists>copy. copyTo now self obj = Some copy \<and> class_ok copy \<and> entryType copy = entryType obj"
    using ok item_not_container [of obj]
    by (cases "part self"; cases "part obj") (auto simp: copyTo_def Let_def class_ok_def)
qed

lemma copyTo_type_safe_witness:
  "class_ok (new_titled_container ''/m'' ''Music'' UPNP_CLASS_CONTAINER Directory) \<and>
   (\<exists>copy. copyTo 7 (new_titled_container ''/m'' ''Music'' UPNP_CLASS_CONTAINER Directory)
        (new_item 7 ''/m'' File) = Some copy \<and> class_ok copy \<and> entryType copy = File)"
proof -
  let ?c = "new_titled_container ''/m'' ''Music'' UPNP_CLASS_CONTAINER Directory"
  have c: "class_ok ?c" by (simp add: new_titled_container_def class_ok_def type_defs new_object_def)
  have i: "class_ok (new_item 7 ''/m'' File)" "entryType (new_item 7 ''/m'' File) = File"
    by (simp_all add: create_defs class_ok_def type_defs)
  show ?thesis
    using copyTo_type_safe [THEN conjunct2, of "?c" "new_item 7 ''/m'' File" 7] c i by simp
qed

section \<open>A copy is equal\<close>

lemma equal3O_clones:
  "equal3O resource_equals rs (map (\<lambda>(i, r). (clone_resource r)\<lparr>resId := int i\<rparr>) (enumerate n rs)) = Some True"
  by (induction rs arbitrary: n) (simp_all add: resource_equals_def clone_resource_def new_resource_def)

lemma equals_base_part [simp]: "equals_base self (o1\<lparr>part := p\<rparr>) e = equals_base self o1 e"
  by (simp add: equals_base_def resourcesEqual_def isRestricted_def hasFlag_def)

lemma equals_base_copy:
  assumes "sortKey obj = []" "source obj = Import" "resources obj = []"
  shows "equals_base self (copy_base self obj) True = Some (sortKey self \<noteq> [] \<or> title self = [])"
proof -
  have "source (copy_base self obj) = source self"
    using assms(2) by (cases "source self") (simp_all add: max_def less_eq_ObjectSource_def)
  moreover have "resourcesEqual self (copy_base self obj) = Some True"
    using assms(3) by (simp add: resourcesEqual_def equal3O_clones)
  ultimately show ?thesis
    using assms by (simp add: equals_base_def isRestricted_def hasFlag_def)
qed

text \<open>C32: Copying onto a fresh object of the same class gives an object that is equal in every field that
  \<open>equals\<close> compares exactly, with one exception: an object with a title and no sort key, for which the copy
  takes the title as its key.\<close>

theorem copyTo_equal:
  assumes "class_ok self" "class_ok obj" "sortKey obj = []" "source obj = Import" "resources obj = []"
    and "case part self of
        Plain_object \<Rightarrow> True
      | Item_part i \<Rightarrow> trackNumber i \<ge> 0 \<and> partNumber i \<ge> 0 \<and> isItem obj
      | External_part i \<Rightarrow> trackNumber i \<ge> 0 \<and> partNumber i \<ge> 0 \<and> isItem obj
      | Container_part c \<Rightarrow> isContainer obj"
  shows "\<exists>copy. copyTo now self obj = Some copy \<and> equals self copy True = Some (sortKey self \<noteq> [] \<or> title self = [])"
proof -
  have item: "equals_item i p' = Some True"
    if "trackNumber i \<ge> 0" "partNumber i \<ge> 0" "map_item (copy_item now i) p = Some p'" for i p p'
    using that by (cases p) (auto simp: equals_item_def copy_item_def Let_def setTrackNumber_def setPartNumber_def
        split: option.splits)
  have base: "equals_base self (copy_base self obj) True = Some (sortKey self \<noteq> [] \<or> title self = [])"
    by (rule equals_base_copy [OF assms(3-5)])
  have and_T: "and_then b (Some True) = b" for b by (cases "(b, Some True)" rule: and_then.cases) auto
  show ?thesis
  proof (cases "part self")
    case Plain_object
    then show ?thesis using base by (simp add: copyTo_def Let_def equals_def)
  next
    case (Item_part i)
    then have o1: "isItem obj" "trackNumber i \<ge> 0" "partNumber i \<ge> 0" using assms(6) by simp_all
    then obtain p where p: "map_item (copy_item now i) (part obj) = Some p"
      using assms(2) item_not_container [of obj] by (cases "part obj") (auto simp: class_ok_def)
    then show ?thesis using Item_part o1 base item [OF o1(2,3) p] by (simp add: copyTo_def Let_def equals_def and_T)
  next
    case (External_part i)
    then have o1: "isItem obj" "trackNumber i \<ge> 0" "partNumber i \<ge> 0" using assms(6) by simp_all
    then obtain p where p: "map_item (copy_item now i) (part obj) = Some p"
      using assms(2) item_not_container [of obj] by (cases "part obj") (auto simp: class_ok_def)
    then show ?thesis using External_part o1 base item [OF o1(2,3) p]
      by (simp add: copyTo_def Let_def equals_def and_T)
  next
    case (Container_part c)
    then have o1: "isContainer obj" using assms(6) by simp
    then obtain d where d: "part obj = Container_part d"
      using assms(2) item_not_container [of obj] by (cases "part obj") (auto simp: class_ok_def)
    then show ?thesis using Container_part o1 base
      by (simp add: copyTo_def Let_def equals_def and_T isSearchable_def hasFlag_def)
  qed
qed

lemma copyTo_equal_witness:
  "\<exists>copy. copyTo 9 (setTitle ''Song'' (new_item 7 ''/m'' File)) (new_item 9 ''/'' VirtualItem) = Some copy \<and>
     equals (setTitle ''Song'' (new_item 7 ''/m'' File)) copy True = Some True"
proof -
  let ?s = "setTitle ''Song'' (new_item 7 ''/m'' File)" and ?o = "new_item 9 ''/'' VirtualItem"
  have "\<exists>copy. copyTo 9 ?s ?o = Some copy \<and> equals ?s copy True = Some (sortKey ?s \<noteq> [] \<or> title ?s = [])"
    by (rule copyTo_equal) (simp_all add: create_defs class_ok_def type_defs setTitle_def new_item_part_def)
  then show ?thesis by (simp add: setTitle_def create_defs)
qed

text \<open>
  The exception is reachable: the constructor that takes a title leaves the sort key empty, and such a
  container differs from its copy.
\<close>

lemma titled_container_copy_differs:
  assumes "ttl \<noteq> []" "container_type t"
  shows "\<exists>copy. copyTo now (new_titled_container p ttl cls t) (new_container now p t) = Some copy \<and>
     equals (new_titled_container p ttl cls t) copy True = Some False"
proof -
  have "\<exists>copy. copyTo now (new_titled_container p ttl cls t) (new_container now p t) = Some copy \<and>
     equals (new_titled_container p ttl cls t) copy True =
       Some (sortKey (new_titled_container p ttl cls t) \<noteq> [] \<or> title (new_titled_container p ttl cls t) = [])"
    by (rule copyTo_equal)
      (use assms(2) in \<open>simp_all add: new_titled_container_def create_defs class_ok_def isContainer_def\<close>)
  then show ?thesis using assms(1) by (simp add: new_titled_container_def new_object_def)
qed

section \<open>What equals decides\<close>

text \<open>\<open>equals\<close> with \<open>exactly\<close> reads the auxiliary data of the other object only as far as its own go: an
  object without any equals a copy of itself with any auxiliary data at all, and asked the other way round
  it reads past the end of the empty map.\<close>

theorem equals_ignores_auxdata:
  assumes "part self = Plain_object" "auxdata self = []" "aux \<noteq> []"
  shows "equals self (self\<lparr>auxdata := aux\<rparr>) True = Some True \<and> equals (self\<lparr>auxdata := aux\<rparr>) self True = None"
proof -
  have "equal3O resource_equals rs rs = Some True" for rs
    by (induction rs) (simp_all add: resource_equals_def)
  moreover have "equal3 (=) aux [] = None" using assms(3) by (cases aux) simp_all
  ultimately show ?thesis
    using assms by (simp add: equals_def equals_base_def resourcesEqual_def isRestricted_def hasFlag_def)
qed

lemma equals_ignores_auxdata_witness:
  "equals (new_object ''/'' Root) ((new_object ''/'' Root)\<lparr>auxdata := [(''k'', ''v'')]\<rparr>) True = Some True \<and>
   equals ((new_object ''/'' Root)\<lparr>auxdata := [(''k'', ''v'')]\<rparr>) (new_object ''/'' Root) True = None"
  by (rule equals_ignores_auxdata) (simp_all add: new_object_def)

lemma equal3O_all:
  "length xs = length ys \<Longrightarrow> equal3O eq xs ys = Some True \<longleftrightarrow> list_all2 (\<lambda>x y. eq x y = Some True) xs ys"
  by (induction xs ys rule: list_induct2) simp_all

definition extends :: "'a list \<Rightarrow> 'a list \<Rightarrow> bool" where
  "extends ys xs = (take (length xs) ys = xs)"

lemma extends_iff: "extends ys xs \<longleftrightarrow> (\<exists>zs. ys = xs @ zs)"
  unfolding extends_def by (metis append_eq_conv_conj append_take_drop_id)


section \<open>Numbers of resources\<close>

definition resource_ids_ok :: "'p CdsObject \<Rightarrow> bool" where
  "resource_ids_ok o1 = (map resId (resources o1) = map int [0..<length (resources o1)])"

lemma resource_ids_add: "resource_ids_ok o1 \<Longrightarrow> resource_ids_ok (addResource r o1)"
  by (simp add: resource_ids_ok_def addResource_def)

lemma resource_ids_nth: "resource_ids_ok o1 \<Longrightarrow> i < length (resources o1) \<Longrightarrow> resId (resources o1 ! i) = int i"
  unfolding resource_ids_ok_def by (metis add_0 length_map length_upt minus_nat.diff_0 nth_map nth_upt)

lemma find_append: "find P (xs @ ys) = (case find P xs of Some x \<Rightarrow> Some x | None \<Rightarrow> find P ys)"
  by (induction xs) simp_all

lemma find_remove_first:
  "find Q (remove_first P xs) = find Q xs" if "\<forall>x \<in> set xs. \<not> (P x \<and> Q x)"
  using that by (induction xs) auto

lemma length_remove_first: "length (remove_first P xs) = (if \<exists>x \<in> set xs. P x then length xs - 1 else length xs)"
proof (induction xs)
  case (Cons x xs)
  then show ?case by (cases xs) auto
qed simp

text \<open>A resource that is added gets a number that is free only while none was removed: after removing a
  resource from in front of the last one, the next resource gets the number of that last one, and looking
  the number up finds the old resource. The new one cannot be reached by its number.\<close>

theorem removed_resource_number_reused:
  assumes "resource_ids_ok o1" "hasResource h o1" "handlerType (last (resources o1)) \<noteq> h"
  shows "let o2 = addResource r (removeResource h o1); n = resId (last (resources o2))
         in n = resId (last (resources o1)) \<and> getResource n o2 = Some (last (resources o1))"
proof -
  let ?rs = "resources o1" and ?P = "\<lambda>r. handlerType r = h"
  let ?n = "int (length ?rs - 1)"
  have ne: "?rs \<noteq> []" using assms(2) by (auto simp: hasResource_def)
  have len: "length (remove_first ?P ?rs) = length ?rs - 1"
    using assms(2) by (auto simp: length_remove_first hasResource_def)
  have at: "resId (?rs ! i) = int i" if "i < length ?rs" for i
    using assms(1) that by (rule resource_ids_nth)
  have last: "last ?rs = ?rs ! (length ?rs - 1)" using ne by (rule last_conv_nth)
  have id: "x = last ?rs" if x: "x \<in> set ?rs" "resId x = ?n" for x
  proof -
    obtain i where i: "i < length ?rs" "x = ?rs ! i" using x(1) by (auto simp: in_set_conv_nth)
    then have "int i = ?n" using x(2) at [of i] by metis
    then have "i = length ?rs - 1" by (simp only: of_nat_eq_iff)
    then show ?thesis using i(2) last by simp
  qed
  have mem: "last ?rs \<in> set ?rs" "resId (last ?rs) = ?n" using ne last at [of "length ?rs - 1"] by simp_all
  have "find (\<lambda>r. resId r = ?n) (remove_first ?P ?rs) = find (\<lambda>r. resId r = ?n) ?rs"
    by (rule find_remove_first) (use id assms(3) in blast)
  also have "\<dots> = Some (last ?rs)"
  proof (cases "find (\<lambda>r. resId r = ?n) ?rs")
    case None
    then show ?thesis using mem by (auto simp: find_None_iff)
  next
    case (Some y)
    then have "y \<in> set ?rs" "resId y = ?n" by (auto simp: find_Some_iff)
    then show ?thesis using Some id by simp
  qed
  finally show ?thesis
    using len mem(2) by (simp add: Let_def addResource_def removeResource_def getResource_def find_append)
qed

lemma removed_resource_number_reused_witness:
  "\<exists>o1 :: string CdsObject. resource_ids_ok o1 \<and>
     (let o2 = addResource (new_resource 8 Thumbnail [] [] []) (removeResource 0 o1); n = resId (last (resources o2))
      in n = resId (last (resources o1)) \<and> getResource n o2 = Some (last (resources o1)))"
proof -
  let ?o = "addResource (new_resource 10 Subtitle [] [] [])
      (addResource (new_resource 0 Content [] [] []) (new_object ''/'' Root))"
  have ok: "resource_ids_ok ?o"
    by (intro resource_ids_add) (simp add: resource_ids_ok_def new_object_def)
  have h: "hasResource 0 ?o" "handlerType (last (resources ?o)) \<noteq> 0"
    by (simp_all add: hasResource_def addResource_def new_resource_def)
  show ?thesis using ok removed_resource_number_reused [OF ok h] by blast
qed

section \<open>Validation\<close>

text \<open>Which objects pass validation: a title and a class; for items also a type of content and, unless the
  entry type is the one of URLs, the path of a regular file; for the class of URL items a location too.\<close>

theorem validate_ok_iff:
  "validate empty_path isRegularFile o1 = None \<longleftrightarrow>
     title o1 \<noteq> [] \<and> upnpClass o1 \<noteq> [] \<and>
     (case item_of (part o1) of
        None \<Rightarrow> True
      | Some i \<Rightarrow> mimeType i \<noteq> [] \<and>
          (isExternalItem o1 \<or> (\<not> empty_path (location o1) \<and> isRegularFile (location o1))) \<and>
          (part o1 = Item_part i \<or> \<not> empty_path (location o1)))"
  by (cases "part o1")
    (auto simp: validate_def validate_item_def validate_base_def split: option.splits)

lemma validate_ok_iff_witness:
  "validate (\<lambda>p. p = []) (\<lambda>p. p = ''/m/song'') (setLocation ''/m/song'' File (setTitle ''Song'' (new_item 7 [] File))) = None \<and>
   validate (\<lambda>p. p = []) (\<lambda>p. p = ''/m/song'') (setTitle ''Song'' (new_item 7 [] File)) \<noteq> None"
  by (simp only: validate_ok_iff)
    (simp add: create_defs member_defs new_item_part_def MIMETYPE_DEFAULT_def UPNP_CLASS_ITEM_def type_defs)

end
