(* ===== verification/Sessions.thy ===== *)
theory Sessions
  imports Tools_Text Std_Map Timer "HOL-Library.Multiset"
begin

text \<open>
  The sessions of the web interface (\<open>src/src/web/session_manager.cc\<close>, \<open>session_manager.h\<close>): what a session
  collects for its page, how sessions come and go, and their subscription to the timer. Times are seconds
  in a session and milliseconds in the check of the timeout, as in the code.
\<close>

section \<open>One session\<close>

record Session =
  dict :: "(string, string) smap"
  updateAll :: bool
  uiUpdateIDs :: "int list"
  timeout :: int
  last_access :: int
  sessionID :: string
  loggedIn :: bool

definition MAX_UI_UPDATE_IDS :: nat where "MAX_UI_UPDATE_IDS = 10"

definition new_session :: "int \<Rightarrow> int \<Rightarrow> Session" where
  "new_session now t =
     \<lparr>dict = [], updateAll = False, uiUpdateIDs = [], timeout = t, last_access = now, sessionID = [],
      loggedIn = False\<rparr>"

definition session_put :: "string \<Rightarrow> string \<Rightarrow> Session \<Rightarrow> Session" where
  "session_put key v s = s\<lparr>dict := smap_assign key v (dict s)\<rparr>"

definition session_get :: "string \<Rightarrow> Session \<Rightarrow> string" where
  "session_get key s = getValueOrDefault (dict s) key []"

definition logIn :: "Session \<Rightarrow> Session" where "logIn s = s\<lparr>loggedIn := True\<rparr>"

definition logOut :: "Session \<Rightarrow> Session" where "logOut s = s\<lparr>loggedIn := False\<rparr>"

definition session_access :: "int \<Rightarrow> Session \<Rightarrow> Session" where
  "session_access now s = s\<lparr>last_access := now\<rparr>"

text \<open>The unordered set is the list of its elements, without repetition.\<close>

definition session_changed :: "int \<Rightarrow> Session \<Rightarrow> Session" where
  "session_changed objectID s =
     (if objectID = INVALID_OBJECT_ID \<or> updateAll s then s
      else if length (uiUpdateIDs s) \<ge> MAX_UI_UPDATE_IDS then s\<lparr>updateAll := True, uiUpdateIDs := []\<rparr>
      else s\<lparr>uiUpdateIDs := List.insert objectID (uiUpdateIDs s)\<rparr>)"

definition session_changed_list :: "int list \<Rightarrow> Session \<Rightarrow> Session" where
  "session_changed_list objectIDs s =
     (if updateAll s then s
      else if length (uiUpdateIDs s) + length objectIDs \<ge> MAX_UI_UPDATE_IDS
        then s\<lparr>updateAll := True, uiUpdateIDs := []\<rparr>
      else s\<lparr>uiUpdateIDs := fold List.insert objectIDs (uiUpdateIDs s)\<rparr>)"

definition hasUIUpdateIDs :: "Session \<Rightarrow> bool" where
  "hasUIUpdateIDs s = (updateAll s \<or> uiUpdateIDs s \<noteq> [])"

text \<open>The order in which the set is walked, \<open>iter\<close>, is the library's.\<close>

definition getUIUpdateIDs :: "(int list \<Rightarrow> int list) \<Rightarrow> Session \<Rightarrow> string \<times> Session" where
  "getUIUpdateIDs iter s =
     (if \<not> hasUIUpdateIDs s then ([], s)
      else if updateAll s then (''all'', s\<lparr>updateAll := False\<rparr>)
      else (join '','' (map show_int (iter (uiUpdateIDs s))), s\<lparr>uiUpdateIDs := []\<rparr>))"

definition clearUpdateIDs :: "Session \<Rightarrow> Session" where
  "clearUpdateIDs s = s\<lparr>uiUpdateIDs := [], updateAll := False\<rparr>"

section \<open>The manager\<close>

datatype session_error = No_unique_id string | Timer_error timer_error

record SessionManager =
  sessions :: "Session list"
  accounts :: "(string, string) smap"
  timerAdded :: bool
  subscribers :: "timer_subscriber list"

definition SESSION_TIMEOUT_CHECK_INTERVAL :: int where "SESSION_TIMEOUT_CHECK_INTERVAL = 300000"

text \<open>\<open>self\<close> is the manager as a subscriber of the timer, \<open>clock\<close> the reading in milliseconds.\<close>

definition checkTimer :: "nat \<Rightarrow> int \<Rightarrow> SessionManager \<Rightarrow> session_error + SessionManager" where
  "checkTimer self clock m =
     (if sessions m \<noteq> [] \<and> \<not> timerAdded m then
        (case addTimerSubscriber clock self SESSION_TIMEOUT_CHECK_INTERVAL None False (subscribers m) of
           Inl e \<Rightarrow> Inl (Timer_error e)
         | Inr subs \<Rightarrow> Inr (m\<lparr>subscribers := subs, timerAdded := True\<rparr>))
      else if sessions m = [] \<and> timerAdded m then
        (case removeTimerSubscriber self None False (subscribers m) of
           Inl e \<Rightarrow> Inl (Timer_error e)
         | Inr (subs, _) \<Rightarrow> Inr (m\<lparr>subscribers := subs, timerAdded := False\<rparr>))
      else Inr m)"

definition getSession :: "string \<Rightarrow> SessionManager \<Rightarrow> Session option" where
  "getSession sid m = find (\<lambda>s. sessionID s = sid) (sessions m)"

text \<open>The draws of \<open>generateRandomId\<close> are \<open>ids\<close>; the counter is tested after each draw.\<close>

function draw_id :: "(nat \<Rightarrow> string) \<Rightarrow> (string \<Rightarrow> bool) \<Rightarrow> nat \<Rightarrow> session_error + string" where
  "draw_id ids taken tries =
     (if tries > 100 then Inl (No_unique_id (ids tries))
      else if taken (ids tries) then draw_id ids taken (tries + 1) else Inr (ids tries))"
  by pat_completeness auto
termination
  by (relation "measure (\<lambda>(ids, taken, tries). 101 - tries)") auto

declare draw_id.simps [simp del]

definition createSession ::
  "(nat \<Rightarrow> string) \<Rightarrow> nat \<Rightarrow> int \<Rightarrow> int \<Rightarrow> int \<Rightarrow> SessionManager \<Rightarrow> session_error + SessionManager \<times> string" where
  "createSession ids self clock now t m =
     bindE (draw_id ids (\<lambda>i. getSession i m \<noteq> None) 0) (\<lambda>sid.
       bindE (checkTimer self clock (m\<lparr>sessions := sessions m @ [(new_session now t)\<lparr>sessionID := sid\<rparr>]\<rparr>)) (\<lambda>m'.
         Inr (m', sid)))"

definition removeSession :: "string \<Rightarrow> nat \<Rightarrow> int \<Rightarrow> SessionManager \<Rightarrow> session_error + SessionManager" where
  "removeSession sid self clock m =
     (case List.extract (\<lambda>s. sessionID s = sid) (sessions m) of
        None \<Rightarrow> Inr m
      | Some (before, s, after) \<Rightarrow> checkTimer self clock (m\<lparr>sessions := before @ after\<rparr>))"

definition getUserPassword :: "string \<Rightarrow> SessionManager \<Rightarrow> string" where
  "getUserPassword user m = getValueOrDefault (accounts m) user []"

definition containerChangedUI :: "int \<Rightarrow> SessionManager \<Rightarrow> SessionManager" where
  "containerChangedUI objectID m =
     m\<lparr>sessions := map (\<lambda>s. if loggedIn s then session_changed objectID s else s) (sessions m)\<rparr>"

definition containerChangedUI_list :: "int list \<Rightarrow> SessionManager \<Rightarrow> SessionManager" where
  "containerChangedUI_list objectIDs m =
     m\<lparr>sessions := map (\<lambda>s. if loggedIn s then session_changed_list objectIDs s else s) (sessions m)\<rparr>"

text \<open>The walk of \<open>timerNotify\<close>: \<open>kept\<close> are the sessions in front of the iterator.\<close>

definition expired :: "int \<Rightarrow> Session \<Rightarrow> bool" where
  "expired clock s = (clock - last_access s * 1000 > timeout s * 1000)"

fun expire_loop :: "nat \<Rightarrow> int \<Rightarrow> Session list \<Rightarrow> Session list \<Rightarrow> SessionManager \<Rightarrow> session_error + SessionManager" where
  "expire_loop self clock kept [] m = Inr (m\<lparr>sessions := kept\<rparr>)"
| "expire_loop self clock kept (s # rest) m =
     (if expired clock s
      then bindE (checkTimer self clock (m\<lparr>sessions := kept @ s # rest\<rparr>)) (\<lambda>m'. expire_loop self clock kept rest m')
      else expire_loop self clock (kept @ [s]) rest m)"

definition timerNotify :: "nat \<Rightarrow> int \<Rightarrow> SessionManager \<Rightarrow> session_error + SessionManager" where
  "timerNotify self clock m = expire_loop self clock [] (sessions m) m"

section \<open>No change is lost\<close>

datatype session_op = Changed int | Changed_list "int list"

fun session_op_run :: "session_op \<Rightarrow> Session \<Rightarrow> Session" where
  "session_op_run (Changed i) = session_changed i"
| "session_op_run (Changed_list is) = session_changed_list is"

fun op_ids :: "session_op \<Rightarrow> int set" where
  "op_ids (Changed i) = {i} - {INVALID_OBJECT_ID}"
| "op_ids (Changed_list is) = set is"

definition session_ok :: "Session \<Rightarrow> bool" where
  "session_ok s = (distinct (uiUpdateIDs s) \<and> length (uiUpdateIDs s) \<le> MAX_UI_UPDATE_IDS \<and>
     (updateAll s \<longrightarrow> uiUpdateIDs s = []))"

lemma fold_insert_set: "set (fold List.insert xs ys) = set xs \<union> set ys"
  by (induction xs arbitrary: ys) auto

lemma fold_insert_distinct: "distinct ys \<Longrightarrow> distinct (fold List.insert xs ys)"
  by (induction xs arbitrary: ys) auto

lemma fold_insert_length: "length (fold List.insert xs ys) \<le> length ys + length xs"
proof (induction xs arbitrary: ys)
  case (Cons x xs)
  have "length (List.insert x ys) \<le> Suc (length ys)" by (simp add: List.insert_def)
  then show ?case using Cons [of "List.insert x ys"] by simp
qed simp

lemma session_op_ok: "session_ok s \<Longrightarrow> session_ok (session_op_run op s)"
proof (cases op)
  case (Changed i)
  assume "session_ok s"
  then show ?thesis using Changed
    by (auto simp: session_ok_def session_changed_def List.insert_def MAX_UI_UPDATE_IDS_def)
next
  case (Changed_list xs)
  assume "session_ok s"
  then show ?thesis using Changed_list fold_insert_length [of xs "uiUpdateIDs s"]
    by (auto simp: session_ok_def session_changed_list_def fold_insert_distinct MAX_UI_UPDATE_IDS_def)
qed

lemma session_op_pending:
  "updateAll (session_op_run op s) \<or>
   \<not> updateAll s \<and> set (uiUpdateIDs (session_op_run op s)) = set (uiUpdateIDs s) \<union> op_ids op"
  by (cases op) (auto simp: session_changed_def session_changed_list_def fold_insert_set)

lemma session_ops_pending:
  "session_ok s \<Longrightarrow>
   session_ok (fold session_op_run ops s) \<and>
   (updateAll (fold session_op_run ops s) \<or>
    \<not> updateAll s \<and> set (uiUpdateIDs (fold session_op_run ops s)) = set (uiUpdateIDs s) \<union> (\<Union>op \<in> set ops. op_ids op))"
proof (induction ops arbitrary: s)
  case (Cons op ops)
  have "session_ok (session_op_run op s)" using Cons.prems by (rule session_op_ok)
  then show ?case using Cons.IH [of "session_op_run op s"] session_op_pending [of op s] by auto
qed simp

text \<open>C6: Whatever changes are reported to a session after its page fetched the last ones, the next fetch names
  all of them or says \<open>all\<close>, and names nothing else; at most ten identifiers wait, and the fetch leaves
  nothing behind.\<close>

theorem session_updates_complete:
  assumes "session_ok s0" "\<forall>xs. mset (iter xs) = mset xs"
    and "s = fold session_op_run ops (snd (getUIUpdateIDs iter s0))"
  shows "length (uiUpdateIDs s) \<le> 10 \<and> \<not> hasUIUpdateIDs (snd (getUIUpdateIDs iter s)) \<and>
    (fst (getUIUpdateIDs iter s) = ''all'' \<or>
     (\<exists>ids. fst (getUIUpdateIDs iter s) = join '','' (map show_int ids) \<and> distinct ids \<and>
        set ids = (\<Union>op \<in> set ops. op_ids op)))"
proof -
  let ?s1 = "snd (getUIUpdateIDs iter s0)"
  have s1: "session_ok ?s1" "\<not> updateAll ?s1" "uiUpdateIDs ?s1 = []"
    using assms(1) by (auto simp: getUIUpdateIDs_def session_ok_def hasUIUpdateIDs_def)
  then have s: "session_ok s" "updateAll s \<or> set (uiUpdateIDs s) = (\<Union>op \<in> set ops. op_ids op)"
    using session_ops_pending [OF s1(1), of ops] assms(3) by auto
  have cleared: "\<not> hasUIUpdateIDs (snd (getUIUpdateIDs iter s))"
    using s(1) by (auto simp: getUIUpdateIDs_def session_ok_def hasUIUpdateIDs_def)
  have len: "length (uiUpdateIDs s) \<le> 10" using s(1) by (simp add: session_ok_def MAX_UI_UPDATE_IDS_def)
  show ?thesis
  proof (cases "updateAll s")
    case True
    then show ?thesis using cleared len by (simp add: getUIUpdateIDs_def hasUIUpdateIDs_def)
  next
    case False
    have empty: "iter [] = []" using assms(2) by (metis mset_zero_iff)
    have "set (iter (uiUpdateIDs s)) = set (uiUpdateIDs s)" using assms(2) by (metis set_mset_mset)
    moreover have "distinct (iter (uiUpdateIDs s))"
      using assms(2) s(1) by (metis mset_eq_imp_distinct_iff session_ok_def)
    moreover have "fst (getUIUpdateIDs iter s) = join '','' (map show_int (iter (uiUpdateIDs s)))"
      using False empty by (auto simp: getUIUpdateIDs_def hasUIUpdateIDs_def)
    ultimately show ?thesis using cleared len False s(2) by auto
  qed
qed

lemma session_updates_complete_witness:
  "length (uiUpdateIDs (fold session_op_run [Changed 5, Changed_list [7, 5]] (new_session 0 60))) \<le> 10 \<and>
   \<not> hasUIUpdateIDs (snd (getUIUpdateIDs id (fold session_op_run [Changed 5, Changed_list [7, 5]] (new_session 0 60)))) \<and>
   (fst (getUIUpdateIDs id (fold session_op_run [Changed 5, Changed_list [7, 5]] (new_session 0 60))) = ''all'' \<or>
    (\<exists>ids. fst (getUIUpdateIDs id (fold session_op_run [Changed 5, Changed_list [7, 5]] (new_session 0 60))) =
        join '','' (map show_int ids) \<and> distinct ids \<and> set ids = (\<Union>op \<in> set [Changed 5, Changed_list [7, 5]]. op_ids op)))"
  by (rule session_updates_complete [of "new_session 0 60"])
    (simp_all add: session_ok_def new_session_def getUIUpdateIDs_def hasUIUpdateIDs_def)

section \<open>The timer subscription\<close>

text \<open>The flag of the manager says whether it is among the subscribers; the timer is then never asked for the
  same subscription twice or to drop one that is not there.\<close>

definition timer_linked :: "nat \<Rightarrow> SessionManager \<Rightarrow> bool" where
  "timer_linked self m =
     (timers_distinct (subscribers m) \<and> (timerAdded m \<longleftrightarrow> (self, None) \<in> timer_key ` set (subscribers m)))"

definition manager_ok :: "nat \<Rightarrow> SessionManager \<Rightarrow> bool" where
  "manager_ok self m = (timer_linked self m \<and> distinct (map sessionID (sessions m)) \<and>
     (sessions m \<noteq> [] \<longrightarrow> timerAdded m))"

lemma checkTimer_linked:
  assumes "timer_linked self m"
  obtains m' where "checkTimer self clock m = Inr m'" "timer_linked self m'"
    "sessions m' = sessions m" "accounts m' = accounts m" "timerAdded m' = (sessions m \<noteq> [])"
proof (cases "sessions m \<noteq> []")
  case True
  show ?thesis
  proof (cases "timerAdded m")
    case False
    then have "\<not> (\<exists>e \<in> set (subscribers m). same_timer e (TimerSubscriberElement clock self SESSION_TIMEOUT_CHECK_INTERVAL None False))"
      using assms by (auto simp: timer_linked_def same_timer_key image_iff)
    then have add: "addTimerSubscriber clock self SESSION_TIMEOUT_CHECK_INTERVAL None False (subscribers m) =
        Inr (subscribers m @ [TimerSubscriberElement clock self SESSION_TIMEOUT_CHECK_INTERVAL None False])"
      by (simp add: addTimerSubscriber_def Let_def SESSION_TIMEOUT_CHECK_INTERVAL_def)
    show ?thesis
    proof (rule that)
      show "checkTimer self clock m = Inr (m\<lparr>subscribers := subscribers m @
          [TimerSubscriberElement clock self SESSION_TIMEOUT_CHECK_INTERVAL None False], timerAdded := True\<rparr>)"
        using True False add by (simp add: checkTimer_def)
    qed (use assms True add_distinct [OF _ add] in \<open>auto simp: timer_linked_def\<close>)
  qed (use that assms True in \<open>simp add: checkTimer_def\<close>)
next
  case False
  show ?thesis
  proof (cases "timerAdded m")
    case True
    then obtain e where e: "e \<in> set (subscribers m)" "timer_key e = (self, None)"
      using assms unfolding timer_linked_def by (metis imageE)
    let ?P = "\<lambda>x. same_timer x (TimerSubscriberElement 0 self 0 None False)"
    have "\<not> (\<forall>x \<in> set (subscribers m). \<not> ?P x)" using e by (auto simp: same_timer_key)
    then obtain before x after where ex: "List.extract ?P (subscribers m) = Some (before, x, after)"
      by (metis extract_None_iff not_Some_eq prod_cases3)
    then have x: "subscribers m = before @ x # after" "timer_key x = (self, None)"
      by (auto dest!: extract_SomeD simp: same_timer_key)
    have rem: "removeTimerSubscriber self None False (subscribers m) = Inr (before @ after, True)"
      using ex by (simp add: removeTimerSubscriber_def Let_def)
    show ?thesis
    proof (rule that)
      show "checkTimer self clock m = Inr (m\<lparr>subscribers := before @ after, timerAdded := False\<rparr>)"
        using True False rem by (simp add: checkTimer_def)
    qed (use assms False x in \<open>auto simp: timer_linked_def timers_distinct_def image_iff\<close>)
  qed (use that assms False in \<open>simp add: checkTimer_def\<close>)
qed

lemma draw_id_free: "draw_id ids taken n = Inr sid \<Longrightarrow> \<not> taken sid"
proof (induction ids taken n rule: draw_id.induct)
  case (1 ids taken n)
  then show ?case by (subst (asm) (2) draw_id.simps) (auto split: if_splits)
qed

lemma draw_id_error: "draw_id ids taken n = Inl e \<longleftrightarrow> (\<forall>k \<in> {n..100}. taken (ids k)) \<and> e = No_unique_id (ids (max n 101))"
proof (induction ids taken n rule: draw_id.induct)
  case (1 ids taken n)
  show ?case
  proof (cases "n > 100")
    case True
    then have "max n 101 = n" by simp
    then show ?thesis using True by (subst draw_id.simps) auto
  next
    case False
    have "{n..100} = insert n {n + 1..100}" using False by auto
    moreover have "max n 101 = (101 :: nat)" "max (n + 1) 101 = (101 :: nat)" using False by auto
    ultimately show ?thesis using 1 False by (subst draw_id.simps) auto
  qed
qed

lemma find_append_one: "find P (xs @ [x]) = (case find P xs of Some y \<Rightarrow> Some y | None \<Rightarrow> if P x then Some x else None)"
  by (induction xs) simp_all

lemma getSession_None: "getSession sid m = None \<longleftrightarrow> sid \<notin> sessionID ` set (sessions m)"
  by (auto simp: getSession_def find_None_iff)

lemma createSession_result:
  assumes "manager_ok self m"
  shows "case createSession ids self clock now t m of
      Inl e \<Rightarrow> (\<forall>k \<le> 100. getSession (ids k) m \<noteq> None) \<and> e = No_unique_id (ids 101)
    | Inr (m', sid) \<Rightarrow> getSession sid m = None \<and> manager_ok self m' \<and> timerAdded m' \<and>
        sessions m' = sessions m @ [(new_session now t)\<lparr>sessionID := sid\<rparr>] \<and>
        getSession sid m' = Some ((new_session now t)\<lparr>sessionID := sid\<rparr>) \<and>
        (\<forall>other. getSession other m' = getSession other m \<or> other = sid) \<and> accounts m' = accounts m"
proof (cases "draw_id ids (\<lambda>i. getSession i m \<noteq> None) 0")
  case (Inl e)
  then show ?thesis using draw_id_error [of ids "\<lambda>i. getSession i m \<noteq> None" 0 e]
    by (auto simp: createSession_def)
next
  case (Inr sid)
  let ?s = "(new_session now t)\<lparr>sessionID := sid\<rparr>"
  have free: "getSession sid m = None" using draw_id_free [OF Inr] by simp
  have "timer_linked self (m\<lparr>sessions := sessions m @ [?s]\<rparr>)"
    using assms by (simp add: manager_ok_def timer_linked_def)
  then obtain m' where m': "checkTimer self clock (m\<lparr>sessions := sessions m @ [?s]\<rparr>) = Inr m'"
      "timer_linked self m'" "sessions m' = sessions m @ [?s]" "timerAdded m'"
      "accounts m' = accounts m"
    by (rule checkTimer_linked [where clock=clock]) simp
  have "distinct (map sessionID (sessions m'))"
    using assms m'(3) free by (auto simp: manager_ok_def getSession_None)
  moreover have "find (\<lambda>s. sessionID s = other) (sessions m') =
      (case find (\<lambda>s. sessionID s = other) (sessions m) of Some s \<Rightarrow> Some s | None \<Rightarrow> if other = sid then Some ?s else None)" for other
    unfolding m'(3) by (auto simp: find_append_one split: option.split)
  ultimately show ?thesis using Inr m' free by (auto simp: createSession_def manager_ok_def getSession_def split: option.splits)
qed



lemma expire_loop_filter:
  "timerAdded m \<or> rest = [] \<Longrightarrow>
   expire_loop self clock kept rest m = Inr (m\<lparr>sessions := kept @ filter (\<lambda>s. \<not> expired clock s) rest\<rparr>)"
proof (induction rest arbitrary: kept m)
  case (Cons s rest)
  have "checkTimer self clock (m\<lparr>sessions := kept @ s # rest\<rparr>) = Inr (m\<lparr>sessions := kept @ s # rest\<rparr>)"
    using Cons.prems by (simp add: checkTimer_def)
  then show ?case using Cons.IH [of "m\<lparr>sessions := kept @ s # rest\<rparr>" kept] Cons.IH [of m "kept @ [s]"] Cons.prems
    by simp
qed simp

text \<open>The periodic check removes exactly the sessions whose last access lies further back than their timeout
  and keeps the order of the others. It asks about the subscription while the expired session is still in
  the list, so when the last session expires the manager stays subscribed, which removing that session by
  request would have ended.\<close>

theorem timerNotify_spec:
  assumes "manager_ok self m"
  shows "timerNotify self clock m = Inr (m\<lparr>sessions := filter (\<lambda>s. \<not> expired clock s) (sessions m)\<rparr>) \<and>
    (sessions m = [s] \<and> expired clock s \<longrightarrow>
      (\<exists>m'. timerNotify self clock m = Inr m' \<and> sessions m' = [] \<and> timerAdded m') \<and>
      (\<exists>m'. removeSession (sessionID s) self clock m = Inr m' \<and> sessions m' = [] \<and> \<not> timerAdded m'))"
proof (intro conjI impI)
  show eq: "timerNotify self clock m = Inr (m\<lparr>sessions := filter (\<lambda>s. \<not> expired clock s) (sessions m)\<rparr>)"
    using assms expire_loop_filter [of m "sessions m" self clock "[]"] by (auto simp: timerNotify_def manager_ok_def)
  assume s: "sessions m = [s] \<and> expired clock s"
  show "\<exists>m'. timerNotify self clock m = Inr m' \<and> sessions m' = [] \<and> timerAdded m'"
    using eq s assms by (simp add: manager_ok_def)
  have "timer_linked self (m\<lparr>sessions := []\<rparr>)" using assms by (simp add: manager_ok_def timer_linked_def)
  then obtain m' where m': "checkTimer self clock (m\<lparr>sessions := []\<rparr>) = Inr m'" "sessions m' = []" "\<not> timerAdded m'"
    by (rule checkTimer_linked [where clock=clock]) simp
  have "List.extract (\<lambda>x. sessionID x = sessionID s) (sessions m) = Some ([], s, [])"
    using s by (simp add: extract_Cons_code)
  then show "\<exists>m'. removeSession (sessionID s) self clock m = Inr m' \<and> sessions m' = [] \<and> \<not> timerAdded m'"
    using m' by (simp add: removeSession_def)
qed

lemma timerNotify_spec_witness:
  "let m = \<lparr>sessions = [(new_session 5 60)\<lparr>sessionID := ''a''\<rparr>], accounts = [], timerAdded = True,
      subscribers = [TimerSubscriberElement 5000 4 300000 None False]\<rparr>
   in \<exists>m'. timerNotify 4 900000 m = Inr m' \<and> sessions m' = [] \<and> timerAdded m'"
proof -
  let ?s = "(new_session 5 60)\<lparr>sessionID := ''a''\<rparr>"
  let ?m = "\<lparr>sessions = [?s], accounts = [], timerAdded = True,
      subscribers = [TimerSubscriberElement 5000 4 300000 None False]\<rparr>"
  have ok: "manager_ok 4 ?m" by (simp add: manager_ok_def timer_linked_def timers_distinct_def)
  have "sessions ?m = [?s] \<and> expired 900000 ?s" by (simp add: expired_def new_session_def)
  then show ?thesis using timerNotify_spec [OF ok, of 900000 ?s] unfolding Let_def by blast
qed

lemma removeSession_ok:
  assumes "manager_ok self m"
  obtains m' where "removeSession sid self clock m = Inr m'" "manager_ok self m'" "accounts m' = accounts m"
    "sessions m' = filter (\<lambda>s. sessionID s \<noteq> sid) (sessions m)"
proof (cases "List.extract (\<lambda>s. sessionID s = sid) (sessions m)")
  case None
  then have "filter (\<lambda>s. sessionID s \<noteq> sid) (sessions m) = sessions m"
    by (simp add: extract_None_iff filter_id_conv)
  then show ?thesis using that assms None by (simp add: removeSession_def)
next
  case (Some r)
  then obtain before s after where ex: "List.extract (\<lambda>s. sessionID s = sid) (sessions m) = Some (before, s, after)"
    by (metis prod_cases3)
  then have s: "sessions m = before @ s # after" "sessionID s = sid" by (auto dest: extract_SomeD)
  have d: "distinct (map sessionID (before @ after))" "sid \<notin> sessionID ` set (before @ after)"
    using assms s by (auto simp: manager_ok_def)
  have "timer_linked self (m\<lparr>sessions := before @ after\<rparr>)" using assms by (simp add: manager_ok_def timer_linked_def)
  then obtain m' where m': "checkTimer self clock (m\<lparr>sessions := before @ after\<rparr>) = Inr m'" "timer_linked self m'"
      "sessions m' = before @ after" "accounts m' = accounts m" "timerAdded m' = (before @ after \<noteq> [])"
    by (rule checkTimer_linked [where clock=clock]) simp
  have "filter (\<lambda>s. sessionID s \<noteq> sid) (before @ after) = before @ after"
    by (rule filter_True) (use d(2) in auto)
  then have f: "filter (\<lambda>s. sessionID s \<noteq> sid) (sessions m) = before @ after" using s by simp
  show ?thesis
  proof (rule that [of m'])
    show "removeSession sid self clock m = Inr m'" using ex m'(1) by (simp add: removeSession_def)
    show "manager_ok self m'" using m' d by (simp add: manager_ok_def)
  qed (use m' f in simp_all)
qed

end
