(* ===== verification/Web_Auth.thy ===== *)
theory Web_Auth
  imports Sessions
begin

text \<open>
  The page that opens, logs in and closes sessions (\<open>src/src/web/auth.cc\<close>) and the check every other page
  makes (\<open>src/src/web/page_request.cc\<close>). A request reads the clock once, runs on its own, and keeps what it
  changed before an exception. The MD5 sum, the random identifiers and the order of an unordered set are
  parameters.
\<close>

datatype web_error =
  No_session_id | Invalid_session_id | Not_logged_in | Missing_credentials | Illegal_session_id |
  Invalid_credentials | Bad_token_number | Illegal_action | Manager_error session_error

type_synonym 'a web = "SessionManager \<Rightarrow> (web_error + 'a) \<times> SessionManager"

definition bindW :: "'a web \<Rightarrow> ('a \<Rightarrow> 'b web) \<Rightarrow> 'b web" where
  "bindW f g m = (case f m of (Inl e, m') \<Rightarrow> (Inl e, m') | (Inr a, m') \<Rightarrow> g a m')"

lemma bindW_eq:
  "bindW f g m = (r, m2) \<longleftrightarrow>
     (\<exists>e. f m = (Inl e, m2) \<and> r = Inl e) \<or> (\<exists>a m1. f m = (Inr a, m1) \<and> g a m1 = (r, m2))"
  by (auto simp: bindW_def split: prod.splits sum.splits)

record web_env =
  env_md5 :: "string \<Rightarrow> string"
  timerSelf :: nat
  accountsEnabled :: bool
  sessionTimeout :: int
  env_iter :: "int list \<Rightarrow> int list"

text \<open>A request with the time it reads and what the random generator gives it.\<close>

record web_request =
  req_action :: string
  req_sid :: string
  req_username :: string
  req_password :: string
  req_updates :: string
  req_now :: int
  req_ids :: "nat \<Rightarrow> string"
  req_salt :: string

section \<open>Sessions by identifier\<close>

fun update_first :: "('a \<Rightarrow> bool) \<Rightarrow> ('a \<Rightarrow> 'a) \<Rightarrow> 'a list \<Rightarrow> 'a list" where
  "update_first P f [] = []"
| "update_first P f (x # xs) = (if P x then f x # xs else x # update_first P f xs)"

definition on_session :: "string \<Rightarrow> (Session \<Rightarrow> Session) \<Rightarrow> SessionManager \<Rightarrow> SessionManager" where
  "on_session sid f m = m\<lparr>sessions := update_first (\<lambda>s. sessionID s = sid) f (sessions m)\<rparr>"

definition checkRequest :: "web_request \<Rightarrow> bool \<Rightarrow> Session web" where
  "checkRequest req checkLogin m =
     (if req_sid req = [] then (Inl No_session_id, m)
      else case getSession (req_sid req) m of
        None \<Rightarrow> (Inl Invalid_session_id, m)
      | Some s \<Rightarrow>
          if checkLogin \<and> \<not> loggedIn s then (Inl Not_logged_in, m)
          else (Inr s, on_session (req_sid req) (session_access (req_now req)) m))"

section \<open>Tokens\<close>

definition loginTimeout :: int where "loginTimeout = 10"

definition generateToken :: "int \<Rightarrow> string \<Rightarrow> string" where
  "generateToken t salt = show_int (t + loginTimeout) @ ''_'' @ salt"

definition checkToken :: "(string \<Rightarrow> string) \<Rightarrow> int \<Rightarrow> string \<Rightarrow> string \<Rightarrow> string \<Rightarrow> web_error + bool" where
  "checkToken md5 t token password encPassword =
     (let parts = splitString token (CHR ''_'') (CHR 0x00) False in
      if length parts \<noteq> 2 then Inr False
      else case std_sto 63 (parts ! 0) of
        None \<Rightarrow> Inl Bad_token_number
      | Some expiration \<Rightarrow> Inr (\<not> expiration < t \<and> md5 (token @ password) = encPassword))"

section \<open>Actions\<close>

datatype auth_reply = No_reply | Sid_reply string bool bool | Token_reply string

definition getSid :: "web_env \<Rightarrow> web_request \<Rightarrow> auth_reply web" where
  "getSid env req m =
     (let sid = req_sid req;
          login = (\<lambda>sid valid m.
            case getSession sid m of
              None \<Rightarrow> (Inr (Sid_reply sid valid False), m)
            | Some s \<Rightarrow>
                if \<not> loggedIn s \<and> \<not> accountsEnabled env then (Inr (Sid_reply sid valid True), on_session sid logIn m)
                else (Inr (Sid_reply sid valid (loggedIn s)), m))
      in if sid = [] \<or> getSession sid m = None then
           (case createSession (req_ids req) (timerSelf env) (req_now req * 1000) (req_now req) (sessionTimeout env) m of
              Inl e \<Rightarrow> (Inl (Manager_error e), m)
            | Inr (m', sid') \<Rightarrow> login sid' False m')
         else login sid True (on_session sid clearUpdateIDs m))"

definition getToken :: "web_request \<Rightarrow> (auth_reply \<times> Session) web" where
  "getToken req =
     bindW (checkRequest req False) (\<lambda>s m.
       let token = generateToken (req_now req) (req_salt req)
       in (Inr (Token_reply token, s), on_session (req_sid req) (session_put ''token'' token) m))"

definition login :: "web_env \<Rightarrow> web_request \<Rightarrow> (auth_reply \<times> Session) web" where
  "login env req =
     bindW (checkRequest req False) (\<lambda>s0 m.
       if req_username req = [] \<or> req_password req = [] then (Inl Missing_credentials, m)
       else case getSession (req_sid req) m of
         None \<Rightarrow> (Inl Illegal_session_id, m)
       | Some s \<Rightarrow>
           let correctPassword = getUserPassword (req_username req) m in
           if correctPassword = [] then (Inl Invalid_credentials, m)
           else case checkToken (env_md5 env) (req_now req) (session_get ''token'' s) correctPassword (req_password req) of
             Inl e \<Rightarrow> (Inl e, m)
           | Inr False \<Rightarrow> (Inl Invalid_credentials, m)
           | Inr True \<Rightarrow> (Inr (No_reply, s0), on_session (req_sid req) logIn m))"

definition logout :: "web_env \<Rightarrow> web_request \<Rightarrow> (auth_reply \<times> Session) web" where
  "logout env req =
     bindW (checkRequest req True) (\<lambda>s0 m.
       case getSession (req_sid req) m of
         None \<Rightarrow> (Inl Illegal_session_id, m)
       | Some s \<Rightarrow>
           case removeSession (req_sid req) (timerSelf env) (req_now req * 1000) m of
             Inl e \<Rightarrow> (Inl (Manager_error e), m)
           | Inr m' \<Rightarrow> (Inr (No_reply, s0), m'))"

text \<open>The pending changes go with the reply of an action that returned true; the page keeps the session that
  \<open>checkRequest\<close> found, also when the manager has dropped it since.\<close>

datatype update_reply = No_updates | Pending bool | Updates string

definition handleUpdateIDs :: "web_env \<Rightarrow> web_request \<Rightarrow> Session \<Rightarrow> update_reply web" where
  "handleUpdateIDs env req s m =
     (if req_updates req = ''check'' then (Inr (Pending (hasUIUpdateIDs s)), m)
      else if req_updates req = ''get'' then
        (Inr (Updates (fst (getUIUpdateIDs (env_iter env) s))),
         on_session (req_sid req) (\<lambda>s. snd (getUIUpdateIDs (env_iter env) s)) m)
      else (Inr No_updates, m))"

definition auth_process :: "web_env \<Rightarrow> web_request \<Rightarrow> (auth_reply \<times> update_reply) web" where
  "auth_process env req =
     (let a = req_action req;
          updates = (\<lambda>(r, s). bindW (handleUpdateIDs env req s) (\<lambda>u m. (Inr (r, u), m)))
      in if a = [] \<or> a = ''get_config'' then (\<lambda>m. (Inr (No_reply, No_updates), m))
         else if a = ''get_sid'' then bindW (getSid env req) (\<lambda>r m. (Inr (r, No_updates), m))
         else if a = ''logout'' then bindW (logout env req) updates
         else if a = ''get_token'' then bindW (getToken req) updates
         else if a = ''login'' then bindW (login env req) updates
         else (\<lambda>m. (Inl Illegal_action, m)))"

text \<open>Any other page: the request is checked, the page's own work does not touch the sessions, and the pending
  changes go with the reply.\<close>

definition page_process :: "web_env \<Rightarrow> web_request \<Rightarrow> update_reply web" where
  "page_process env req = bindW (checkRequest req True) (handleUpdateIDs env req)"

section \<open>The system\<close>

text \<open>The log of issued tokens and successful logins is no part of the program.\<close>

datatype auth_event = Issued string string int | Login string string string int

record web_system =
  manager :: SessionManager
  log :: "auth_event list"

fun request_events :: "web_request \<Rightarrow> (web_error + auth_reply \<times> update_reply) \<Rightarrow> auth_event list" where
  "request_events req (Inl e) = []"
| "request_events req (Inr (Token_reply token, u)) = [Issued (req_sid req) token (req_now req)]"
| "request_events req (Inr (r, u)) =
     (if req_action req = ''login'' then [Login (req_sid req) (req_username req) (req_password req) (req_now req)] else [])"

inductive web_step :: "web_env \<Rightarrow> web_system \<Rightarrow> web_system \<Rightarrow> bool" for env where
  auth_request: "auth_process env req (manager w) = (r, m') \<Longrightarrow>
     web_step env w (w\<lparr>manager := m', log := log w @ request_events req r\<rparr>)"
| page_request: "page_process env req (manager w) = (r, m') \<Longrightarrow> web_step env w (w\<lparr>manager := m'\<rparr>)"
| container_changed: "web_step env w (w\<lparr>manager := containerChangedUI i (manager w)\<rparr>)"
| containers_changed: "web_step env w (w\<lparr>manager := containerChangedUI_list is (manager w)\<rparr>)"
| timer_tick: "timerNotify (timerSelf env) clock (manager w) = Inr m' \<Longrightarrow> web_step env w (w\<lparr>manager := m'\<rparr>)"

definition web_start :: "(string, string) smap \<Rightarrow> timer_subscriber list \<Rightarrow> web_system" where
  "web_start accs subs =
     \<lparr>manager = \<lparr>sessions = [], accounts = accs, timerAdded = False, subscribers = subs\<rparr>, log = []\<rparr>"

end
