(* ===== verification/Web_Safety.thy ===== *)
theory Web_Safety
  imports Web_Auth
begin

text \<open>
  Who is logged in, and what every page checks: the invariant of the system of sessions and its properties.
\<close>

section \<open>Who is logged in\<close>

definition session_known :: "web_env \<Rightarrow> auth_event list \<Rightarrow> Session \<Rightarrow> bool" where
  "session_known env lg s =
     ((session_get ''token'' s = [] \<or>
       (\<exists>t z. session_get ''token'' s = generateToken t z \<and> Issued (sessionID s) (session_get ''token'' s) t \<in> set lg)) \<and>
      (accountsEnabled env \<and> loggedIn s \<longrightarrow> (\<exists>user enc t. Login (sessionID s) user enc t \<in> set lg)))"

definition login_valid :: "web_env \<Rightarrow> (string, string) smap \<Rightarrow> auth_event list \<Rightarrow> bool" where
  "login_valid env accs lg =
     (\<forall>sid user enc t. Login sid user enc t \<in> set lg \<longrightarrow>
        getValueOrDefault accs user [] \<noteq> [] \<and>
        (\<exists>token t0. Issued sid token t0 \<in> set lg \<and> t \<le> t0 + loginTimeout \<and>
           enc = env_md5 env (token @ getValueOrDefault accs user [])))"

definition sessions_good :: "web_env \<Rightarrow> (string, string) smap \<Rightarrow> auth_event list \<Rightarrow> SessionManager \<Rightarrow> bool" where
  "sessions_good env accs lg m =
     (manager_ok (timerSelf env) m \<and> accounts m = accs \<and> (\<forall>s \<in> set (sessions m). session_known env lg s))"

lemma update_first_cases:
  "x \<in> set (update_first P f xs) \<Longrightarrow> x \<in> set xs \<or> (\<exists>y \<in> set xs. P y \<and> x = f y)"
  by (induction xs) (auto split: if_splits)

lemma update_first_ids: "(\<And>x. g (f x) = g x) \<Longrightarrow> map g (update_first P f xs) = map g xs"
  by (induction xs) simp_all

lemma update_first_Nil [simp]: "update_first P f xs = [] \<longleftrightarrow> xs = []"
  by (cases xs) simp_all

lemma on_session_good:
  assumes "sessions_good env accs lg m" "\<And>s. sessionID (f s) = sessionID s" "set lg \<subseteq> set lg'"
    "\<And>s. session_known env lg s \<Longrightarrow> sessionID s = sid \<Longrightarrow> session_known env lg' (f s)"
  shows "sessions_good env accs lg' (on_session sid f m)"
proof -
  have mono: "session_known env lg' s" if "session_known env lg s" for s
    using that assms(3) unfolding session_known_def by blast
  have "manager_ok (timerSelf env) (on_session sid f m)"
    using assms(1,2) by (auto simp: sessions_good_def manager_ok_def timer_linked_def on_session_def update_first_ids)
  moreover have "session_known env lg' s" if "s \<in> set (sessions (on_session sid f m))" for s
    using update_first_cases [of s "\<lambda>s. sessionID s = sid" f "sessions m"] that assms(1) mono assms(4)
    by (auto simp: on_session_def sessions_good_def)
  ultimately show ?thesis using assms(1) by (simp add: sessions_good_def on_session_def)
qed

lemmas session_ops = session_access_def session_put_def session_get_def clearUpdateIDs_def logIn_def

lemma on_session_same:
  assumes "sessions_good env accs lg m" "\<And>s. sessionID (f s) = sessionID s" "\<And>s. dict (f s) = dict s" "\<And>s. loggedIn (f s) = loggedIn s"
  shows "sessions_good env accs lg (on_session sid f m)"
  by (rule on_session_good [OF assms(1,2)]) (simp_all add: session_known_def session_get_def assms)

lemma getSession_Some: "getSession sid m = Some s \<Longrightarrow> s \<in> set (sessions m) \<and> sessionID s = sid"
  by (auto simp: getSession_def find_Some_iff)

lemma checkRequest_good:
  "sessions_good env accs lg m \<Longrightarrow> checkRequest req b m = (r, m') \<Longrightarrow> sessions_good env accs lg m'"
  by (auto simp: checkRequest_def session_access_def split: if_splits option.splits intro!: on_session_same)

lemma checkTimer_keeps: "checkTimer self clock m = Inr m' \<Longrightarrow> accounts m' = accounts m \<and> sessions m' = sessions m"
  by (auto simp: checkTimer_def split: if_splits sum.splits)

lemma createSession_good:
  assumes "sessions_good env accs lg m" "createSession ids (timerSelf env) clock t0 t m = Inr (m', sid)"
  shows "sessions_good env accs lg m'"
proof -
  have "manager_ok (timerSelf env) m" using assms(1) by (simp add: sessions_good_def)
  then have "manager_ok (timerSelf env) m' \<and> sessions m' = sessions m @ [(new_session t0 t)\<lparr>sessionID := sid\<rparr>] \<and>
      accounts m' = accounts m"
    using createSession_result [where self = "timerSelf env" and ids = ids and clock = clock and now = t0 and t = t and m = m]
      assms(2) by simp
  then show ?thesis
    using assms(1) by (auto simp: sessions_good_def session_known_def session_get_def new_session_def)
qed

lemma getSid_good:
  assumes "accountsEnabled env" "sessions_good env accs lg m" "getSid env req m = (r, m')"
  shows "sessions_good env accs lg m'"
proof -
  have cleared: "sessions_good env accs lg (on_session sid clearUpdateIDs m)" for sid
    using assms(2) by (rule on_session_same) (simp_all add: clearUpdateIDs_def)
  show ?thesis
    using assms(2,3) cleared createSession_good [OF assms(2)]
    by (auto simp: getSid_def Let_def assms(1) split: if_splits option.splits sum.splits prod.splits)
qed

lemma getToken_good:
  assumes "sessions_good env accs lg m" "getToken req m = (Inr (Token_reply token, s), m')"
  shows "sessions_good env accs (lg @ [Issued (req_sid req) token (req_now req)]) m'"
proof -
  obtain m1 where c: "checkRequest req False m = (Inr s, m1)" and m': "token = generateToken (req_now req) (req_salt req)"
      "m' = on_session (req_sid req) (session_put ''token'' token) m1"
    using assms(2) by (auto simp: getToken_def bindW_eq Let_def)
  have m1: "sessions_good env accs lg m1" using assms(1) c by (rule checkRequest_good)
  show ?thesis unfolding m'(2)
  proof (rule on_session_good [OF m1])
    fix s assume "session_known env lg s" "sessionID s = req_sid req"
    moreover have "session_get ''token'' (session_put ''token'' token s) = token"
      by (simp add: session_get_def session_put_def getValueOrDefault_map_of)
    ultimately show "session_known env (lg @ [Issued (req_sid req) token (req_now req)]) (session_put ''token'' token s)"
      using m'(1) by (auto simp: session_known_def session_put_def)
  qed (auto simp: session_put_def)
qed

text \<open>The first part of a token the server made is its expiration.\<close>

lemma checkToken_issued:
  assumes "checkToken f t (generateToken t0 z) pw enc = Inr True"
  shows "t \<le> t0 + loginTimeout \<and> enc = f (generateToken t0 z @ pw)"
proof -
  have digits: "CHR ''_'' \<notin> set (show_int i) \<and> CHR 0x00 \<notin> set (show_int i) \<and> show_int i \<noteq> []" for i
  proof -
    have "CHR ''_'' \<notin> set (show_nat n)" "CHR 0x00 \<notin> set (show_nat n)" for n
      using show_nat_digits [of n] by (auto simp: isdigit_def dest: bspec)
    then show ?thesis by (simp add: show_int_def)
  qed
  have "splitString (generateToken t0 z) (CHR ''_'') (CHR 0x00) False =
      show_int (t0 + loginTimeout) # filter (\<lambda>s. s \<noteq> []) (segments (CHR ''_'') (CHR 0x00) False [] z)"
    using digits [of "t0 + loginTimeout"] by (simp add: splitString_segments generateToken_def segments_append)
  then show ?thesis using assms
    by (auto simp: checkToken_def Let_def std_sto_show_int split: if_splits option.splits)
qed

lemma checkToken_none: "checkToken f t [] pw enc = Inr False"
  by (simp add: checkToken_def splitString_segments)

lemma login_good:
  assumes g: "sessions_good env accs lg m" and v: "login_valid env accs lg"
    and "login env req m = (Inr (r, s0), m')"
  defines "lg' \<equiv> lg @ [Login (req_sid req) (req_username req) (req_password req) (req_now req)]"
  shows "r = No_reply \<and> sessions_good env accs lg' m' \<and> login_valid env accs lg'"
proof -
  let ?pw = "getValueOrDefault accs (req_username req) []"
  obtain m1 s where m1: "checkRequest req False m = (Inr s0, m1)" "getSession (req_sid req) m1 = Some s"
      "getUserPassword (req_username req) m1 \<noteq> []" "r = No_reply" "m' = on_session (req_sid req) logIn m1"
      "checkToken (env_md5 env) (req_now req) (session_get ''token'' s) (getUserPassword (req_username req) m1) (req_password req) = Inr True"
    using assms(3) by (auto simp: login_def bindW_eq Let_def split: if_splits option.splits sum.splits bool.splits)
  have g1: "sessions_good env accs lg m1" using g m1(1) by (rule checkRequest_good)
  then have pw: "getUserPassword (req_username req) m1 = ?pw" by (simp add: getUserPassword_def sessions_good_def)
  have s: "session_known env lg s" "sessionID s = req_sid req"
    using getSession_Some [OF m1(2)] g1 by (auto simp: sessions_good_def)
  have "session_get ''token'' s \<noteq> []" using m1(6) checkToken_none by auto
  then obtain t z where t: "session_get ''token'' s = generateToken t z" "Issued (req_sid req) (session_get ''token'' s) t \<in> set lg"
    using s unfolding session_known_def by metis
  have chk: "req_now req \<le> t + loginTimeout \<and> req_password req = env_md5 env (generateToken t z @ ?pw)"
    using m1(6) unfolding t(1) pw by (rule checkToken_issued)
  have sub: "set lg \<subseteq> set lg'" by (auto simp: lg'_def)
  have "sessions_good env accs lg' m'" unfolding m1(5)
  proof (rule on_session_good [OF g1 _ sub])
    fix s assume "session_known env lg s" "sessionID s = req_sid req"
    then show "session_known env lg' (logIn s)"
      by (auto simp: session_known_def logIn_def session_get_def lg'_def)
  qed (simp add: logIn_def)
  moreover have "login_valid env accs lg'"
    using v t chk m1(3) pw sub unfolding login_valid_def lg'_def by fastforce
  ultimately show ?thesis using m1(4) by simp
qed

lemma login_error_good:
  "sessions_good env accs lg m \<Longrightarrow> login env req m = (Inl e, m') \<Longrightarrow> sessions_good env accs lg m'"
  by (auto simp: login_def bindW_eq Let_def split: if_splits option.splits sum.splits bool.splits dest: checkRequest_good)

lemma logout_good:
  assumes "sessions_good env accs lg m" "logout env req m = (r, m')"
  shows "sessions_good env accs lg m' \<and> (\<forall>a s. r = Inr (a, s) \<longrightarrow> a = No_reply)"
proof -
  obtain r1 m1 where m1: "checkRequest req True m = (r1, m1)" by fastforce
  have g1: "sessions_good env accs lg m1" using assms(1) m1 by (rule checkRequest_good)
  then have "manager_ok (timerSelf env) m1" by (simp add: sessions_good_def)
  then obtain m2 where m2: "removeSession (req_sid req) (timerSelf env) (req_now req * 1000) m1 = Inr m2"
      "manager_ok (timerSelf env) m2" "accounts m2 = accounts m1"
      "sessions m2 = filter (\<lambda>s. sessionID s \<noteq> req_sid req) (sessions m1)"
    by (rule removeSession_ok)
  then have "sessions_good env accs lg m2" using g1 by (auto simp: sessions_good_def)
  then show ?thesis using assms(2) m1 m2(1) g1
    by (auto simp: logout_def bindW_def split: sum.splits option.splits)
qed

lemma handleUpdateIDs_good:
  "sessions_good env accs lg m \<Longrightarrow> handleUpdateIDs env req s m = (r, m') \<Longrightarrow> sessions_good env accs lg m'"
  by (auto simp: handleUpdateIDs_def getUIUpdateIDs_def split: if_splits intro!: on_session_same)

lemma session_changed_keeps [simp]:
  "sessionID (session_changed i s) = sessionID s" "dict (session_changed i s) = dict s"
  "loggedIn (session_changed i s) = loggedIn s"
  "sessionID (session_changed_list xs s) = sessionID s" "dict (session_changed_list xs s) = dict s"
  "loggedIn (session_changed_list xs s) = loggedIn s"
  by (simp_all add: session_changed_def session_changed_list_def)

lemma map_sessions_good:
  assumes "sessions_good env accs lg m" "\<And>s. sessionID (f s) = sessionID s" "\<And>s. dict (f s) = dict s" "\<And>s. loggedIn (f s) = loggedIn s"
  shows "sessions_good env accs lg (m\<lparr>sessions := map f (sessions m)\<rparr>)"
proof -
  have "map sessionID (map f (sessions m)) = map sessionID (sessions m)" using assms(2) by simp
  moreover have "session_known env lg (f s) = session_known env lg s" for s
    by (simp add: session_known_def session_get_def assms)
  moreover have "sessionID \<circ> f = sessionID" by (simp add: comp_def assms(2))
  ultimately show ?thesis using assms(1) by (auto simp: sessions_good_def manager_ok_def timer_linked_def)
qed

lemma containers_good:
  assumes "sessions_good env accs lg m"
  shows "sessions_good env accs lg (containerChangedUI i m)" "sessions_good env accs lg (containerChangedUI_list xs m)"
  unfolding containerChangedUI_def containerChangedUI_list_def by (rule map_sessions_good [OF assms]; simp)+

lemma timerNotify_good:
  assumes "sessions_good env accs lg m" "timerNotify (timerSelf env) clock m = Inr m'"
  shows "sessions_good env accs lg m'"
proof -
  have "m' = m\<lparr>sessions := filter (\<lambda>s. \<not> expired clock s) (sessions m)\<rparr>"
    using assms expire_loop_filter [of m "sessions m" "timerSelf env" clock "[]"]
    by (auto simp: timerNotify_def manager_ok_def sessions_good_def)
  moreover have "distinct (map sessionID (filter P (sessions m)))" for P
    using assms(1) by (auto simp: sessions_good_def manager_ok_def intro: distinct_map_filter)
  ultimately show ?thesis using assms(1)
    by (cases "sessions m = []") (auto simp: sessions_good_def manager_ok_def timer_linked_def)
qed

lemma updates_good:
  assumes "bindW f (\<lambda>(r, s). bindW (handleUpdateIDs env req s) (\<lambda>u m. (Inr (r, u), m))) m = (x, m')"
    and v: "login_valid env accs lg"
    and err: "\<And>e m1. f m = (Inl e, m1) \<Longrightarrow> sessions_good env accs lg m1"
    and ok: "\<And>r s m1 u. f m = (Inr (r, s), m1) \<Longrightarrow>
        sessions_good env accs (lg @ request_events req (Inr (r, u))) m1 \<and>
        login_valid env accs (lg @ request_events req (Inr (r, u)))"
  shows "sessions_good env accs (lg @ request_events req x) m' \<and> login_valid env accs (lg @ request_events req x)"
proof -
  consider (error) e where "f m = (Inl e, m')" "x = Inl e"
    | (reply) r s m1 u where "f m = (Inr (r, s), m1)" "handleUpdateIDs env req s m1 = (Inr u, m')" "x = Inr (r, u)"
    using assms(1) by (auto simp: bindW_eq handleUpdateIDs_def split: if_splits)
  then show ?thesis
  proof cases
    case error
    then show ?thesis using err v by simp
  next
    case reply
    then show ?thesis using ok [OF reply(1), of u] handleUpdateIDs_good by blast
  qed
qed

lemma getToken_reply: "getToken req m = (Inr (r, s), m') \<Longrightarrow> \<exists>t. r = Token_reply t"
  by (auto simp: getToken_def bindW_eq Let_def)

lemma getToken_error_good: "sessions_good env accs lg m \<Longrightarrow> getToken req m = (Inl e, m') \<Longrightarrow> sessions_good env accs lg m'"
  by (auto simp: getToken_def bindW_eq Let_def dest: checkRequest_good)

lemma getSid_reply: "getSid env req m = (Inr r, m') \<Longrightarrow> \<exists>sid v l. r = Sid_reply sid v l"
  by (auto simp: getSid_def Let_def split: if_splits option.splits sum.splits prod.splits)

lemma login_valid_issued: "login_valid env accs lg \<Longrightarrow> login_valid env accs (lg @ [Issued sid token t])"
  by (fastforce simp: login_valid_def)

lemma auth_process_good:
  assumes en: "accountsEnabled env" and g: "sessions_good env accs lg m" and v: "login_valid env accs lg"
    and p: "auth_process env req m = (r, m')"
  shows "sessions_good env accs (lg @ request_events req r) m' \<and> login_valid env accs (lg @ request_events req r)"
proof -
  let ?u = "\<lambda>(r, s). bindW (handleUpdateIDs env req s) (\<lambda>u m. (Inr (r, u), m))"
  consider (none) "m' = m" "r = Inr (No_reply, No_updates) \<and> req_action req \<noteq> ''login'' \<or> r = Inl Illegal_action"
    | (sid) "req_action req = ''get_sid''" "bindW (getSid env req) (\<lambda>r m. (Inr (r, No_updates), m)) m = (r, m')"
    | (logout) "req_action req = ''logout''" "bindW (logout env req) ?u m = (r, m')"
    | (token) "req_action req = ''get_token''" "bindW (getToken req) ?u m = (r, m')"
    | (login) "req_action req = ''login''" "bindW (login env req) ?u m = (r, m')"
    using p by (auto simp: auth_process_def Let_def split: if_splits)
  then show ?thesis
  proof cases
    case none
    then show ?thesis using g v by auto
  next
    case sid
    then obtain r1 where r1: "getSid env req m = (r1, m')" "r = (case r1 of Inl e \<Rightarrow> Inl e | Inr a \<Rightarrow> Inr (a, No_updates))"
      by (auto simp: bindW_eq)
    then have "request_events req r = []" using sid(1) getSid_reply by (fastforce split: sum.splits)
    then show ?thesis using v getSid_good [OF en g r1(1)] by simp
  next
    case logout
    show ?thesis using logout(2) v
      by (rule updates_good) (use logout_good [OF g, of req] logout(1) v in auto)
  next
    case token
    show ?thesis using token(2) v
    proof (rule updates_good)
      fix r s m1 u assume a: "getToken req m = (Inr (r, s), m1)"
      then obtain t where t: "r = Token_reply t" using getToken_reply by blast
      show "sessions_good env accs (lg @ request_events req (Inr (r, u))) m1 \<and>
          login_valid env accs (lg @ request_events req (Inr (r, u)))"
        using getToken_good [OF g a [unfolded t]] login_valid_issued [OF v] t by simp
    qed (rule getToken_error_good [OF g])
  next
    case login
    show ?thesis using login(2) v
    proof (rule updates_good)
      fix r s m1 u assume a: "login env req m = (Inr (r, s), m1)"
      show "sessions_good env accs (lg @ request_events req (Inr (r, u))) m1 \<and>
          login_valid env accs (lg @ request_events req (Inr (r, u)))"
        using login_good [OF g v a] login(1) by simp
    qed (rule login_error_good [OF g])
  qed
qed

section \<open>The invariant of the system\<close>

definition web_init :: "web_env \<Rightarrow> web_system \<Rightarrow> bool" where
  "web_init env w = (accountsEnabled env \<and> (\<exists>accs subs. w = web_start accs subs \<and> timers_distinct subs \<and>
     (timerSelf env, None) \<notin> timer_key ` set subs))"

definition web_inv :: "web_env \<Rightarrow> web_system \<Rightarrow> bool" where
  "web_inv env w = (accountsEnabled env \<and>
     sessions_good env (accounts (manager w)) (log w) (manager w) \<and> login_valid env (accounts (manager w)) (log w))"

abbreviation web_reachable :: "web_env \<Rightarrow> web_system \<Rightarrow> bool" where
  "web_reachable env \<equiv> reach (web_init env) (web_step env)"

lemma web_step_inv: "web_step env w w' \<Longrightarrow> web_inv env w \<Longrightarrow> web_inv env w'"
proof (induction rule: web_step.induct)
  case (auth_request req w r m')
  let ?accs = "accounts (manager w)"
  have "sessions_good env ?accs (log w @ request_events req r) m' \<and> login_valid env ?accs (log w @ request_events req r)"
    using auth_request by (intro auth_process_good) (auto simp: web_inv_def)
  moreover then have "accounts m' = ?accs" by (simp add: sessions_good_def)
  ultimately show ?case using auth_request.prems by (simp add: web_inv_def)
next
  case (page_request req w r m')
  then have "sessions_good env (accounts (manager w)) (log w) m'"
    by (auto simp: page_process_def bindW_eq web_inv_def intro: checkRequest_good handleUpdateIDs_good)
  moreover then have "accounts m' = accounts (manager w)" by (simp add: sessions_good_def)
  ultimately show ?case using page_request.prems by (simp add: web_inv_def)
next
  case (container_changed w i)
  then show ?case using containers_good(1) [of env "accounts (manager w)" "log w" "manager w" i]
    by (simp add: web_inv_def containerChangedUI_def)
next
  case (containers_changed w xs)
  then show ?case using containers_good(2) [of env "accounts (manager w)" "log w" "manager w" xs]
    by (simp add: web_inv_def containerChangedUI_list_def)
next
  case (timer_tick clock w m')
  then have "sessions_good env (accounts (manager w)) (log w) m'"
    by (auto simp: web_inv_def intro: timerNotify_good)
  moreover then have "accounts m' = accounts (manager w)" by (simp add: sessions_good_def)
  ultimately show ?case using timer_tick.prems by (simp add: web_inv_def)
qed

interpretation web: step_invariant "web_init env" "web_step env" "web_inv env" for env
proof
  show "web_init env w \<Longrightarrow> web_inv env w" for w
    by (auto simp: web_init_def web_inv_def web_start_def sessions_good_def manager_ok_def timer_linked_def login_valid_def)
  show "web_step env w w' \<Longrightarrow> web_inv env w \<Longrightarrow> web_inv env w'" for w w'
    by (rule web_step_inv)
qed

section \<open>A run\<close>

definition auth_run :: "web_env \<Rightarrow> web_request list \<Rightarrow> web_system \<Rightarrow> web_system" where
  "auth_run env = fold (\<lambda>req w. let (r, m') = auth_process env req (manager w)
     in w\<lparr>manager := m', log := log w @ request_events req r\<rparr>)"

lemma auth_run_reachable: "web_reachable env w \<Longrightarrow> web_reachable env (auth_run env reqs w)"
proof (induction reqs arbitrary: w)
  case (Cons req reqs)
  obtain r m' where a: "auth_process env req (manager w) = (r, m')" by fastforce
  have "web_reachable env (w\<lparr>manager := m', log := log w @ request_events req r\<rparr>)"
    using Cons.prems auth_request [where w = w, OF a] by (rule reach_step)
  then show ?case using Cons.IH a by (simp add: auth_run_def)
qed (simp add: auth_run_def)

definition sample_env :: web_env where
  "sample_env =
     \<lparr>env_md5 = id, timerSelf = 1, accountsEnabled = True, sessionTimeout = 3600, env_iter = id\<rparr>"

definition sample_request :: "string \<Rightarrow> string \<Rightarrow> string \<Rightarrow> web_request" where
  "sample_request a sid pw =
     \<lparr>req_action = a, req_sid = sid, req_username = ''u'', req_password = pw, req_updates = [],
      req_now = 100, req_ids = (\<lambda>k. ''S''), req_salt = ''x''\<rparr>"

definition sample_login :: web_system where
  "sample_login = auth_run sample_env
     [sample_request ''get_sid'' [] [], sample_request ''get_token'' ''S'' [], sample_request ''login'' ''S'' ''110_xp'']
     (web_start [(''u'', ''p'')] [])"

lemma sample_reachable: "web_reachable sample_env sample_login"
  unfolding sample_login_def
proof (rule auth_run_reachable, rule reach_init)
  have "accountsEnabled sample_env" by (simp add: sample_env_def)
  moreover have "timers_distinct []" "(timerSelf sample_env, None) \<notin> timer_key ` set []"
    by (simp_all add: timers_distinct_def)
  ultimately show "web_init sample_env (web_start [(''u'', ''p'')] [])"
    unfolding web_init_def by blast
qed

lemma sample_logged_in:
  "sessions (manager sample_login) \<noteq> [] \<and> loggedIn (hd (sessions (manager sample_login)))"
  by code_simp

text \<open>C2: With accounts enabled, whoever is logged in has answered a challenge: for every logged-in session there is
  a login with a known user and a non-empty password whose reply is the sum of a token the server issued for
  this very session, at most ten seconds before, and that password. No other request, no expiry and no
  reported change logs a session in.\<close>

theorem login_requires_password:
  assumes "web_reachable env w" "s \<in> set (sessions (manager w))" "loggedIn s"
  shows "\<exists>user enc t token t0.
    Login (sessionID s) user enc t \<in> set (log w) \<and> Issued (sessionID s) token t0 \<in> set (log w) \<and> t \<le> t0 + 10 \<and>
    getUserPassword user (manager w) \<noteq> [] \<and> enc = env_md5 env (token @ getUserPassword user (manager w))"
proof -
  have inv: "web_inv env w" using assms(1) by (rule web.reach_inv)
  then have "session_known env (log w) s" "accountsEnabled env"
    using assms(2) by (auto simp: web_inv_def sessions_good_def)
  then obtain user enc t where l: "Login (sessionID s) user enc t \<in> set (log w)"
    using assms(3) by (auto simp: session_known_def)
  then show ?thesis using inv unfolding web_inv_def login_valid_def getUserPassword_def loginTimeout_def by blast
qed

lemma login_requires_password_witness:
  "\<exists>s \<in> set (sessions (manager sample_login)). loggedIn s \<and> (\<exists>user enc t token t0.
    Login (sessionID s) user enc t \<in> set (log sample_login) \<and> Issued (sessionID s) token t0 \<in> set (log sample_login) \<and>
    t \<le> t0 + 10 \<and> getUserPassword user (manager sample_login) \<noteq> [] \<and>
    enc = env_md5 sample_env (token @ getUserPassword user (manager sample_login)))"
proof -
  let ?s = "hd (sessions (manager sample_login))"
  have s: "?s \<in> set (sessions (manager sample_login))" "loggedIn ?s" using sample_logged_in by auto
  show ?thesis using s login_requires_password [OF sample_reachable s] by blast
qed

lemma checkRequest_error: "checkRequest req b m = (Inl e, m') \<Longrightarrow> e \<noteq> Manager_error x"
  by (auto simp: checkRequest_def split: if_splits option.splits)

lemma checkToken_error: "checkToken f t tok pw enc = Inl e \<Longrightarrow> e = Bad_token_number"
  by (auto simp: checkToken_def Let_def split: if_splits option.splits)

text \<open>With the invariant of the manager the timer never throws.\<close>

lemma auth_process_manager_error:
  assumes ok: "manager_ok (timerSelf env) m" and p: "fst (auth_process env req m) = Inl (Manager_error e)"
  shows "\<exists>i. e = No_unique_id i"
proof -
  obtain m' where m': "auth_process env req m = (Inl (Manager_error e), m')" using p by (metis prod.collapse)
  have rem: "removeSession sid (timerSelf env) clock (on_session sid' (session_access t) m) \<noteq> Inl e'" for sid sid' clock t e'
  proof -
    have "manager_ok (timerSelf env) (on_session sid' (session_access t) m)"
      using ok by (auto simp: manager_ok_def timer_linked_def on_session_def update_first_ids session_access_def)
    then show ?thesis by (rule removeSession_ok [where sid = sid and clock = clock]) simp
  qed
  have create: "\<exists>i. e' = No_unique_id i" if "createSession ids (timerSelf env) c n t m = Inl e'" for ids c n t e'
    using createSession_result [OF ok, where ids = ids and clock = c and now = n and t = t] that by auto
  have out: "logout env req m \<noteq> (Inl (Manager_error e), m')"
    using rem by (auto simp: logout_def bindW_eq checkRequest_def split: if_splits option.splits sum.splits)
  have tok: "getToken req m \<noteq> (Inl (Manager_error e), m')"
    by (auto simp: getToken_def bindW_eq Let_def dest: checkRequest_error)
  have log: "login env req m \<noteq> (Inl (Manager_error e), m')"
    by (auto simp: login_def bindW_eq Let_def dest: checkRequest_error checkToken_error
        split: if_splits option.splits sum.splits bool.splits)
  have "getSid env req m = (Inl (Manager_error e), m')"
    using m' out tok log
    by (auto simp: auth_process_def Let_def bindW_eq handleUpdateIDs_def split: if_splits)
  then show ?thesis using create by (auto simp: getSid_def Let_def split: if_splits option.splits sum.splits)
qed



text \<open>The check in front of every page: no identifier, an unknown one and a session that is not logged in are the
  three errors, in this order; an error changes nothing, and a request that passes is on a logged-in
  session.\<close>

theorem page_process_errors:
  "case page_process env req m of
     (Inl e, m') \<Rightarrow> m' = m \<and>
       (if req_sid req = [] then e = No_session_id
        else case getSession (req_sid req) m of
          None \<Rightarrow> e = Invalid_session_id
        | Some s \<Rightarrow> \<not> loggedIn s \<and> e = Not_logged_in)
   | (Inr u, m') \<Rightarrow> req_sid req \<noteq> [] \<and> (\<exists>s. getSession (req_sid req) m = Some s \<and> loggedIn s)"
  by (auto simp: page_process_def bindW_def checkRequest_def handleUpdateIDs_def split: option.splits if_splits)

end
