(* ===== verification/Autoscan.thy ===== *)
theory Autoscan
  imports Flag_Words CDS_Objects
begin

text \<open>
  A watched directory (\<open>src/src/config/result/autoscan.h\<close>, \<open>autoscan.cc\<close>): its media types, the classes of
  content it takes, and the bookkeeping of modification times that says whether a scan of it is running.
  Times are seconds. A \<open>Timer::Parameter\<close> is an object of its own, named by a number.
\<close>

unbundle bit_operations_syntax

section \<open>Media types\<close>

datatype MediaType =
  MT_Any | MT_Audio | MT_Music | MT_AudioBook | MT_AudioBroadcast | MT_Image | MT_Photo | MT_Video | MT_Movie | MT_TV |
  MT_MusicVideo | MT_MAX

fun media_bit :: "MediaType \<Rightarrow> nat option" where
  "media_bit MT_Any = None"
| "media_bit MT_Audio = Some 0"
| "media_bit MT_Music = Some 1"
| "media_bit MT_AudioBook = Some 2"
| "media_bit MT_AudioBroadcast = Some 3"
| "media_bit MT_Image = Some 4"
| "media_bit MT_Photo = Some 5"
| "media_bit MT_Video = Some 6"
| "media_bit MT_Movie = Some 7"
| "media_bit MT_TV = Some 8"
| "media_bit MT_MusicVideo = Some 9"
| "media_bit MT_MAX = Some 10"

text \<open>The values \<open>MediaTypeIterator\<close> runs through.\<close>

definition MediaTypeIterator :: "MediaType list" where
  "MediaTypeIterator =
     [MT_Audio, MT_Music, MT_AudioBook, MT_AudioBroadcast, MT_Image, MT_Photo, MT_Video, MT_Movie, MT_TV, MT_MusicVideo]"

fun media_label :: "MediaType \<Rightarrow> string" where
  "media_label MT_Audio = ''Audio''"
| "media_label MT_Music = ''Music''"
| "media_label MT_AudioBook = ''AudioBook''"
| "media_label MT_AudioBroadcast = ''AudioBroadcast''"
| "media_label MT_Image = ''Image''"
| "media_label MT_Photo = ''Photo''"
| "media_label MT_Video = ''Video''"
| "media_label MT_Movie = ''Movie''"
| "media_label MT_TV = ''TV''"
| "media_label MT_MusicVideo = ''MusicVideo''"
| "media_label MT_Any = ''Any''"
| "media_label MT_MAX = ''MAX''"

text \<open>The table in the order of its keys, \<open>Any\<close> (\<open>-1\<close>) first and \<open>MAX\<close> last.\<close>

definition mediaTypes :: "(MediaType \<times> string) list" where
  "mediaTypes = map (\<lambda>t. (t, media_label t)) (MT_Any # MediaTypeIterator @ [MT_MAX])"

fun upnpClasses :: "MediaType \<Rightarrow> string" where
  "upnpClasses MT_Audio = ''object.item.audioItem''"
| "upnpClasses MT_Music = ''object.item.audioItem.musicTrack''"
| "upnpClasses MT_AudioBook = ''object.item.audioItem.audioBook''"
| "upnpClasses MT_AudioBroadcast = ''object.item.audioItem.audioBroadcast''"
| "upnpClasses MT_Image = ''object.item.imageItem''"
| "upnpClasses MT_Photo = ''object.item.imageItem.photo''"
| "upnpClasses MT_Video = ''object.item.videoItem''"
| "upnpClasses MT_Movie = ''object.item.videoItem.movie''"
| "upnpClasses MT_TV = ''object.item.videoItem.videoBroadcast''"
| "upnpClasses MT_MusicVideo = ''object.item.videoItem.musicVideoClip''"
| "upnpClasses MT_Any = ''object.item''"
| "upnpClasses MT_MAX = ''object.item''"

text \<open>\<open>1 << -1\<close>, evaluated for \<open>Any\<close>, is undefined; the word the build computes there is \<open>undef\<close>.\<close>

definition shift_media :: "32 word \<Rightarrow> MediaType \<Rightarrow> 32 word" where
  "shift_media undef t = (case media_bit t of None \<Rightarrow> undef | Some n \<Rightarrow> push_bit n 1)"

fun media_labels :: "32 word \<Rightarrow> (MediaType \<times> string) list \<Rightarrow> 32 word \<Rightarrow> string list \<times> 32 word" where
  "media_labels undef [] mt = ([], mt)"
| "media_labels undef ((mFlag, mLabel) # t) mt =
     (if mt AND shift_media undef mFlag \<noteq> 0
      then (let (ls, rest) = media_labels undef t (mt AND NOT (shift_media undef mFlag)) in (mLabel # ls, rest))
      else media_labels undef t mt)"

definition mapMediaType :: "32 word \<Rightarrow> 32 word \<Rightarrow> string" where
  "mapMediaType undef mt =
     (if sint mt < 0 then media_label MT_Any
      else let (ls, rest) = media_labels undef mediaTypes mt
           in join '' | '' (ls @ (if rest \<noteq> 0 then [format_hex (unat rest)] else [])))"

definition remapMediaType :: "string \<Rightarrow> 32 word" where
  "remapMediaType flag =
     (case find_lower (map (\<lambda>t. (t, media_label t)) MediaTypeIterator) flag of
        Some t \<Rightarrow> shift_media 0 t
      | None \<Rightarrow> if toLower (media_label MT_Any) = toLower flag then - 1 else word_of_int (stoiString0 flag 0))"

definition makeMediaType :: "string \<Rightarrow> 32 word" where
  "makeMediaType optValue =
     foldl (\<lambda>flg i. flg OR remapMediaType (trimString i)) 0 (splitString optValue (CHR ''|'') (CHR 0x00) False)"

lemma remap_media_labels: "\<forall>t \<in> set MediaTypeIterator. remapMediaType (media_label t) = shift_media undef t"
  by (simp add: MediaTypeIterator_def remapMediaType_def shift_media_def toLower_def tolower_def isupper_def)

lemma remap_media_hex:
  assumes "\<not> bit w 31"
  shows "remapMediaType (format_hex (unat w)) = w"
proof -
  obtain t where l: "toLower (format_hex (unat w)) = CHR ''0'' # t" using toLower_format_hex by blast
  moreover have "\<forall>e \<in> set (map (\<lambda>t. (t, media_label t)) MediaTypeIterator). hd (toLower (snd e)) \<noteq> CHR ''0''" by code_simp
  moreover have "hd (toLower (media_label MT_Any)) \<noteq> CHR ''0''" by code_simp
  ultimately have "find_lower (map (\<lambda>t. (t, media_label t)) MediaTypeIterator) (format_hex (unat w)) = None"
    "toLower (media_label MT_Any) \<noteq> toLower (format_hex (unat w))"
    unfolding find_lower_None by (metis list.sel(1))+
  then show ?thesis using stoiString0_format_hex [OF assms] by (simp add: remapMediaType_def)
qed

interpretation media_types: flag_words "shift_media undef" remapMediaType "media_labels undef" makeMediaType "\<lambda>w. \<not> bit w 31"
  for undef
  by unfold_locales (auto simp: makeMediaType_def remap_media_hex bit_simps)

lemma media_words: "\<forall>w \<in> snd ` set mediaTypes. flag_word w"
  by code_simp

text \<open>The printed media types are read back: a negative word as all types, any other to itself, as long as
  it has no bit of \<open>MAX\<close> and none of what \<open>1 << -1\<close> happens to be.\<close>

theorem media_types_roundtrip:
  assumes "mt AND undef = 0" and "\<not> bit mt 10"
  shows "makeMediaType (mapMediaType undef mt) = (if sint mt < 0 then - 1 else mt)"
proof -
  consider "sint mt < 0" | "mt = 0" | "\<not> sint mt < 0" "mt \<noteq> 0" by auto
  then show ?thesis
  proof cases
    case 1
    have "makeMediaType (join '' | '' [''Any'']) = foldl (\<lambda>flg l. flg OR remapMediaType l) 0 [''Any'']"
      by (rule media_types.make_join) (simp_all add: flag_word_def isspace_def)
    moreover have "remapMediaType ''Any'' = - 1" by code_simp
    ultimately show ?thesis using 1 by (simp add: mapMediaType_def)
  next
    case 2
    have "media_labels undef mediaTypes 0 = ([], 0)" by (simp add: mediaTypes_def MediaTypeIterator_def)
    moreover have "makeMediaType [] = 0" by code_simp
    ultimately show ?thesis using 2 by (simp add: mapMediaType_def)
  next
    case 3
    obtain ls rest where l: "media_labels undef mediaTypes mt = (ls, rest)" by (cases "media_labels undef mediaTypes mt")
    have "mt AND shift_media undef f = 0 \<or> (remapMediaType k = shift_media undef f \<and> (\<exists>n. shift_media undef f = push_bit n 1))"
      if "(f, k) \<in> set mediaTypes" for f k
    proof (cases "media_bit f")
      case None
      then show ?thesis using assms by (simp add: shift_media_def)
    next
      case (Some n)
      show ?thesis
      proof (cases "f = MT_MAX")
        case True
        then have "mt AND shift_media undef f = mt AND 2 ^ 10" by (simp add: shift_media_def)
        also have "\<dots> = 0" using assms(2) by (subst and_exp_eq_0_iff_not_bit)
        finally show ?thesis by simp
      next
        case False
        then have "f \<in> set MediaTypeIterator" "k = media_label f" using that Some by (auto simp: mediaTypes_def)
        then show ?thesis using remap_media_labels [of undef] Some by (auto simp: shift_media_def simp del: push_bit_of_1)
      qed
    qed
    moreover have "\<not> bit mt 31" using 3(1) bit_last_iff [of mt] by simp
    ultimately have "makeMediaType (join '' | '' (ls @ (if rest \<noteq> 0 then [format_hex (unat rest)] else []))) = mt"
      using media_types.print_read [OF _ l] 3(2) media_words by blast
    then show ?thesis using 3 l by (simp add: mapMediaType_def)
  qed
qed

lemma media_types_roundtrip_witness:
  "makeMediaType (mapMediaType 0x80000000 0x1285) = (if sint (0x1285 :: 32 word) < 0 then - 1 else 0x1285)"
  by (rule media_types_roundtrip) simp_all

text \<open>The label of the bit of \<open>MAX\<close> is not one the reader knows.\<close>

lemma media_max_lost: "mapMediaType 0 0x400 = ''MAX'' \<and> makeMediaType ''MAX'' = 0"
proof
  show "mapMediaType 0 0x400 = ''MAX''"
    by (simp add: mapMediaType_def mediaTypes_def MediaTypeIterator_def shift_media_def Let_def)
  have "makeMediaType (join '' | '' [''MAX'']) = foldl (\<lambda>flg l. flg OR remapMediaType l) 0 [''MAX'']"
    by (rule media_types.make_join) (simp_all add: flag_word_def isspace_def)
  moreover have "remapMediaType ''MAX'' = 0"
    by (simp add: remapMediaType_def MediaTypeIterator_def toLower_def tolower_def isupper_def stoiString0_def
        starts_number_def isdigit_def)
  ultimately show "makeMediaType ''MAX'' = 0" by simp
qed

end
