(* ===== verification/Grb_Fs.thy ===== *)
theory Grb_Fs
  imports Tools
begin

text \<open>
  Paths: the components \<open>std::filesystem\<close> compares, and the test for a directory below another
  (\<open>src/src/util/grb_fs.cc\<close>), which works on the strings.
\<close>

text \<open>The components of a POSIX path as \<open>std::filesystem\<close> iterates over them.\<close>

fun split_slash :: "string \<Rightarrow> string \<Rightarrow> string list" where
  "split_slash acc [] = [acc]"
| "split_slash acc (c # cs) = (if c = CHR ''/'' then acc # split_slash [] cs else split_slash (acc @ [c]) cs)"

definition path_components :: "string \<Rightarrow> string list" where
  "path_components p =
     (let names = filter (\<lambda>s. s \<noteq> []) (split_slash [] p)
      in (if p \<noteq> [] \<and> hd p = CHR ''/'' then [''/''] else []) @ names @
         (if names \<noteq> [] \<and> last p = CHR ''/'' then [[]] else []))"

text \<open>Trailing separators are erased, the first character never.\<close>

definition rtrimPath :: "string \<Rightarrow> string" where
  "rtrimPath s = (case s of [] \<Rightarrow> [] | c # cs \<Rightarrow> c # rev (dropWhile (\<lambda>x. x = CHR ''/'') (rev cs)))"

definition isSubDir :: "string \<Rightarrow> string \<Rightarrow> bool" where
  "isSubDir path parent =
     (let pathStr = rtrimPath path; chkStr = rtrimPath parent
      in if chkStr = pathStr then True else startswith pathStr (chkStr @ ''/''))"

section \<open>Directories below a directory\<close>

text \<open>The absolute path with the given names.\<close>

definition abs_path :: "string list \<Rightarrow> string" where
  "abs_path names = (if names = [] then ''/'' else concat (map (\<lambda>n. CHR ''/'' # n) names))"

definition file_name :: "string \<Rightarrow> bool" where
  "file_name n = (n \<noteq> [] \<and> CHR ''/'' \<notin> set n)"

lemma split_slash_name: "CHR ''/'' \<notin> set n \<Longrightarrow> split_slash acc (n @ s) = split_slash (acc @ n) s"
  by (induction n arbitrary: acc) auto

lemma split_abs_path:
  "\<forall>n \<in> set names. file_name n \<Longrightarrow> split_slash acc (concat (map (\<lambda>n. CHR ''/'' # n) names)) = acc # names"
proof (induction names arbitrary: acc)
  case (Cons n names)
  then show ?case by (simp add: split_slash_name file_name_def)
qed simp

lemma last_abs_path:
  assumes "\<forall>n \<in> set names. file_name n" and "names \<noteq> []"
  shows "last (abs_path names) \<noteq> CHR ''/''"
proof -
  obtain ns n where n: "names = ns @ [n]" using assms(2) by (metis rev_exhaust)
  then have "n \<noteq> []" "CHR ''/'' \<notin> set n" using assms(1) by (auto simp: file_name_def)
  then have "last n \<noteq> CHR ''/''" by (metis last_in_set)
  then show ?thesis using n \<open>n \<noteq> []\<close> by (simp add: abs_path_def)
qed

text \<open>The names of an absolute path are what \<open>std::filesystem\<close> sees of it after the root.\<close>

lemma components_abs_path:
  assumes "\<forall>n \<in> set names. file_name n"
  shows "path_components (abs_path names) = ''/'' # names"
proof (cases "names = []")
  case False
  obtain n ns where n: "names = n # ns" using False by (cases names) auto
  have "filter (\<lambda>s. s \<noteq> []) names = names" using assms by (auto simp: file_name_def filter_id_conv)
  then show ?thesis
    using split_abs_path [OF assms, of "[]"] last_abs_path [OF assms False] n
    by (simp add: path_components_def abs_path_def Let_def)
qed (simp add: path_components_def abs_path_def)

lemma rtrimPath_id: "last s \<noteq> CHR ''/'' \<Longrightarrow> rtrimPath s = s"
proof (cases s)
  case (Cons c cs)
  assume "last s \<noteq> CHR ''/''"
  then have "dropWhile (\<lambda>x. x = CHR ''/'') (rev cs) = rev cs" using Cons by (cases cs rule: rev_cases) auto
  then show ?thesis using Cons by (simp add: rtrimPath_def)
qed (simp add: rtrimPath_def)

lemma rtrimPath_abs_path: "\<forall>n \<in> set names. file_name n \<Longrightarrow> rtrimPath (abs_path names) = abs_path names"
  using rtrimPath_id last_abs_path by (cases "names = []") (auto simp: abs_path_def rtrimPath_def)

lemma split_slash_append: "split_slash acc (s @ CHR ''/'' # q) = split_slash acc s @ split_slash [] q"
  by (induction s arbitrary: acc) auto

lemma split_slash_nonempty [simp]: "split_slash acc s \<noteq> []"
  by (induction s arbitrary: acc) auto

lemma abs_path_inj:
  assumes "\<forall>n \<in> set xs. file_name n" and "\<forall>n \<in> set ys. file_name n"
  shows "abs_path xs = abs_path ys \<longleftrightarrow> xs = ys"
  by (metis assms components_abs_path list.inject)

text \<open>For absolute paths without empty names the test on strings agrees with comparing the names, whatever
  separators trail, except below the root: no directory but the root itself counts as below \<open>/\<close>.\<close>

theorem isSubDir_names:
  assumes xs: "\<forall>n \<in> set xs. file_name n" and ys: "\<forall>n \<in> set ys. file_name n"
  shows "isSubDir (abs_path xs) (abs_path ys) \<longleftrightarrow> xs = ys \<or> (ys \<noteq> [] \<and> (\<exists>zs. xs = ys @ zs))"
proof -
  have below: "startswith (abs_path xs) (abs_path ys @ ''/'') \<longleftrightarrow> (\<exists>zs. zs \<noteq> [] \<and> xs = ys @ zs)" if "ys \<noteq> []"
  proof
    assume "startswith (abs_path xs) (abs_path ys @ ''/'')"
    then obtain q where q: "abs_path xs = abs_path ys @ CHR ''/'' # q" by (auto simp: startswith_append)
    then have "xs \<noteq> []" using that by (auto simp: abs_path_def Cons_eq_append_conv)
    then have "[] # xs = [] # ys @ split_slash [] q"
      using arg_cong [OF q, of "split_slash []"] split_abs_path [OF xs, of "[]"] split_abs_path [OF ys, of "[]"] that
      by (simp add: split_slash_append abs_path_def)
    then show "\<exists>zs. zs \<noteq> [] \<and> xs = ys @ zs" by auto
  next
    assume "\<exists>zs. zs \<noteq> [] \<and> xs = ys @ zs"
    then obtain z zs where "xs = ys @ z # zs" by (metis neq_Nil_conv)
    then show "startswith (abs_path xs) (abs_path ys @ ''/'')" using that by (simp add: startswith_append abs_path_def)
  qed
  have root: "\<not> startswith (abs_path xs) (abs_path ys @ ''/'')" if root: "ys = []" "xs \<noteq> []"
  proof -
    obtain n c cs ns where n: "xs = n # ns" "n = c # cs" using root(2) xs by (cases xs) (auto simp: file_name_def neq_Nil_conv)
    then have "c \<noteq> CHR ''/''" using xs by (auto simp: file_name_def)
    then show ?thesis using n root(1) by (simp add: startswith_def abs_path_def)
  qed
  have "isSubDir (abs_path xs) (abs_path ys) \<longleftrightarrow> xs = ys \<or> startswith (abs_path xs) (abs_path ys @ ''/'')"
    using abs_path_inj [OF xs ys] by (auto simp: isSubDir_def rtrimPath_abs_path xs ys)
  then show ?thesis using below root by (cases "ys = []"; cases "xs = []") (auto simp: startswith_def abs_path_def)
qed

lemma isSubDir_names_witness:
  "isSubDir (abs_path [''m'', ''a'']) (abs_path [''m'']) \<and> \<not> isSubDir (abs_path [''ma'']) (abs_path [''m'']) \<and>
   \<not> isSubDir (abs_path [''m'']) (abs_path [])"
  using isSubDir_names [of "[''m'', ''a'']" "[''m'']"] isSubDir_names [of "[''ma'']" "[''m'']"]
    isSubDir_names [of "[''m'']" "[]"] by (simp add: file_name_def)

end
