(* ===== verification/Autoscan_Dir.thy ===== *)
theory Autoscan_Dir
  imports Autoscan Grb_Fs
begin

text \<open>
  \<open>AutoscanDirectory\<close> itself (\<open>src/src/config/result/autoscan.h\<close>, \<open>autoscan.cc\<close>): its members, the classes
  of content it takes, the names of its modes, and its copy. Paths are the strings of \<open>fs::path\<close>; the keys
  of a map of paths are their components, which is what \<open>fs::path\<close> compares. A \<open>Timer::Parameter\<close> and an
  import service are objects of their own, named by numbers.
\<close>

unbundle bit_operations_syntax

datatype AutoscanScanMode = Timed | INotify | Manual

datatype ImportMode = Mode_MediaTomb | Mode_Gerbera

datatype AutoscanMediaMode = Audio_mode | Image_mode | Video_mode | Mixed_mode

record AutoscanDirectory =
  isOrig :: bool
  ad_location :: string
  mode :: AutoscanScanMode
  layoutMode :: ImportMode
  recursive :: bool
  hidden :: bool
  forceRescan :: bool
  dirTypes :: bool
  followSymlinks :: bool
  persistentFlag :: bool
  interval :: int
  retryCount :: "32 word"
  taskCount :: int
  scanID :: int
  ad_objectID :: int
  databaseID :: int
  last_mod_previous_scan :: int
  last_mod_current_scan :: int
  timer_parameter :: nat
  lastModified :: "(string list, int) smap"
  activeScanCount :: "32 word"
  scanContent :: "(string, bool) smap"
  ad_mediaType :: "32 word"
  containerMap :: "AutoscanMediaMode \<rightharpoonup> string"
  containerLimits :: "ObjectType \<rightharpoonup> nat"
  importService :: "nat option"

definition INVALID_SCAN_ID :: int where
  "INVALID_SCAN_ID = - 1"

definition ContainerTypesDefaults :: "AutoscanMediaMode \<rightharpoonup> string" where
  "ContainerTypesDefaults =
     [Audio_mode \<mapsto> ''object.container.album.musicAlbum'', Image_mode \<mapsto> ''object.container.album.photoAlbum'',
      Video_mode \<mapsto> ''object.container'', Mixed_mode \<mapsto> ''object.container'']"

text \<open>The members as they are initialised, with the parameter object the construction allocates.\<close>

definition default_directory :: "nat \<Rightarrow> AutoscanDirectory" where
  "default_directory param =
     \<lparr>isOrig = False, ad_location = [], mode = Timed, layoutMode = Mode_MediaTomb, recursive = False,
      hidden = False, forceRescan = False, dirTypes = True, followSymlinks = False, persistentFlag = False,
      interval = 0, retryCount = 0, taskCount = 0, scanID = INVALID_SCAN_ID, ad_objectID = INVALID_OBJECT_ID,
      databaseID = INVALID_OBJECT_ID, last_mod_previous_scan = 0, last_mod_current_scan = 0,
      timer_parameter = param, lastModified = [], activeScanCount = 0,
      scanContent = [(UPNP_CLASS_AUDIO_ITEM, True), (UPNP_CLASS_IMAGE_ITEM, True), (UPNP_CLASS_VIDEO_ITEM, True)],
      ad_mediaType = - 1, containerMap = Map.empty, containerLimits = Map.empty, importService = None\<rparr>"

definition setMediaType :: "32 word \<Rightarrow> AutoscanDirectory \<Rightarrow> AutoscanDirectory" where
  "setMediaType mt d =
     (let flags = (if mt = - 1 then NOT 0 else mt)
      in d\<lparr>ad_mediaType := mt,
           scanContent := fold (\<lambda>mFlag m. smap_assign (upnpClasses mFlag) (flags AND shift_media 0 mFlag \<noteq> 0) m)
             MediaTypeIterator (scanContent d)\<rparr>)"

definition new_directory :: "nat \<Rightarrow> string \<Rightarrow> AutoscanScanMode \<Rightarrow> bool \<Rightarrow> bool \<Rightarrow> int \<Rightarrow> bool \<Rightarrow> bool \<Rightarrow> 32 word
    \<Rightarrow> (AutoscanMediaMode \<rightharpoonup> string) \<Rightarrow> AutoscanDirectory" where
  "new_directory param loc m recur persistent secs hide follow mt containers =
     setMediaType mt ((default_directory param)\<lparr>ad_location := loc, mode := m, recursive := recur, hidden := hide,
       followSymlinks := follow, persistentFlag := persistent, interval := secs, scanID := INVALID_SCAN_ID,
       containerMap := containers, containerLimits := [Audio \<mapsto> 3, Video \<mapsto> 3, Image \<mapsto> 3]\<rparr>)"

section \<open>The content a directory takes\<close>

fun content_scan :: "(string, bool) smap \<Rightarrow> string \<Rightarrow> bool \<Rightarrow> bool" where
  "content_scan [] cls result = result"
| "content_scan ((k, active) # m) cls result =
     (if k = cls then active
      else if startswith cls k then (if active then True else content_scan m cls False)
      else if startswith k cls then content_scan m cls False
      else content_scan m cls result)"

definition hasContent :: "AutoscanDirectory \<Rightarrow> string \<Rightarrow> bool" where
  "hasContent d cls = content_scan (scanContent d) cls True"

definition related :: "string \<Rightarrow> string \<Rightarrow> bool" where
  "related k cls = (startswith cls k \<or> startswith k cls)"

lemma proper_prefix_less: "startswith cls k \<Longrightarrow> k \<noteq> cls \<Longrightarrow> k < cls"
  unfolding startswith_append list_less_def
  by (metis append_self_conv lexord_append_rightI neq_Nil_conv)

lemma content_scan_spec:
  "smap_ok m \<Longrightarrow> content_scan m cls result \<longleftrightarrow>
     (\<exists>k. (k, True) \<in> set m \<and> startswith cls k) \<or> (result \<and> (\<forall>k \<in> fst ` set m. \<not> related k cls))"
proof (induction m arbitrary: result)
  case (Cons e m)
  obtain k active where e: "e = (k, active)" by (cases e)
  have ok: "smap_ok m" and above: "\<forall>j \<in> fst ` set m. k < j" using Cons.prems e by (auto simp: smap_ok_Cons)
  show ?case
  proof (cases "k = cls")
    case True
    have "\<not> startswith cls j" if "j \<in> fst ` set m" for j
    proof
      assume "startswith cls j"
      moreover have "cls < j" using True above that by blast
      ultimately show False using proper_prefix_less by (metis less_asym less_irrefl)
    qed
    then have "\<not> (\<exists>j. (j, True) \<in> set m \<and> startswith cls j)" by (metis fst_conv image_eqI)
    then show ?thesis using e True by (auto simp: related_def startswith_def)
  next
    case False
    then show ?thesis using Cons.IH [OF ok] e by (auto simp: related_def)
  qed
qed simp

text \<open>The map after the media types are set, when its keys are classes of media types.\<close>

lemma content_fill:
  assumes "smap_ok m"
  shows "smap_ok (fold (\<lambda>t m. smap_assign (upnpClasses t) (f t) m) ts m)"
    and "fst ` set (fold (\<lambda>t m. smap_assign (upnpClasses t) (f t) m) ts m) = upnpClasses ` set ts \<union> fst ` set m"
  using assms by (induction ts arbitrary: m) (auto simp: smap_assign_ok keys_assign)

lemma content_fill_lookup:
  assumes "smap_ok m" and "inj_on upnpClasses (set ts)" and "distinct ts" and "t \<in> set ts"
  shows "map_of (fold (\<lambda>t m. smap_assign (upnpClasses t) (f t) m) ts m) (upnpClasses t) = Some (f t)"
  using assms
proof (induction ts arbitrary: m)
  case (Cons u ts)
  show ?case
  proof (cases "t \<in> set ts")
    case True
    then show ?thesis using Cons by (simp add: smap_assign_ok)
  next
    case False
    then have t: "t = u" using Cons.prems by simp
    have keep: "map_of (fold (\<lambda>t m. smap_assign (upnpClasses t) (f t) m) us n) k = map_of n k"
      if "smap_ok n" "k \<notin> upnpClasses ` set us" for us n k
      using that by (induction us arbitrary: n) (auto simp: smap_assign_ok lookup_assign)
    have "upnpClasses u \<notin> upnpClasses ` set ts" using Cons.prems False t by (auto simp: inj_on_def)
    then show ?thesis using keep [of _ "upnpClasses u" ts] Cons.prems t by (simp add: smap_assign_ok)
  qed
qed simp

lemma media_classes_inj: "inj_on upnpClasses (set MediaTypeIterator) \<and> distinct MediaTypeIterator"
proof -
  have "distinct (map upnpClasses MediaTypeIterator)" by code_simp
  then show ?thesis by (simp add: distinct_map)
qed

lemma shift_media_bit: "w AND shift_media 0 t \<noteq> 0 \<longleftrightarrow> (\<exists>n. media_bit t = Some n \<and> bit w n)"
  by (auto simp: shift_media_def and_exp_eq_0_iff_not_bit split: option.splits)

definition media_bit_set :: "32 word \<Rightarrow> MediaType \<Rightarrow> bool" where
  "media_bit_set mt t = (case media_bit t of Some n \<Rightarrow> bit mt n | None \<Rightarrow> False)"

text \<open>With its media types set, a directory takes exactly the content of a class below the class of a chosen
  type, and any content that no media type is related to; the sequential search through the table with its
  early exits decides this for every class and every word of types.\<close>

theorem hasContent_media_types:
  assumes "smap_ok (scanContent d)" and "fst ` set (scanContent d) \<subseteq> upnpClasses ` set MediaTypeIterator"
  shows "hasContent (setMediaType mt d) cls \<longleftrightarrow>
     (\<exists>t \<in> set MediaTypeIterator. media_bit_set mt t \<and> startswith cls (upnpClasses t)) \<or>
     (\<forall>t \<in> set MediaTypeIterator. \<not> related (upnpClasses t) cls)"
proof -
  let ?f = "\<lambda>t. (if mt = - 1 then NOT 0 else mt) AND shift_media 0 t \<noteq> 0"
  let ?m = "fold (\<lambda>t m. smap_assign (upnpClasses t) (?f t) m) MediaTypeIterator (scanContent d)"
  have ok: "smap_ok ?m" and keys: "fst ` set ?m = upnpClasses ` set MediaTypeIterator"
    using content_fill [OF assms(1), of ?f MediaTypeIterator] assms(2) by auto
  have set_bit: "?f t = media_bit_set mt t" for t
    unfolding shift_media_bit by (auto simp: media_bit_set_def split: option.splits)
  have look: "map_of ?m (upnpClasses t) = Some (media_bit_set mt t)" if "t \<in> set MediaTypeIterator" for t
    using content_fill_lookup [OF assms(1) conjunct1 [OF media_classes_inj] conjunct2 [OF media_classes_inj] that, of ?f]
    unfolding set_bit .
  have d: "distinct (map fst ?m)" using ok by (simp add: smap_ok_def strict_sorted_iff)
  have entries: "(k, True) \<in> set ?m \<longleftrightarrow> (\<exists>t \<in> set MediaTypeIterator. k = upnpClasses t \<and> media_bit_set mt t)" for k
  proof
    assume k: "(k, True) \<in> set ?m"
    then have "k \<in> fst ` set ?m" by (rule image_eqI [rotated]) simp
    then obtain t where t: "t \<in> set MediaTypeIterator" "k = upnpClasses t" unfolding keys by (rule imageE)
    have "map_of ?m k = Some True" using map_of_is_SomeI [OF d k] .
    then show "\<exists>t \<in> set MediaTypeIterator. k = upnpClasses t \<and> media_bit_set mt t"
      using look [OF t(1)] t by auto
  next
    assume "\<exists>t \<in> set MediaTypeIterator. k = upnpClasses t \<and> media_bit_set mt t"
    then obtain t where t: "t \<in> set MediaTypeIterator" "k = upnpClasses t" "media_bit_set mt t" by (elim bexE conjE)
    then have "map_of ?m k = Some True" using look [OF t(1)] by simp
    then show "(k, True) \<in> set ?m" by (rule map_of_SomeD)
  qed
  then have "(\<exists>k. (k, True) \<in> set ?m \<and> startswith cls k) \<longleftrightarrow>
      (\<exists>t \<in> set MediaTypeIterator. media_bit_set mt t \<and> startswith cls (upnpClasses t))" by auto
  moreover have "hasContent (setMediaType mt d) cls = content_scan ?m cls True"
    by (simp add: hasContent_def setMediaType_def)
  ultimately show ?thesis using content_scan_spec [OF ok] keys by simp
qed

lemma hasContent_media_types_witness:
  "hasContent (setMediaType 0x11 (default_directory 0)) ''object.item.audioItem.musicTrack'' \<and>
   \<not> hasContent (setMediaType 0x11 (default_directory 0)) ''object.item.videoItem.movie''"
proof -
  let ?d = "default_directory 0"
  have d: "smap_ok (scanContent ?d)" "fst ` set (scanContent ?d) \<subseteq> upnpClasses ` set MediaTypeIterator"
    by code_simp+
  have "media_bit_set 0x11 MT_Audio \<and> startswith ''object.item.audioItem.musicTrack'' (upnpClasses MT_Audio) \<and>
      MT_Audio \<in> set MediaTypeIterator" by code_simp
  moreover have "\<forall>t \<in> set MediaTypeIterator. \<not> (media_bit_set 0x11 t \<and> startswith ''object.item.videoItem.movie'' (upnpClasses t))"
    by code_simp
  moreover have "MT_Video \<in> set MediaTypeIterator \<and> related (upnpClasses MT_Video) ''object.item.videoItem.movie''"
    by code_simp
  ultimately show ?thesis
    using hasContent_media_types [OF d, of "0x11" "''object.item.audioItem.musicTrack''"]
      hasContent_media_types [OF d, of "0x11" "''object.item.videoItem.movie''"] by blast
qed

section \<open>Names of the modes\<close>

datatype autoscan_error = Illegal_scanmode | Illegal_importMode

definition scanModeMap :: "bool \<Rightarrow> (string \<times> AutoscanScanMode) list" where
  "scanModeMap have_inotify =
     (if have_inotify then [(''inotify'', INotify)] else []) @ [(''manual'', Manual), (''timed'', Timed)]"

definition mapScanmode :: "bool \<Rightarrow> AutoscanScanMode \<Rightarrow> autoscan_error + string" where
  "mapScanmode have_inotify m =
     (case find (\<lambda>e. snd e = m) (scanModeMap have_inotify) of Some e \<Rightarrow> Inr (fst e) | None \<Rightarrow> Inl Illegal_scanmode)"

definition remapScanmode :: "bool \<Rightarrow> string \<Rightarrow> autoscan_error + AutoscanScanMode" where
  "remapScanmode have_inotify name =
     (case map_of (scanModeMap have_inotify) name of Some m \<Rightarrow> Inr m | None \<Rightarrow> Inl Illegal_scanmode)"

definition importModes :: "(string \<times> ImportMode) list" where
  "importModes =
     [(''mt'', Mode_MediaTomb), (''grb'', Mode_Gerbera), (''mediatomb'', Mode_MediaTomb), (''gerbera'', Mode_Gerbera)]"

definition mapImportMode :: "ImportMode \<Rightarrow> autoscan_error + string" where
  "mapImportMode m = (case find (\<lambda>e. snd e = m) importModes of Some e \<Rightarrow> Inr (fst e) | None \<Rightarrow> Inl Illegal_importMode)"

definition remapImportMode :: "string \<Rightarrow> autoscan_error + ImportMode" where
  "remapImportMode name = (case find (\<lambda>e. fst e = name) importModes of Some e \<Rightarrow> Inr (snd e) | None \<Rightarrow> Inl Illegal_importMode)"

lemma modes_roundtrip:
  "bindE (mapScanmode have_inotify m) (remapScanmode have_inotify) =
     (if m = INotify \<and> \<not> have_inotify then Inl Illegal_scanmode else Inr m) \<and>
   bindE (mapImportMode im) remapImportMode = Inr im"
  by (cases m; cases im) (simp_all add: mapScanmode_def remapScanmode_def scanModeMap_def mapImportMode_def
      remapImportMode_def importModes_def)

end
