(* ===== verification/Autoscan_Scan.thy ===== *)
theory Autoscan_Scan
  imports Autoscan_Dir
begin

text \<open>
  The bookkeeping of scans in a watched directory (\<open>src/src/config/result/autoscan.cc\<close>): a location whose
  modification time is set to zero is being scanned, a later time ends that. \<open>activeScanCount\<close> is to count
  them, and \<open>updateLMT\<close> takes the newest time over once none is left.
\<close>

text \<open>\<open>now\<close> is what \<open>currentTime\<close> reads.\<close>

definition setCurrentLMT :: "int \<Rightarrow> string \<Rightarrow> int \<Rightarrow> AutoscanDirectory \<Rightarrow> AutoscanDirectory" where
  "setCurrentLMT current loc lmt0 d =
     (let lmt = (if lmt0 > current then current else lmt0);
          found = map_of (lastModified d) (path_components loc);
          firstScan = (loc \<noteq> [] \<and> (case found of None \<Rightarrow> True | Some v \<Rightarrow> v > 0));
          activeScan = (loc \<noteq> [] \<and> (case found of None \<Rightarrow> True | Some v \<Rightarrow> v = 0));
          d1 = (if loc = [] then d else d\<lparr>lastModified := smap_assign (path_components loc) lmt (lastModified d)\<rparr>)
      in if lmt = 0 then (if firstScan then d1\<lparr>activeScanCount := activeScanCount d1 + 1\<rparr> else d1)
         else (let d2 = (if activeScan \<and> activeScanCount d1 > 0 then d1\<lparr>activeScanCount := activeScanCount d1 - 1\<rparr> else d1)
               in if lmt > last_mod_current_scan d2 then d2\<lparr>last_mod_current_scan := lmt\<rparr> else d2))"

definition updateLMT :: "AutoscanDirectory \<Rightarrow> bool \<times> AutoscanDirectory" where
  "updateLMT d =
     (if taskCount d \<le> 0 \<and> activeScanCount d = 0
      then (last_mod_previous_scan d < last_mod_current_scan d, d\<lparr>last_mod_previous_scan := last_mod_current_scan d\<rparr>)
      else (False, d))"

definition resetLMT :: "AutoscanDirectory \<Rightarrow> AutoscanDirectory" where
  "resetLMT d = d\<lparr>lastModified := [], last_mod_previous_scan := 0, last_mod_current_scan := 0\<rparr>"

text \<open>The modification time of the parent container, when there is one, comes between the two.\<close>

definition getPreviousLMT :: "string \<Rightarrow> int option \<Rightarrow> AutoscanDirectory \<Rightarrow> int" where
  "getPreviousLMT loc parent_mtime d =
     (case map_of (lastModified d) (path_components loc) of
        Some v \<Rightarrow> if loc \<noteq> [] \<and> v > 0 then v
          else (case parent_mtime of Some t \<Rightarrow> if t > 0 then t else last_mod_previous_scan d | None \<Rightarrow> last_mod_previous_scan d)
      | None \<Rightarrow> (case parent_mtime of Some t \<Rightarrow> if t > 0 then t else last_mod_previous_scan d | None \<Rightarrow> last_mod_previous_scan d))"

definition incTaskCount :: "AutoscanDirectory \<Rightarrow> AutoscanDirectory" where
  "incTaskCount d = d\<lparr>taskCount := taskCount d + 1\<rparr>"

definition decTaskCount :: "AutoscanDirectory \<Rightarrow> AutoscanDirectory" where
  "decTaskCount d = d\<lparr>taskCount := taskCount d - 1\<rparr>"

section \<open>Runs of operations\<close>

datatype scan_op = Set_LMT int string int | Update_LMT | Inc_task | Dec_task

fun scan_step :: "scan_op \<Rightarrow> AutoscanDirectory \<Rightarrow> AutoscanDirectory" where
  "scan_step (Set_LMT current loc lmt) d = setCurrentLMT current loc lmt d"
| "scan_step Update_LMT d = snd (updateLMT d)"
| "scan_step Inc_task d = incTaskCount d"
| "scan_step Dec_task d = decTaskCount d"

definition running :: "AutoscanDirectory \<Rightarrow> string list set" where
  "running d = {l. map_of (lastModified d) l = Some 0}"

lemma finite_running [simp]: "finite (running d)"
  by (rule finite_subset [of _ "dom (map_of (lastModified d))"]) (auto simp: running_def finite_dom_map_of)

lemma lastModified_setCurrentLMT:
  "lastModified (setCurrentLMT current loc lmt d) =
     (if loc = [] then lastModified d
      else smap_assign (path_components loc) (min lmt current) (lastModified d))"
  by (simp add: setCurrentLMT_def Let_def if_distrib [where f = lastModified] min_def)

lemma map_of_setCurrentLMT:
  "smap_ok (lastModified d) \<Longrightarrow> map_of (lastModified (setCurrentLMT current loc lmt d)) l =
     (if loc \<noteq> [] \<and> l = path_components loc then Some (min lmt current) else map_of (lastModified d) l)"
  by (simp add: lastModified_setCurrentLMT lookup_assign)

lemma running_setCurrentLMT:
  assumes "smap_ok (lastModified d)"
  shows "running (setCurrentLMT current loc lmt d) =
     (if loc = [] then running d
      else if min lmt current = 0 then insert (path_components loc) (running d)
      else running d - {path_components loc})"
  using assms by (auto simp: running_def map_of_setCurrentLMT)

lemma setCurrentLMT_ok: "smap_ok (lastModified d) \<Longrightarrow> smap_ok (lastModified (setCurrentLMT current loc lmt d))"
  by (simp add: lastModified_setCurrentLMT smap_assign_ok)

lemma scan_step_ok: "smap_ok (lastModified d) \<Longrightarrow> smap_ok (lastModified (scan_step x d))"
  by (cases x) (auto simp: setCurrentLMT_ok updateLMT_def incTaskCount_def decTaskCount_def)

text \<open>The count of a step on a location: one more for a location that was not being scanned, one less for one
  that was, or was never seen.\<close>

lemma count_setCurrentLMT:
  "activeScanCount (setCurrentLMT current loc lmt d) =
     (let found = map_of (lastModified d) (path_components loc) in
      if loc = [] then activeScanCount d
      else if min lmt current = 0 then
        (if found = None \<or> (\<exists>v. found = Some v \<and> v > 0) then activeScanCount d + 1 else activeScanCount d)
      else if (found = None \<or> found = Some 0) \<and> activeScanCount d > 0 then activeScanCount d - 1
      else activeScanCount d)"
  by (cases "map_of (lastModified d) (path_components loc)"; cases "loc = []")
    (simp_all add: setCurrentLMT_def Let_def if_distrib [where f = activeScanCount] min_def)

lemma scan_step_other: "(\<forall>c l t. x \<noteq> Set_LMT c l t) \<Longrightarrow>
   running (scan_step x d) = running d \<and> activeScanCount (scan_step x d) = activeScanCount d \<and>
   lastModified (scan_step x d) = lastModified d"
  by (cases x) (auto simp: running_def updateLMT_def incTaskCount_def decTaskCount_def)

lemma unat_inc_le: "unat (w + 1 :: 32 word) \<le> unat w + 1"
  by (simp add: unat_word_ariths)

lemma unat_dec: "w > 0 \<Longrightarrow> unat (w - 1 :: 32 word) = unat w - 1"
  by (simp add: unat_minus_one word_gt_0)

definition count_bounded :: "AutoscanDirectory \<Rightarrow> bool" where
  "count_bounded d = (smap_ok (lastModified d) \<and> unat (activeScanCount d) \<le> card (running d))"

lemma count_bounded_set:
  assumes "count_bounded d"
  shows "count_bounded (setCurrentLMT current loc lmt d)"
proof -
  let ?k = "path_components loc" and ?n = "activeScanCount d"
  have ok: "smap_ok (lastModified d)" and n: "unat ?n \<le> card (running d)" using assms by (auto simp: count_bounded_def)
  have "unat (activeScanCount (setCurrentLMT current loc lmt d)) \<le> card (running (setCurrentLMT current loc lmt d))"
  proof (cases "loc = []")
    case True
    then show ?thesis using n by (simp add: count_setCurrentLMT running_setCurrentLMT [OF ok])
  next
    case loc: False
    show ?thesis
    proof (cases "min lmt current = 0")
      case True
      then have r: "running (setCurrentLMT current loc lmt d) = insert ?k (running d)"
        using loc by (simp add: running_setCurrentLMT [OF ok])
      show ?thesis
      proof (cases "map_of (lastModified d) ?k = None \<or> (\<exists>v. map_of (lastModified d) ?k = Some v \<and> v > 0)")
        case new: True
        then have "?k \<notin> running d" by (auto simp: running_def)
        then show ?thesis using new r True loc n unat_inc_le [of ?n] by (simp add: count_setCurrentLMT)
      next
        case False
        then have "activeScanCount (setCurrentLMT current loc lmt d) = ?n"
          using True loc by (simp add: count_setCurrentLMT Let_def)
        then show ?thesis using r n by (simp add: card_insert_if)
      qed
    next
      case False
      then have r: "running (setCurrentLMT current loc lmt d) = running d - {?k}"
        using loc by (simp add: running_setCurrentLMT [OF ok])
      show ?thesis
      proof (cases "?k \<in> running d")
        case True
        then have "map_of (lastModified d) ?k = Some 0" by (simp add: running_def)
        then have c: "activeScanCount (setCurrentLMT current loc lmt d) = (if ?n > 0 then ?n - 1 else ?n)"
          using False loc by (simp add: count_setCurrentLMT)
        have "unat (if ?n > 0 then ?n - 1 else ?n) \<le> unat ?n - 1" by (auto simp: unat_dec word_gt_0)
        then show ?thesis using c r True n by (simp add: card_Diff_singleton)
      next
        case False
        have "unat (activeScanCount (setCurrentLMT current loc lmt d)) \<le> unat ?n"
          using \<open>min lmt current \<noteq> 0\<close> loc by (simp add: count_setCurrentLMT Let_def unat_dec)
        then show ?thesis using r False n by simp
      qed
    qed
  qed
  then show ?thesis using setCurrentLMT_ok [OF ok] by (simp add: count_bounded_def)
qed

text \<open>Where every location that a scan ends is one that was seen before, the count is exact.\<close>

fun proper_op :: "scan_op \<Rightarrow> AutoscanDirectory \<Rightarrow> bool" where
  "proper_op (Set_LMT current loc lmt) d =
     (current > 0 \<and> lmt \<ge> 0 \<and> (lmt \<noteq> 0 \<longrightarrow> map_of (lastModified d) (path_components loc) \<noteq> None))"
| "proper_op x d = True"

fun proper_run :: "scan_op list \<Rightarrow> AutoscanDirectory \<Rightarrow> bool" where
  "proper_run [] d = True"
| "proper_run (x # xs) d = (proper_op x d \<and> proper_run xs (scan_step x d))"

definition count_exact :: "AutoscanDirectory \<Rightarrow> bool" where
  "count_exact d =
     (smap_ok (lastModified d) \<and> (\<forall>l v. map_of (lastModified d) l = Some v \<longrightarrow> v \<ge> 0) \<and>
      unat (activeScanCount d) = card (running d))"

lemma count_exact_step:
  assumes "count_exact d" and "proper_op x d" and "card (running d) + 1 < 2 ^ 32"
  shows "count_exact (scan_step x d) \<and> card (running (scan_step x d)) \<le> card (running d) + 1"
proof (cases x)
  case (Set_LMT current loc lmt)
  let ?k = "path_components loc" and ?n = "activeScanCount d"
  have ok: "smap_ok (lastModified d)" and n: "unat ?n = card (running d)"
    and pos: "\<forall>l v. map_of (lastModified d) l = Some v \<longrightarrow> v \<ge> 0" using assms(1) by (auto simp: count_exact_def)
  have p: "current > 0" "lmt \<ge> 0" "lmt \<noteq> 0 \<Longrightarrow> map_of (lastModified d) ?k \<noteq> None" using assms(2) Set_LMT by auto
  have z: "min lmt current = 0 \<longleftrightarrow> lmt = 0" using p by auto
  have "\<forall>l v. map_of (lastModified (scan_step x d)) l = Some v \<longrightarrow> v \<ge> 0"
    using pos p by (auto simp: Set_LMT map_of_setCurrentLMT [OF ok])
  moreover have "unat (activeScanCount (scan_step x d)) = card (running (scan_step x d)) \<and>
      card (running (scan_step x d)) \<le> card (running d) + 1"
  proof (cases "loc = [] \<or> (lmt = 0 \<and> ?k \<in> running d) \<or> (lmt \<noteq> 0 \<and> ?k \<notin> running d)")
    case True
    then have "running (scan_step x d) = running d"
      using z by (auto simp: Set_LMT running_setCurrentLMT [OF ok])
    moreover have "activeScanCount (scan_step x d) = ?n"
      using True z p(3) by (auto simp: Set_LMT count_setCurrentLMT Let_def running_def)
    ultimately show ?thesis using n by simp
  next
    case False
    then have loc: "loc \<noteq> []" by simp
    show ?thesis
    proof (cases "lmt = 0")
      case True
      then have k: "?k \<notin> running d" using False by simp
      then have "map_of (lastModified d) ?k = None \<or> (\<exists>v. map_of (lastModified d) ?k = Some v \<and> v > 0)"
        using pos by (cases "map_of (lastModified d) ?k") (auto simp: running_def order_less_le)
      then have "activeScanCount (scan_step x d) = ?n + 1" using True z loc by (simp add: Set_LMT count_setCurrentLMT)
      moreover have "unat (?n + 1) = unat ?n + 1" using n assms(3) by (simp add: unat_word_ariths)
      moreover have "running (scan_step x d) = insert ?k (running d)"
        using True z loc by (simp add: Set_LMT running_setCurrentLMT [OF ok])
      ultimately show ?thesis using k n by simp
    next
      case lmt: False
      then have k: "?k \<in> running d" using False by simp
      then have "?n > 0" using n by (auto simp: word_gt_0 card_gt_0_iff)
      moreover have "activeScanCount (scan_step x d) = ?n - 1"
        using k z loc lmt \<open>?n > 0\<close> by (simp add: Set_LMT count_setCurrentLMT running_def)
      moreover have "running (scan_step x d) = running d - {?k}"
        using lmt z loc by (simp add: Set_LMT running_setCurrentLMT [OF ok])
      ultimately show ?thesis using k n by (simp add: unat_dec card_Diff_singleton)
    qed
  qed
  ultimately show ?thesis using scan_step_ok [OF ok, of x] by (simp add: count_exact_def)
qed (use assms(1) scan_step_other [of x d] in \<open>auto simp: count_exact_def\<close>)

lemma count_exact_run:
  "count_exact d \<Longrightarrow> proper_run xs d \<Longrightarrow> card (running d) + length xs < 2 ^ 32 \<Longrightarrow>
   count_exact (fold scan_step xs d)"
proof (induction xs arbitrary: d)
  case (Cons x xs)
  then have "count_exact (scan_step x d) \<and> card (running (scan_step x d)) \<le> card (running d) + 1"
    by (intro count_exact_step) auto
  then show ?case using Cons by simp
qed simp

lemma count_bounded_run: "count_bounded d \<Longrightarrow> count_bounded (fold scan_step xs d)"
proof (induction xs arbitrary: d)
  case (Cons x xs)
  have "count_bounded (scan_step x d)"
    using Cons.prems count_bounded_set scan_step_other [of x d]
    by (cases x) (auto simp: count_bounded_def)
  then show ?case using Cons.IH by simp
qed simp

lemma default_counts: "count_bounded (default_directory p) \<and> count_exact (default_directory p) \<and> running (default_directory p) = {}"
  by (simp add: count_bounded_def count_exact_def default_directory_def running_def smap_ok_def)

definition scanned :: "nat \<Rightarrow> scan_op list \<Rightarrow> AutoscanDirectory" where
  "scanned p ops = fold scan_step ops (default_directory p)"

text \<open>C37: Over every run of scans a directory counts at most as many active scans as locations are being
  scanned; where scans end only at locations seen before, it counts them exactly, so the newest time is taken
  over only when no scan is running.\<close>

theorem scans_counted:
  "unat (activeScanCount (scanned p ops)) \<le> card (running (scanned p ops)) \<and>
    (proper_run ops (default_directory p) \<and> length ops < 2 ^ 32 \<longrightarrow>
       unat (activeScanCount (scanned p ops)) = card (running (scanned p ops)) \<and>
       (fst (updateLMT (scanned p ops)) \<longrightarrow> running (scanned p ops) = {}))"
proof (intro conjI impI)
  show "unat (activeScanCount (scanned p ops)) \<le> card (running (scanned p ops))"
    using count_bounded_run [OF conjunct1 [OF default_counts], of ops] by (simp add: scanned_def count_bounded_def)
  assume a: "proper_run ops (default_directory p) \<and> length ops < 2 ^ 32"
  then show e: "unat (activeScanCount (scanned p ops)) = card (running (scanned p ops))"
    using count_exact_run [of "default_directory p" ops] default_counts [of p] by (simp add: scanned_def count_exact_def)
  assume "fst (updateLMT (scanned p ops))"
  then have "activeScanCount (scanned p ops) = 0" by (simp add: updateLMT_def split: if_splits)
  then show "running (scanned p ops) = {}" using e by simp
qed

lemma scans_counted_witness:
  "unat (activeScanCount (fold scan_step
      [Set_LMT 100 ''/a'' 0, Set_LMT 100 ''/a/b'' 0, Set_LMT 100 ''/a'' 50] (default_directory 0))) = 1"
proof -
  let ?ops = "[Set_LMT 100 ''/a'' 0, Set_LMT 100 ''/a/b'' 0, Set_LMT 100 ''/a'' 50]"
  have "proper_run ?ops (default_directory 0)" by code_simp
  moreover have "lastModified (fold scan_step ?ops (default_directory 0)) =
      [([''/'', ''a''], 50), ([''/'', ''a'', ''b''], 0)]" by code_simp
  then have "running (fold scan_step ?ops (default_directory 0)) = {[''/'', ''a'', ''b'']}"
    by (auto simp: running_def)
  ultimately show ?thesis using scans_counted [of 0 ?ops] by (simp add: scanned_def)
qed

text \<open>A location that was never seen ends the scan of another one: its time is later than zero, so a count is
  taken off although no scan of it was counted. The directory then looks finished while \<open>/a\<close> is being scanned.\<close>

theorem scan_ended_by_another:
  "let d = fold scan_step [Set_LMT 100 ''/a'' 0, Set_LMT 100 ''/b'' 1] (default_directory 0)
   in running d = {path_components ''/a''} \<and> activeScanCount d = 0 \<and> fst (updateLMT d)"
proof -
  let ?d = "fold scan_step [Set_LMT 100 ''/a'' 0, Set_LMT 100 ''/b'' 1] (default_directory 0)"
  have "lastModified ?d = [([''/'', ''a''], 0), ([''/'', ''b''], 1)]" by code_simp
  moreover have "path_components ''/a'' = [''/'', ''a'']" by code_simp
  ultimately have "running ?d = {path_components ''/a''}" by (auto simp: running_def)
  moreover have "activeScanCount ?d = 0 \<and> fst (updateLMT ?d)" by code_simp
  ultimately show ?thesis by simp
qed

text \<open>The times only move forward.\<close>

lemma scan_step_current: "last_mod_current_scan d \<le> last_mod_current_scan (scan_step x d)"
  by (cases x) (auto simp: setCurrentLMT_def updateLMT_def incTaskCount_def decTaskCount_def Let_def)

lemma scan_step_previous:
  "last_mod_previous_scan d \<le> last_mod_current_scan d \<Longrightarrow>
   last_mod_previous_scan d \<le> last_mod_previous_scan (scan_step x d) \<and>
   last_mod_previous_scan (scan_step x d) \<le> last_mod_current_scan (scan_step x d)"
  by (cases x) (auto simp: setCurrentLMT_def updateLMT_def incTaskCount_def decTaskCount_def Let_def)

end
