(* ===== verification/Autoscan_List.thy ===== *)
theory Autoscan_List
  imports Autoscan_Dir Timer
begin

text \<open>
  The list of watched directories (\<open>src/src/config/result/edit_helper.h\<close>,
  \<open>src/src/content/autoscan_list.cc\<close>). Directories and timer parameters are shared objects, so both live in
  a heap and the list holds their addresses. A null pointer that is followed and \<open>erase\<close> at the end of a
  vector are errors of the model.
\<close>

record scan_heap =
  dirs :: "nat \<Rightarrow> AutoscanDirectory"
  param_ids :: "nat \<Rightarrow> int"
  next_dir :: nat
  next_param :: nat

record edit_list =
  items :: "nat list"
  indexMap :: "(nat, nat option) smap"
  origSize :: nat

datatype list_error = Null_pointer | Erase_end

definition empty_list :: edit_list where
  "empty_list = \<lparr>items = [], indexMap = [], origSize = 0\<rparr>"

section \<open>Directories in the heap\<close>

definition update_dir :: "nat \<Rightarrow> (AutoscanDirectory \<Rightarrow> AutoscanDirectory) \<Rightarrow> scan_heap \<Rightarrow> scan_heap" where
  "update_dir a f h = h\<lparr>dirs := (dirs h)(a := f (dirs h a))\<rparr>"

definition setScanID :: "nat \<Rightarrow> int \<Rightarrow> scan_heap \<Rightarrow> scan_heap" where
  "setScanID a i h =
     (let h1 = update_dir a (\<lambda>d. d\<lparr>scanID := i\<rparr>) h
      in h1\<lparr>param_ids := (param_ids h1)(timer_parameter (dirs h1 a) := i)\<rparr>)"

definition setInvalid :: "nat \<Rightarrow> scan_heap \<Rightarrow> scan_heap" where
  "setInvalid a = update_dir a (\<lambda>d. d\<lparr>scanID := INVALID_SCAN_ID\<rparr>)"

definition make_param :: "int \<Rightarrow> scan_heap \<Rightarrow> nat \<times> scan_heap" where
  "make_param i h = (next_param h, h\<lparr>param_ids := (param_ids h)(next_param h := i), next_param := next_param h + 1\<rparr>)"

text \<open>\<open>std::make_shared<AutoscanDirectory>()\<close>, with the parameter of its own.\<close>

definition make_directory :: "scan_heap \<Rightarrow> nat \<times> scan_heap" where
  "make_directory h =
     (let (p, h1) = make_param INVALID_SCAN_ID h
      in (next_dir h1, h1\<lparr>dirs := (dirs h1)(next_dir h1 := default_directory p), next_dir := next_dir h1 + 1\<rparr>))"

definition copy_directory :: "AutoscanDirectory \<Rightarrow> AutoscanDirectory \<Rightarrow> AutoscanDirectory" where
  "copy_directory d copy = copy\<lparr>ad_location := ad_location d, mode := mode d, recursive := recursive d,
     hidden := hidden d, followSymlinks := followSymlinks d, persistentFlag := persistentFlag d,
     interval := interval d, taskCount := taskCount d, scanID := scanID d, ad_objectID := ad_objectID d,
     databaseID := databaseID d, last_mod_previous_scan := last_mod_previous_scan d,
     last_mod_current_scan := last_mod_current_scan d, timer_parameter := timer_parameter d,
     scanContent := scanContent d, ad_mediaType := ad_mediaType d, containerMap := containerMap d\<rparr>"

definition same_dir :: "scan_heap \<Rightarrow> nat \<Rightarrow> nat \<Rightarrow> bool" where
  "same_dir h a b = (scanID (dirs h a) = scanID (dirs h b))"

section \<open>EditHelper\<close>

definition getEditSize :: "edit_list \<Rightarrow> nat" where
  "getEditSize e = (if indexMap e = [] then 0 else fst (last (indexMap e)) + 1)"

text \<open>An index of \<open>None\<close> is the default argument.\<close>

definition edit_add :: "nat \<Rightarrow> nat option \<Rightarrow> scan_heap \<times> edit_list \<Rightarrow> scan_heap \<times> edit_list" where
  "edit_add a index s =
     (let (h, e) = s in
      if \<exists>d \<in> set (items e). same_dir h d a then (h, e)
      else let (i, h1, e1) = (case index of
               None \<Rightarrow> (getEditSize e, update_dir a (\<lambda>d. d\<lparr>isOrig := True\<rparr>) h, e\<lparr>origSize := length (items e) + 1\<rparr>)
             | Some i \<Rightarrow> (i, h, e))
        in (setScanID a (int i) h1, e1\<lparr>items := items e1 @ [a], indexMap := smap_assign i (Some a) (indexMap e1)\<rparr>))"

definition edit_get :: "int \<Rightarrow> bool \<Rightarrow> edit_list \<Rightarrow> nat option" where
  "edit_get i edit e =
     (if \<not> edit then (if i < 0 \<or> int (length (items e)) \<le> i then None else Some (items e ! nat i))
      else if i < 0 then None
      else (case map_of (indexMap e) (nat i) of Some p \<Rightarrow> p | None \<Rightarrow> None))"

definition getArrayCopy :: "edit_list \<Rightarrow> nat list" where
  "getArrayCopy e = items e"

definition erase_at :: "nat \<Rightarrow> 'a list \<Rightarrow> 'a list" where
  "erase_at i xs = take i xs @ drop (i + 1) xs"

definition edit_remove :: "nat \<Rightarrow> scan_heap \<times> edit_list \<Rightarrow> scan_heap \<times> edit_list" where
  "edit_remove a s =
     (let (h, e) = s in
      case position (\<lambda>d. same_dir h d a) (items e) of
        None \<Rightarrow> (h, e)
      | Some i \<Rightarrow> (setInvalid a h, e\<lparr>items := erase_at i (items e)\<rparr>))"

definition edit_remove_id :: "nat \<Rightarrow> bool \<Rightarrow> scan_heap \<times> edit_list \<Rightarrow> list_error + scan_heap \<times> edit_list" where
  "edit_remove_id i edit s =
     (let (h, e) = s in
      if \<not> edit then
        (if length (items e) \<le> i then Inr (h, e)
         else Inr (setInvalid (items e ! i) h, e\<lparr>items := erase_at i (items e)\<rparr>))
      else (case map_of (indexMap e) i of
          None \<Rightarrow> Inr (h, e)
        | Some None \<Rightarrow> Inl Null_pointer
        | Some (Some a) \<Rightarrow>
            (case position (\<lambda>d. same_dir h a d) (items e) of
               None \<Rightarrow> Inl Erase_end
             | Some j \<Rightarrow> Inr (setInvalid a h,
                 e\<lparr>items := erase_at j (items e),
                   indexMap := (if origSize e \<le> i then filter (\<lambda>x. fst x \<noteq> i) (indexMap e) else indexMap e)\<rparr>))))"

section \<open>AutoscanList\<close>

definition getByObjectID :: "scan_heap \<Rightarrow> int \<Rightarrow> edit_list \<Rightarrow> nat option" where
  "getByObjectID h i e = find (\<lambda>a. i = ad_objectID (dirs h a)) (items e)"

definition getKey :: "scan_heap \<Rightarrow> string \<Rightarrow> edit_list \<Rightarrow> nat option" where
  "getKey h loc e = find (\<lambda>a. path_components loc = path_components (ad_location (dirs h a))) (items e)"

text \<open>The loop of \<open>removeIfSubdir\<close> over the rest of the list; the kept entries are collected in order.\<close>

definition takes_dir :: "scan_heap \<Rightarrow> string \<Rightarrow> bool \<Rightarrow> nat \<Rightarrow> bool" where
  "takes_dir h parent persistent a =
     (isSubDir (ad_location (dirs h a)) parent \<and> (persistentFlag (dirs h a) \<longrightarrow> persistent))"

definition take_out :: "nat \<Rightarrow> scan_heap \<times> (nat, nat option) smap \<times> edit_list \<Rightarrow> scan_heap \<times> (nat, nat option) smap \<times> edit_list" where
  "take_out a s =
     (let (h, imap, rm) = s;
          imap1 = smap_assign (nat (scanID (dirs h a))) None imap;
          (c, h1) = make_directory h;
          h2 = update_dir c (copy_directory (dirs h1 a)) h1;
          h3 = setScanID c (scanID (dirs h2 a)) h2;
          (h4, rm1) = edit_add c None (h3, rm)
      in (setInvalid a h4, imap1, rm1))"

fun subdir_loop :: "string \<Rightarrow> bool \<Rightarrow> nat list \<Rightarrow> scan_heap \<times> (nat, nat option) smap \<times> edit_list
    \<Rightarrow> nat list \<times> scan_heap \<times> (nat, nat option) smap \<times> edit_list" where
  "subdir_loop parent persistent [] s = ([], s)"
| "subdir_loop parent persistent (a # as) s =
     (if takes_dir (fst s) parent persistent a then subdir_loop parent persistent as (take_out a s)
      else (let (kept, t) = subdir_loop parent persistent as s in (a # kept, t)))"

text \<open>The result is the list without them and the list of their copies.\<close>

definition removeIfSubdir :: "string \<Rightarrow> bool \<Rightarrow> scan_heap \<times> edit_list \<Rightarrow> (scan_heap \<times> edit_list) \<times> edit_list" where
  "removeIfSubdir parent persistent s =
     (let (h, e) = s; (kept, h1, imap, rm) = subdir_loop parent persistent (items e) (h, indexMap e, empty_list)
      in ((h1, e\<lparr>items := kept, indexMap := imap\<rparr>), rm))"

text \<open>The parameters \<open>notifyAll\<close> notifies its subscriber with.\<close>

definition notifyAll :: "scan_heap \<Rightarrow> edit_list \<Rightarrow> nat list" where
  "notifyAll h e = map (\<lambda>a. timer_parameter (dirs h a)) (filter (\<lambda>a. mode (dirs h a) = Timed) (items e))"

text \<open>
  The subscriptions \<open>initTimer\<close> makes for the subscriber \<open>content\<close>: once after a minute for a directory
  that inotify watches, at its interval for a timed one. Intervals are seconds, the timer counts milliseconds.
\<close>

fun init_timer_loop :: "bool \<Rightarrow> int \<Rightarrow> nat \<Rightarrow> nat list \<Rightarrow> scan_heap \<Rightarrow> timer_subscriber list
    \<Rightarrow> timer_error + scan_heap \<times> timer_subscriber list" where
  "init_timer_loop have_inotify current content [] h subs = Inr (h, subs)"
| "init_timer_loop have_inotify current content (a # as) h subs =
     (let d = dirs h a in
      if have_inotify \<and> mode d = INotify then
        (let (p, h1) = make_param (scanID d) h in
         bindE (addTimerSubscriber current content 60000 (Some p) True subs)
           (init_timer_loop have_inotify current content as h1))
      else if mode d = Timed then
        (let (p, h1) = make_param (scanID d) h in
         bindE (addTimerSubscriber current content (interval d * 1000) (Some p) False subs)
           (init_timer_loop have_inotify current content as h1))
      else init_timer_loop have_inotify current content as h subs)"

definition initTimer :: "bool \<Rightarrow> int \<Rightarrow> nat \<Rightarrow> scan_heap \<times> edit_list \<Rightarrow> timer_subscriber list
    \<Rightarrow> timer_error + scan_heap \<times> timer_subscriber list" where
  "initTimer have_inotify current content s subs = init_timer_loop have_inotify current content (items (snd s)) (fst s) subs"

end
