(* ===== verification/Autoscan_List_Props.thy ===== *)
theory Autoscan_List_Props
  imports Autoscan_List
begin

text \<open>
  What the list of watched directories keeps, what a removal takes out, and what happens to the timer
  subscriptions of the directories that are removed.
\<close>

section \<open>The listed directories\<close>

text \<open>The listed directories are found under their scan numbers.\<close>

definition listed_ok :: "scan_heap \<Rightarrow> (nat, nat option) smap \<Rightarrow> nat list \<Rightarrow> bool" where
  "listed_ok h imap xs =
     (smap_ok imap \<and> distinct xs \<and>
      (\<forall>a \<in> set xs. a < next_dir h \<and> 0 \<le> scanID (dirs h a) \<and> map_of imap (nat (scanID (dirs h a))) = Some (Some a)))"

definition edit_ok :: "scan_heap \<times> edit_list \<Rightarrow> bool" where
  "edit_ok s = listed_ok (fst s) (indexMap (snd s)) (items (snd s))"

lemma listed_scanID_inj:
  "listed_ok h imap xs \<Longrightarrow> a \<in> set xs \<Longrightarrow> b \<in> set xs \<Longrightarrow> scanID (dirs h a) = scanID (dirs h b) \<Longrightarrow> a = b"
  unfolding listed_ok_def by (metis option.inject)

lemma listed_subset: "listed_ok h imap xs \<Longrightarrow> set ys \<subseteq> set xs \<Longrightarrow> distinct ys \<Longrightarrow> listed_ok h imap ys"
  by (auto simp: listed_ok_def)

lemma dirs_update_dir [simp]: "dirs (update_dir a f h) b = (if b = a then f (dirs h a) else dirs h b)"
  by (simp add: update_dir_def)

lemma update_dir_next [simp]: "next_dir (update_dir a f h) = next_dir h" "next_param (update_dir a f h) = next_param h"
  "param_ids (update_dir a f h) = param_ids h"
  by (simp_all add: update_dir_def)

lemma setScanID_simps [simp]:
  "dirs (setScanID a i h) b = (if b = a then (dirs h a)\<lparr>scanID := i\<rparr> else dirs h b)"
  "next_dir (setScanID a i h) = next_dir h" "next_param (setScanID a i h) = next_param h"
  by (simp_all add: setScanID_def Let_def)

lemma setInvalid_simps [simp]:
  "dirs (setInvalid a h) b = (if b = a then (dirs h a)\<lparr>scanID := INVALID_SCAN_ID\<rparr> else dirs h b)"
  "next_dir (setInvalid a h) = next_dir h" "next_param (setInvalid a h) = next_param h"
  "param_ids (setInvalid a h) = param_ids h"
  by (simp_all add: setInvalid_def)

lemma key_below_edit_size:
  assumes "smap_ok (indexMap e)" and "map_of (indexMap e) k = Some v"
  shows "k < getEditSize e"
proof -
  have "k \<in> fst ` set (indexMap e)" using assms(2) by (metis domI dom_map_of_conv_image_fst)
  moreover have "\<forall>j \<in> fst ` set (indexMap e). j \<le> fst (last (indexMap e))"
    using assms(1)
  proof (induction "indexMap e" arbitrary: e rule: rev_induct)
    case (snoc x m)
    then show ?case by (auto simp: smap_ok_def sorted_wrt_append simp flip: snoc(2) intro: less_imp_le)
  qed simp
  ultimately show ?thesis by (auto simp: getEditSize_def)
qed

lemma edit_add_ok:
  assumes "edit_ok (h, e)" and "a < next_dir h" and "index = None \<or> (\<exists>i. index = Some i \<and> int i = scanID (dirs h a))"
  shows "edit_ok (edit_add a index (h, e))"
proof (cases "\<exists>d \<in> set (items e). same_dir h d a")
  case False
  then have a: "a \<notin> set (items e)" by (auto simp: same_dir_def)
  have ok: "smap_ok (indexMap e)" "distinct (items e)" using assms(1) by (auto simp: edit_ok_def listed_ok_def)
  define i where "i = (case index of None \<Rightarrow> getEditSize e | Some i \<Rightarrow> i)"
  have new: "nat (scanID (dirs h b)) \<noteq> i" if "b \<in> set (items e)" for b
  proof (cases index)
    case None
    then show ?thesis using key_below_edit_size [OF ok(1)] that assms(1)
      by (fastforce simp: i_def edit_ok_def listed_ok_def)
  next
    case (Some j)
    then have "int i = scanID (dirs h a)" using assms(3) by (simp add: i_def)
    moreover have "scanID (dirs h b) \<noteq> scanID (dirs h a)" using False that by (auto simp: same_dir_def)
    moreover have "0 \<le> scanID (dirs h b)" using that assms(1) by (auto simp: edit_ok_def listed_ok_def)
    ultimately show ?thesis by auto
  qed
  show ?thesis
    using False a new assms(1,2) ok
    by (cases index) (auto simp: edit_ok_def edit_add_def listed_ok_def Let_def lookup_assign smap_assign_ok i_def)
qed (use assms(1) in \<open>auto simp: edit_add_def\<close>)

lemma set_erase_at: "distinct xs \<Longrightarrow> i < length xs \<Longrightarrow> set (erase_at i xs) = set xs - {xs ! i}"
proof -
  assume "distinct xs" "i < length xs"
  moreover have "xs = take i xs @ xs ! i # drop (Suc i) xs" using \<open>i < length xs\<close> by (rule id_take_nth_drop)
  ultimately have "distinct (take i xs @ xs ! i # drop (Suc i) xs)"
    "set xs = set (take i xs @ xs ! i # drop (Suc i) xs)" by simp_all
  then show ?thesis unfolding erase_at_def by auto
qed

lemma distinct_erase_at: "distinct xs \<Longrightarrow> distinct (erase_at i xs)"
  by (auto simp: erase_at_def dest: in_set_takeD in_set_dropD simp: set_take_disj_set_drop_if_distinct)

lemma listed_invalid: "listed_ok h imap xs \<Longrightarrow> a \<notin> set xs \<Longrightarrow> listed_ok (setInvalid a h) imap xs"
  by (auto simp: listed_ok_def)

lemma erase_ok:
  assumes "edit_ok (h, e)" and "position P (items e) = Some i" and "\<And>b. P b \<longleftrightarrow> scanID (dirs h b) = scanID (dirs h a)"
  shows "listed_ok (setInvalid a h) (indexMap e) (erase_at i (items e))" and "a \<notin> set (erase_at i (items e))"
proof -
  have ok: "listed_ok h (indexMap e) (items e)" using assms(1) by (simp add: edit_ok_def)
  then have d: "distinct (items e)" by (simp add: listed_ok_def)
  have i: "i < length (items e)" "scanID (dirs h (items e ! i)) = scanID (dirs h a)"
    using position_Some [OF assms(2)] assms(3) by auto
  show a: "a \<notin> set (erase_at i (items e))"
    using listed_scanID_inj [OF ok, of a "items e ! i"] i by (auto simp: set_erase_at [OF d i(1)])
  have "listed_ok h (indexMap e) (erase_at i (items e))"
    using ok set_erase_at [OF d i(1)] distinct_erase_at [OF d] by (intro listed_subset [OF ok]) auto
  then show "listed_ok (setInvalid a h) (indexMap e) (erase_at i (items e))" using a by (rule listed_invalid)
qed

lemma edit_remove_ok: "edit_ok (h, e) \<Longrightarrow> edit_ok (edit_remove a (h, e))"
  using erase_ok(1) [of h e "\<lambda>d. same_dir h d a" _ a]
  by (auto simp: edit_remove_def edit_ok_def same_dir_def split: option.splits)

lemma map_of_filter_key: "map_of (filter (\<lambda>x. fst x \<noteq> i) m) k = (if k = i then None else map_of m k)"
  by (induction m) auto

lemma smap_ok_filter: "smap_ok m \<Longrightarrow> smap_ok (filter P m)"
  by (induction m) (auto simp: smap_ok_def)

lemma edit_remove_id_ok:
  assumes "edit_ok (h, e)" and "edit_remove_id i edit (h, e) = Inr s"
  shows "edit_ok s"
proof (cases "edit \<and> (\<exists>a. map_of (indexMap e) i = Some (Some a))")
  case True
  then obtain a where a: "map_of (indexMap e) i = Some (Some a)" by blast
  obtain j where j: "position (\<lambda>d. same_dir h a d) (items e) = Some j"
    using assms(2) True a by (auto simp: edit_remove_id_def split: option.splits)
  have l: "listed_ok (setInvalid a h) (indexMap e) (erase_at j (items e))" "a \<notin> set (erase_at j (items e))"
    using erase_ok [OF assms(1) j, of a] eq_commute unfolding same_dir_def by metis+
  have "nat (scanID (dirs (setInvalid a h) b)) \<noteq> i" if "b \<in> set (erase_at j (items e))" for b
    using l that a by (auto simp: listed_ok_def simp del: setInvalid_simps)
  then show ?thesis
    using assms(2) True a j l(1)
    by (auto simp: edit_remove_id_def edit_ok_def listed_ok_def map_of_filter_key smap_ok_filter simp del: setInvalid_simps(1))
next
  case False
  have ok: "listed_ok h (indexMap e) (items e)" using assms(1) by (simp add: edit_ok_def)
  then have d: "distinct (items e)" by (simp add: listed_ok_def)
  have "listed_ok (setInvalid (items e ! i) h) (indexMap e) (erase_at i (items e))" if "i < length (items e)"
    using set_erase_at [OF d that] distinct_erase_at [OF d] by (intro listed_invalid listed_subset [OF ok]) auto
  then show ?thesis
    using assms False by (auto simp: edit_remove_id_def edit_ok_def split: if_splits option.splits)
qed

section \<open>Taking directories out\<close>

lemma make_directory_simps:
  "fst (make_directory h) = next_dir h" "next_dir (snd (make_directory h)) = next_dir h + 1"
  "dirs (snd (make_directory h)) b = (if b = next_dir h then default_directory (next_param h) else dirs h b)"
  by (simp_all add: make_directory_def make_param_def)

lemma edit_add_heap:
  "next_dir (fst (edit_add c index (h, e))) = next_dir h"
  "b \<noteq> c \<Longrightarrow> dirs (fst (edit_add c index (h, e))) b = dirs h b"
  "ad_location (dirs (fst (edit_add c index (h, e))) b) = ad_location (dirs h b)"
  by (auto simp: edit_add_def Let_def split: option.splits)

definition copied_heap :: "nat \<Rightarrow> scan_heap \<Rightarrow> scan_heap" where
  "copied_heap a h = setScanID (next_dir h) (scanID (dirs h a))
     (update_dir (next_dir h) (copy_directory (dirs h a)) (snd (make_directory h)))"

lemma copied_heap_simps:
  "next_dir (copied_heap a h) = next_dir h + 1"
  "b \<noteq> next_dir h \<Longrightarrow> dirs (copied_heap a h) b = dirs h b"
  "scanID (dirs (copied_heap a h) (next_dir h)) = scanID (dirs h a)"
  "ad_location (dirs (copied_heap a h) (next_dir h)) = ad_location (dirs h a)"
  by (simp_all add: copied_heap_def make_directory_simps copy_directory_def)

lemma take_out_eq:
  "a < next_dir h \<Longrightarrow> take_out a (h, imap, rm) =
     (let (h', rm') = edit_add (next_dir h) None (copied_heap a h, rm)
      in (setInvalid a h', smap_assign (nat (scanID (dirs h a))) None imap, rm'))"
  by (simp add: take_out_def copied_heap_def make_directory_simps case_prod_beta Let_def)

lemma take_out_heap:
  assumes a: "a < next_dir h" and t: "take_out a (h, imap, rm) = (h', imap', rm')"
  shows "next_dir h' = next_dir h + 1" and "imap' = smap_assign (nat (scanID (dirs h a))) None imap"
    and "b < next_dir h \<Longrightarrow> b \<noteq> a \<Longrightarrow> dirs h' b = dirs h b"
    and "scanID (dirs h' a) = INVALID_SCAN_ID" and "ad_location (dirs h' a) = ad_location (dirs h a)"
proof -
  obtain h2 where h2: "edit_add (next_dir h) None (copied_heap a h, rm) = (h2, rm')" "h' = setInvalid a h2"
    "imap' = smap_assign (nat (scanID (dirs h a))) None imap"
    using t unfolding take_out_eq [OF a] by (auto split: prod.splits)
  have e: "h2 = fst (edit_add (next_dir h) None (copied_heap a h, rm))" using h2(1) by simp
  show "imap' = smap_assign (nat (scanID (dirs h a))) None imap" by (rule h2(3))
  show "next_dir h' = next_dir h + 1" unfolding h2(2) e by (simp add: edit_add_heap copied_heap_simps)
  show "dirs h' b = dirs h b" if "b < next_dir h" "b \<noteq> a"
    using that unfolding h2(2) e by (simp add: edit_add_heap copied_heap_simps)
  show "scanID (dirs h' a) = INVALID_SCAN_ID" unfolding h2(2) by simp
  show "ad_location (dirs h' a) = ad_location (dirs h a)"
    using a unfolding h2(2) e by (simp add: edit_add_heap copied_heap_simps)
qed

lemma take_out_listed:
  assumes ok: "listed_ok h imap xs" and a: "a \<in> set xs" and t: "take_out a (h, imap, rm) = (h', imap', rm')"
  shows "listed_ok h' imap' (filter (\<lambda>b. b \<noteq> a) xs)"
proof -
  have a': "a < next_dir h" "0 \<le> scanID (dirs h a)" using ok a by (auto simp: listed_ok_def)
  have "smap_ok imap" using ok by (simp add: listed_ok_def)
  moreover have "nat (scanID (dirs h b)) \<noteq> nat (scanID (dirs h a))" if "b \<in> set xs" "b \<noteq> a" for b
  proof -
    have "scanID (dirs h b) \<noteq> scanID (dirs h a)" using listed_scanID_inj [OF ok that(1) a] that(2) by blast
    moreover have "0 \<le> scanID (dirs h b)" using ok that(1) by (simp add: listed_ok_def)
    ultimately show ?thesis using a'(2) by simp
  qed
  ultimately show ?thesis
    using ok take_out_heap [OF a'(1) t] by (auto simp: listed_ok_def lookup_assign smap_assign_ok)
qed

lemma subdir_loop_listed:
  "listed_ok h imap (ks @ as) \<Longrightarrow> subdir_loop parent persistent as (h, imap, rm) = (kept, h', imap', rm') \<Longrightarrow>
   kept = filter (\<lambda>a. \<not> takes_dir h parent persistent a) as \<and> listed_ok h' imap' (ks @ kept) \<and>
   next_dir h \<le> next_dir h' \<and> (\<forall>b < next_dir h. \<not> (b \<in> set as \<and> takes_dir h parent persistent b) \<longrightarrow> dirs h' b = dirs h b) \<and>
   (\<forall>a \<in> set as. takes_dir h parent persistent a \<longrightarrow> scanID (dirs h' a) = INVALID_SCAN_ID)"
proof (induction as arbitrary: ks h imap rm kept)
  case (Cons a as)
  have ok: "listed_ok h imap (ks @ a # as)" by (rule Cons.prems(1))
  then have a: "a < next_dir h" "a \<notin> set ks" "a \<notin> set as" by (auto simp: listed_ok_def)
  show ?case
  proof (cases "takes_dir h parent persistent a")
    case True
    obtain h1 imap1 rm1 where t: "take_out a (h, imap, rm) = (h1, imap1, rm1)" by (cases "take_out a (h, imap, rm)")
    note heap = take_out_heap [OF a(1) t]
    have "filter (\<lambda>b. b \<noteq> a) (ks @ a # as) = ks @ as"
      using a filter_True [of ks "\<lambda>b. b \<noteq> a"] filter_True [of as "\<lambda>b. b \<noteq> a"] by fastforce
    then have "listed_ok h1 imap1 (ks @ as)" using take_out_listed [OF ok _ t] by simp
    moreover have "subdir_loop parent persistent as (h1, imap1, rm1) = (kept, h', imap', rm')"
      using Cons.prems(2) True t by simp
    ultimately have ih: "kept = filter (\<lambda>a. \<not> takes_dir h1 parent persistent a) as \<and> listed_ok h' imap' (ks @ kept) \<and>
       next_dir h1 \<le> next_dir h' \<and> (\<forall>b < next_dir h1. \<not> (b \<in> set as \<and> takes_dir h1 parent persistent b) \<longrightarrow> dirs h' b = dirs h1 b) \<and>
       (\<forall>a \<in> set as. takes_dir h1 parent persistent a \<longrightarrow> scanID (dirs h' a) = INVALID_SCAN_ID)"
      by (rule Cons.IH)
    have same: "dirs h1 b = dirs h b" if "b \<in> set as" for b
      using that ok a by (intro heap(3)) (auto simp: listed_ok_def)
    then have t1: "takes_dir h1 parent persistent b = takes_dir h parent persistent b" if "b \<in> set as" for b
      using that by (simp add: takes_dir_def)
    have k: "filter (\<lambda>a. \<not> takes_dir h1 parent persistent a) as = filter (\<lambda>a. \<not> takes_dir h parent persistent a) as"
      by (rule filter_cong) (auto simp: t1)
    have inv: "scanID (dirs h' a) = INVALID_SCAN_ID"
      using ih a heap(1,4) by simp
    have "dirs h' b = dirs h b" if "b < next_dir h" "\<not> (b \<in> set (a # as) \<and> takes_dir h parent persistent b)" for b
    proof -
      have "b \<noteq> a" using that(2) True by auto
      then have "dirs h1 b = dirs h b" using that(1) by (intro heap(3))
      then show ?thesis using that ih heap(1) t1 [of b] by auto
    qed
    then show ?thesis using ih k inv True t1 heap(1) by auto
  next
    case False
    obtain kept1 where k: "subdir_loop parent persistent as (h, imap, rm) = (kept1, h', imap', rm')" "kept = a # kept1"
      using Cons.prems(2) False by (auto split: prod.splits)
    have "listed_ok h imap ((ks @ [a]) @ as)" using ok by simp
    from Cons.IH [OF this k(1)] show ?thesis using k(2) False by auto
  qed
qed simp

lemma removeIfSubdir_ok:
  assumes "edit_ok (h, e)" and "removeIfSubdir parent persistent (h, e) = ((h', e'), rm)"
  shows "edit_ok (h', e')" and "items e' = filter (\<lambda>a. \<not> takes_dir h parent persistent a) (items e)"
    and "a \<in> set (items e) \<Longrightarrow> takes_dir h parent persistent a \<Longrightarrow> scanID (dirs h' a) = INVALID_SCAN_ID"
    and "next_dir h \<le> next_dir h'"
    and "b < next_dir h \<Longrightarrow> \<not> takes_dir h parent persistent b \<Longrightarrow> dirs h' b = dirs h b"
proof -
  obtain kept imap where l: "subdir_loop parent persistent (items e) (h, indexMap e, empty_list) = (kept, h', imap, rm)"
    "e' = e\<lparr>items := kept, indexMap := imap\<rparr>"
    using assms(2) by (auto simp: removeIfSubdir_def split: prod.splits)
  have "listed_ok h (indexMap e) ([] @ items e)" using assms(1) by (simp add: edit_ok_def)
  from subdir_loop_listed [OF this l(1)] l(2)
  show "edit_ok (h', e')" "items e' = filter (\<lambda>a. \<not> takes_dir h parent persistent a) (items e)"
    "a \<in> set (items e) \<Longrightarrow> takes_dir h parent persistent a \<Longrightarrow> scanID (dirs h' a) = INVALID_SCAN_ID"
    "next_dir h \<le> next_dir h'" "b < next_dir h \<Longrightarrow> \<not> takes_dir h parent persistent b \<Longrightarrow> dirs h' b = dirs h b"
    by (auto simp: edit_ok_def)
qed

text \<open>The numbers of the directories taken out stand for no directory any more.\<close>

lemma subdir_loop_null:
  "listed_ok h imap (ks @ as) \<Longrightarrow> subdir_loop parent persistent as (h, imap, rm) = (kept, h', imap', rm') \<Longrightarrow>
   map_of imap k = Some None \<or> (\<exists>a \<in> set as. takes_dir h parent persistent a \<and> k = nat (scanID (dirs h a))) \<Longrightarrow>
   map_of imap' k = Some None"
proof (induction as arbitrary: ks h imap rm kept)
  case (Cons a as)
  have ok: "listed_ok h imap (ks @ a # as)" by (rule Cons.prems(1))
  then have a: "a < next_dir h" "a \<notin> set ks" "a \<notin> set as" "smap_ok imap" by (auto simp: listed_ok_def)
  show ?case
  proof (cases "takes_dir h parent persistent a")
    case True
    obtain h1 imap1 rm1 where t: "take_out a (h, imap, rm) = (h1, imap1, rm1)" by (cases "take_out a (h, imap, rm)")
    note heap = take_out_heap [OF a(1) t]
    have "set (ks @ as) \<subseteq> set (filter (\<lambda>b. b \<noteq> a) (ks @ a # as))" "distinct (ks @ as)"
      using a ok by (auto simp: listed_ok_def)
    then have "listed_ok h1 imap1 (ks @ as)"
      by (intro listed_subset [OF take_out_listed [OF ok _ t]]) simp_all
    moreover have "subdir_loop parent persistent as (h1, imap1, rm1) = (kept, h', imap', rm')"
      using Cons.prems(2) True t by simp
    moreover have "map_of imap1 k = Some None \<or> (\<exists>b \<in> set as. takes_dir h1 parent persistent b \<and> k = nat (scanID (dirs h1 b)))"
    proof -
      have same: "dirs h1 b = dirs h b" if "b \<in> set as" for b
        using that ok a by (intro heap(3)) (auto simp: listed_ok_def)
      have look: "map_of imap1 k = (if k = nat (scanID (dirs h a)) then Some None else map_of imap k)"
        unfolding heap(2) by (rule lookup_assign [OF a(4)])
      consider "map_of imap k = Some None" | "k = nat (scanID (dirs h a))"
        | b where "b \<in> set as" "takes_dir h parent persistent b" "k = nat (scanID (dirs h b))"
        using Cons.prems(3) by auto
      then show ?thesis
      proof cases
        case (3 b)
        then have "takes_dir h1 parent persistent b \<and> k = nat (scanID (dirs h1 b))"
          using same [of b] by (simp add: takes_dir_def)
        then show ?thesis using 3(1) by blast
      qed (use look in auto)
    qed
    ultimately show ?thesis by (rule Cons.IH)
  next
    case False
    obtain kept1 where k: "subdir_loop parent persistent as (h, imap, rm) = (kept1, h', imap', rm')"
      using Cons.prems(2) False by (auto split: prod.splits)
    have "listed_ok h imap ((ks @ [a]) @ as)" using ok by simp
    from Cons.IH [OF this k] show ?thesis using Cons.prems(3) False by auto
  qed
qed simp

text \<open>Every directory keeps a timer parameter of the given set.\<close>

definition params_in :: "nat set \<Rightarrow> scan_heap \<Rightarrow> bool" where
  "params_in P h = (\<forall>a < next_dir h. timer_parameter (dirs h a) \<in> P)"

definition ids_ok :: "scan_heap \<Rightarrow> bool" where
  "ids_ok h = (\<forall>a < next_dir h. - 1 \<le> scanID (dirs h a))"

lemma edit_add_params: "timer_parameter (dirs (fst (edit_add c index (h, e))) b) = timer_parameter (dirs h b)"
  by (auto simp: edit_add_def Let_def split: option.splits)

lemma edit_add_ids: "- 1 \<le> scanID (dirs h b) \<Longrightarrow> - 1 \<le> scanID (dirs (fst (edit_add c index (h, e))) b)"
  by (auto simp: edit_add_def Let_def split: option.splits)

lemma copied_heap_params:
  "timer_parameter (dirs (copied_heap a h) b) = (if b = next_dir h then timer_parameter (dirs h a) else timer_parameter (dirs h b))"
  by (simp add: copied_heap_def make_directory_simps copy_directory_def)

lemma take_out_kept:
  assumes a: "a < next_dir h" and t: "take_out a (h, imap, rm) = (h', imap', rm')"
  shows "params_in P h \<Longrightarrow> params_in P h'" and "ids_ok h \<Longrightarrow> ids_ok h'"
proof -
  obtain h2 where h2: "edit_add (next_dir h) None (copied_heap a h, rm) = (h2, rm')" "h' = setInvalid a h2"
    using t unfolding take_out_eq [OF a] by (auto split: prod.splits)
  have e: "h2 = fst (edit_add (next_dir h) None (copied_heap a h, rm))" using h2(1) by simp
  have n: "next_dir h' = next_dir h + 1" by (rule take_out_heap(1) [OF a t])
  have p: "timer_parameter (dirs h' b) = (if b = next_dir h then timer_parameter (dirs h a) else timer_parameter (dirs h b))" for b
    unfolding h2(2) e by (simp add: edit_add_params copied_heap_params)
  show "params_in P h'" if "params_in P h" using that a n p by (auto simp: params_in_def less_Suc_eq)
  show "ids_ok h'" if "ids_ok h"
  proof -
    have "- 1 \<le> scanID (dirs (copied_heap a h) b)" if "b < next_dir h + 1" for b
      using that \<open>ids_ok h\<close> a by (cases "b = next_dir h") (auto simp: ids_ok_def copied_heap_simps)
    then have "- 1 \<le> scanID (dirs h2 b)" if "b < next_dir h + 1" for b unfolding e using that by (intro edit_add_ids) auto
    then show ?thesis unfolding ids_ok_def n by (auto simp: h2(2) INVALID_SCAN_ID_def)
  qed
qed

lemma subdir_loop_kept:
  "\<forall>a \<in> set as. a < next_dir h \<Longrightarrow> subdir_loop parent persistent as (h, imap, rm) = (kept, h', imap', rm') \<Longrightarrow>
   (params_in P h \<longrightarrow> params_in P h') \<and> (ids_ok h \<longrightarrow> ids_ok h')"
proof (induction as arbitrary: h imap rm kept)
  case (Cons a as)
  show ?case
  proof (cases "takes_dir h parent persistent a")
    case True
    obtain h1 imap1 rm1 where t: "take_out a (h, imap, rm) = (h1, imap1, rm1)" by (cases "take_out a (h, imap, rm)")
    have a: "a < next_dir h" using Cons.prems(1) by simp
    have "\<forall>b \<in> set as. b < next_dir h1" using Cons.prems(1) take_out_heap(1) [OF a t] by (simp add: less_SucI)
    moreover have "subdir_loop parent persistent as (h1, imap1, rm1) = (kept, h', imap', rm')"
      using Cons.prems(2) True t by simp
    ultimately have "(params_in P h1 \<longrightarrow> params_in P h') \<and> (ids_ok h1 \<longrightarrow> ids_ok h')" by (rule Cons.IH)
    then show ?thesis using take_out_kept(1) [where P = P, OF a t] take_out_kept(2) [OF a t] by blast
  next
    case False
    then obtain kept1 where k: "subdir_loop parent persistent as (h, imap, rm) = (kept1, h', imap', rm')"
      using Cons.prems(2) by (auto split: prod.splits)
    have "\<forall>b \<in> set as. b < next_dir h" using Cons.prems(1) by simp
    then show ?thesis using k by (rule Cons.IH)
  qed
qed simp

lemma edit_ok_allocated: "edit_ok (h, e) \<Longrightarrow> \<forall>a \<in> set (items e). a < next_dir h"
  by (simp add: edit_ok_def listed_ok_def)

lemma removeIfSubdir_kept:
  assumes "edit_ok (h, e)" and "removeIfSubdir parent persistent (h, e) = ((h', e'), rm)"
  shows "params_in P h \<Longrightarrow> params_in P h'" and "ids_ok h \<Longrightarrow> ids_ok h'"
    and "a \<in> set (items e) \<Longrightarrow> takes_dir h parent persistent a \<Longrightarrow> map_of (indexMap e') (nat (scanID (dirs h a))) = Some None"
proof -
  obtain kept imap where l: "subdir_loop parent persistent (items e) (h, indexMap e, empty_list) = (kept, h', imap, rm)"
    "e' = e\<lparr>items := kept, indexMap := imap\<rparr>"
    using assms(2) by (auto simp: removeIfSubdir_def split: prod.splits)
  note k = subdir_loop_kept [where P = P, OF edit_ok_allocated [OF assms(1)] l(1)]
  show "params_in P h \<Longrightarrow> params_in P h'" "ids_ok h \<Longrightarrow> ids_ok h'" using k by blast+
  have "listed_ok h (indexMap e) ([] @ items e)" using assms(1) by (simp add: edit_ok_def)
  from subdir_loop_null [OF this l(1)]
  show "a \<in> set (items e) \<Longrightarrow> takes_dir h parent persistent a \<Longrightarrow> map_of (indexMap e') (nat (scanID (dirs h a))) = Some None"
    using l(2) by auto
qed

end
