(* ===== verification/Autoscan_Watch.thy ===== *)
theory Autoscan_Watch
  imports Autoscan_List_Props
begin

text \<open>
  What the content manager does with the watched directories (\<open>src/src/content/content_manager.cc\<close>): adding
  and removing them, and the timer that is to rescan them.
\<close>

section \<open>Runs of list operations\<close>

text \<open>\<open>scanDir\<close> adds a directory under its own number when it has one.\<close>

definition scanDir_add :: "nat \<Rightarrow> scan_heap \<times> edit_list \<Rightarrow> scan_heap \<times> edit_list" where
  "scanDir_add a s =
     (if scanID (dirs (fst s) a) \<noteq> INVALID_SCAN_ID then edit_add a (Some (nat (scanID (dirs (fst s) a)))) s
      else edit_add a None s)"

datatype list_op =
  New_dir string bool AutoscanScanMode int | Add_dir nat | Remove_dir nat | Remove_id nat bool | Remove_subdirs string bool

definition fill_directory :: "string \<Rightarrow> bool \<Rightarrow> AutoscanScanMode \<Rightarrow> int \<Rightarrow> AutoscanDirectory \<Rightarrow> AutoscanDirectory" where
  "fill_directory loc persistent m secs d = d\<lparr>ad_location := loc, persistentFlag := persistent, mode := m, interval := secs\<rparr>"

text \<open>An operation on an address that is not allocated does nothing.\<close>

fun list_step :: "list_op \<Rightarrow> scan_heap \<times> edit_list \<Rightarrow> list_error + scan_heap \<times> edit_list" where
  "list_step (New_dir loc persistent m secs) (h, e) =
     (let (a, h1) = make_directory h in Inr (update_dir a (fill_directory loc persistent m secs) h1, e))"
| "list_step (Add_dir a) (h, e) = (if a < next_dir h then Inr (scanDir_add a (h, e)) else Inr (h, e))"
| "list_step (Remove_dir a) (h, e) = (if a < next_dir h then Inr (edit_remove a (h, e)) else Inr (h, e))"
| "list_step (Remove_id i edit) (h, e) = edit_remove_id i edit (h, e)"
| "list_step (Remove_subdirs parent persistent) (h, e) = Inr (fst (removeIfSubdir parent persistent (h, e)))"

fun list_run :: "list_op list \<Rightarrow> scan_heap \<times> edit_list \<Rightarrow> list_error + scan_heap \<times> edit_list" where
  "list_run [] s = Inr s"
| "list_run (x # xs) s = bindE (list_step x s) (list_run xs)"

definition empty_heap :: scan_heap where
  "empty_heap = \<lparr>dirs = (\<lambda>a. default_directory 0), param_ids = (\<lambda>p. INVALID_SCAN_ID), next_dir = 0, next_param = 0\<rparr>"

definition watch_ok :: "scan_heap \<times> edit_list \<Rightarrow> bool" where
  "watch_ok s = (edit_ok s \<and> ids_ok (fst s))"

lemma edit_remove_ids: "ids_ok h \<Longrightarrow> ids_ok (fst (edit_remove a (h, e)))"
  by (auto simp: ids_ok_def edit_remove_def INVALID_SCAN_ID_def split: option.splits)

lemma edit_remove_id_ids: "ids_ok h \<Longrightarrow> edit_remove_id i edit (h, e) = Inr s \<Longrightarrow> ids_ok (fst s)"
  by (auto simp: ids_ok_def edit_remove_id_def INVALID_SCAN_ID_def split: option.splits if_splits)

lemma scanDir_add_ok:
  assumes "watch_ok (h, e)" and "a < next_dir h"
  shows "watch_ok (scanDir_add a (h, e))"
proof -
  have i: "edit_ok (h, e)" "- 1 \<le> scanID (dirs h a)" "ids_ok h" using assms by (auto simp: watch_ok_def ids_ok_def)
  obtain index where x: "scanDir_add a (h, e) = edit_add a index (h, e)"
    "index = None \<or> (\<exists>j. index = Some j \<and> int j = scanID (dirs h a))"
  proof (cases "scanID (dirs h a) = INVALID_SCAN_ID")
    case True
    then show thesis by (intro that [of None]) (simp_all add: scanDir_add_def)
  next
    case False
    then show thesis
      using i(2) by (intro that [of "Some (nat (scanID (dirs h a)))"]) (auto simp: scanDir_add_def INVALID_SCAN_ID_def)
  qed
  have "edit_ok (scanDir_add a (h, e))" unfolding x(1) by (rule edit_add_ok [OF i(1) assms(2) x(2)])
  moreover have "ids_ok (fst (scanDir_add a (h, e)))"
    using i(3) unfolding x(1) by (auto simp: ids_ok_def edit_add_heap intro: edit_add_ids)
  ultimately show ?thesis by (simp add: watch_ok_def)
qed

lemma list_step_ok:
  assumes "watch_ok s" and "list_step x s = Inr t"
  shows "watch_ok t"
proof -
  obtain h e where s: "s = (h, e)" by (cases s)
  have ok: "edit_ok (h, e)" "ids_ok h" using assms(1) s by (auto simp: watch_ok_def)
  show ?thesis
  proof (cases x)
    case (New_dir loc persistent m secs)
    have t: "t = (update_dir (next_dir h) (fill_directory loc persistent m secs) (snd (make_directory h)), e)"
      using assms(2) s New_dir by (simp add: case_prod_beta make_directory_simps)
    show ?thesis
      using ok unfolding t
      by (auto simp: watch_ok_def edit_ok_def listed_ok_def ids_ok_def make_directory_simps fill_directory_def
          default_directory_def INVALID_SCAN_ID_def less_Suc_eq)
  next
    case (Add_dir a)
    then show ?thesis using assms s scanDir_add_ok by (auto split: if_splits)
  next
    case (Remove_dir a)
    then show ?thesis using assms s ok edit_remove_ok edit_remove_ids by (auto simp: watch_ok_def split: if_splits)
  next
    case (Remove_id i edit)
    then show ?thesis using assms s ok edit_remove_id_ok edit_remove_id_ids by (auto simp: watch_ok_def)
  next
    case (Remove_subdirs parent persistent)
    obtain h' e' rm where r: "removeIfSubdir parent persistent (h, e) = ((h', e'), rm)" by (metis prod.collapse)
    show ?thesis
      using assms(2) s Remove_subdirs r removeIfSubdir_ok(1) [OF ok(1) r] removeIfSubdir_kept(2) [OF ok(1) r] ok(2)
      by (auto simp: watch_ok_def)
  qed
qed

lemma list_run_ok: "watch_ok s \<Longrightarrow> list_run xs s = Inr t \<Longrightarrow> watch_ok t"
proof (induction xs arbitrary: s)
  case (Cons x xs)
  then obtain u where "list_step x s = Inr u" "list_run xs u = Inr t" by (cases "list_step x s") auto
  then show ?case using Cons list_step_ok by blast
qed simp

lemma watch_ok_empty: "watch_ok (empty_heap, empty_list)"
  by (simp add: watch_ok_def edit_ok_def listed_ok_def ids_ok_def empty_heap_def empty_list_def smap_ok_def)


text \<open>Three timed directories, added one after another.\<close>

definition three_dirs :: "list_op list" where
  "three_dirs = [New_dir ''/a'' False Timed 60, Add_dir 0, New_dir ''/b'' False Timed 90, Add_dir 1,
     New_dir ''/c'' False Timed 120, Add_dir 2]"

definition timed_dir :: "nat \<Rightarrow> string \<Rightarrow> int \<Rightarrow> AutoscanDirectory" where
  "timed_dir n loc secs = (default_directory n)\<lparr>isOrig := True, ad_location := loc, mode := Timed, interval := secs, scanID := int n\<rparr>"

lemmas heap_defs = empty_heap_def empty_list_def make_directory_def make_param_def fill_directory_def
  scanDir_add_def edit_add_def getEditSize_def update_dir_def setScanID_def same_dir_def Let_def
  default_directory_def INVALID_SCAN_ID_def timed_dir_def

lemma three_dirs_run:
  "list_run three_dirs (empty_heap, empty_list) =
     Inr (\<lparr>dirs = (\<lambda>a. default_directory 0)(0 := timed_dir 0 ''/a'' 60, 1 := timed_dir 1 ''/b'' 90, 2 := timed_dir 2 ''/c'' 120),
           param_ids = (\<lambda>p. INVALID_SCAN_ID)(0 := 0, 1 := 1, 2 := 2), next_dir = 3, next_param = 3\<rparr>,
          \<lparr>items = [0, 1, 2], indexMap = [(0, Some 0), (1, Some 1), (2, Some 2)], origSize = 3\<rparr>)"
  by (simp add: three_dirs_def heap_defs numeral_2_eq_2 numeral_3_eq_3)

lemma three_dirs_facts:
  assumes "list_run three_dirs (empty_heap, empty_list) = Inr (h, e)"
  shows "items e = [0, 1, 2]" and "map (\<lambda>a. scanID (dirs h a)) [0, 1, 2] = [0, 1, 2]"
    and "map (takes_dir h ''/b'' False) [0, 1, 2] = [False, True, False]" and "edit_ok (h, e)"
proof -
  have he: "h = \<lparr>dirs = (\<lambda>a. default_directory 0)(0 := timed_dir 0 ''/a'' 60, 1 := timed_dir 1 ''/b'' 90, 2 := timed_dir 2 ''/c'' 120),
           param_ids = (\<lambda>p. INVALID_SCAN_ID)(0 := 0, 1 := 1, 2 := 2), next_dir = 3, next_param = 3\<rparr>"
    "items e = [0, 1, 2]"
    using assms by (auto simp: three_dirs_run)
  show "items e = [0, 1, 2]" by (rule he(2))
  show "map (\<lambda>a. scanID (dirs h a)) [0, 1, 2] = [0, 1, 2]" by (simp add: he(1) timed_dir_def)
  show "map (takes_dir h ''/b'' False) [0, 1, 2] = [False, True, False]"
    by (simp add: he(1) timed_dir_def default_directory_def takes_dir_def isSubDir_def rtrimPath_def startswith_def)
  show "edit_ok (h, e)" using list_run_ok [OF watch_ok_empty assms] by (simp add: watch_ok_def)
qed

lemma three_dirs_returns: "\<exists>h e. list_run three_dirs (empty_heap, empty_list) = Inr (h, e)"
  by (simp add: three_dirs_run)


section \<open>Removing a directory twice\<close>

text \<open>Removing a configured directory through the configuration pages a second time, before the list is
  rebuilt, reaches \<open>erase\<close> with the end of the vector; a directory that went with its parent is a null pointer
  there. Both are undefined behaviour, and the first removal reports nothing.\<close>

theorem removed_number_crashes:
  assumes "edit_ok (h, e)" and "a \<in> set (items e)"
  shows "(\<exists>s. edit_remove_id (nat (scanID (dirs h a))) True (h, e) = Inr s \<and>
           (nat (scanID (dirs h a)) < origSize e \<longrightarrow>
              edit_remove_id (nat (scanID (dirs h a))) True s = Inl Erase_end)) \<and>
         (takes_dir h parent False a \<longrightarrow>
            edit_remove_id (nat (scanID (dirs h a))) True (fst (removeIfSubdir parent False (h, e))) = Inl Null_pointer)"
proof -
  let ?i = "nat (scanID (dirs h a))"
  have m: "map_of (indexMap e) ?i = Some (Some a)" using assms by (auto simp: edit_ok_def listed_ok_def)
  have "\<exists>j. position (\<lambda>d. same_dir h a d) xs = Some j" if "a \<in> set xs" for xs
    using that by (induction xs) (auto simp: same_dir_def)
  then obtain j where j: "position (\<lambda>d. same_dir h a d) (items e) = Some j" using assms(2) by blast
  let ?s = "(setInvalid a h, e\<lparr>items := erase_at j (items e),
     indexMap := (if origSize e \<le> ?i then filter (\<lambda>x. fst x \<noteq> ?i) (indexMap e) else indexMap e)\<rparr>)"
  have s: "edit_remove_id ?i True (h, e) = Inr ?s" using m j by (simp add: edit_remove_id_def)
  then have ok: "edit_ok ?s" by (rule edit_remove_id_ok [OF assms(1)])
  have none: "position P xs = None" if "\<forall>d \<in> set xs. \<not> P d" for P and xs :: "nat list"
    using that by (induction xs) auto
  have "position (\<lambda>d. same_dir (setInvalid a h) a d) (erase_at j (items e)) = None"
  proof (rule none, rule ballI)
    fix d assume d: "d \<in> set (erase_at j (items e))"
    then have "0 \<le> scanID (dirs (setInvalid a h) d)" using ok by (simp add: edit_ok_def listed_ok_def)
    then show "\<not> same_dir (setInvalid a h) a d" by (auto simp: same_dir_def INVALID_SCAN_ID_def)
  qed
  then have "edit_remove_id ?i True ?s = Inl Erase_end" if "?i < origSize e" using that m by (simp add: edit_remove_id_def)
  moreover have "edit_remove_id ?i True (fst (removeIfSubdir parent False (h, e))) = Inl Null_pointer"
    if "takes_dir h parent False a"
  proof -
    obtain h' e' rm where r: "removeIfSubdir parent False (h, e) = ((h', e'), rm)" by (metis prod.collapse)
    show ?thesis using removeIfSubdir_kept(3) [OF assms(1) r assms(2) that] r by (simp add: edit_remove_id_def)
  qed
  ultimately show ?thesis using s by blast
qed

lemma removed_number_crashes_witness:
  "\<exists>h e. list_run three_dirs (empty_heap, empty_list) = Inr (h, e) \<and>
     edit_remove_id (nat (scanID (dirs h 1))) True (fst (removeIfSubdir ''/b'' False (h, e))) = Inl Null_pointer"
proof -
  obtain h e where he: "list_run three_dirs (empty_heap, empty_list) = Inr (h, e)" using three_dirs_returns by blast
  note f = three_dirs_facts [OF he]
  have "1 \<in> set (items e)" "takes_dir h ''/b'' False 1" using f by simp_all
  then show ?thesis using he removed_number_crashes [OF f(4), of 1 "''/b''"] by blast
qed

section \<open>The subscriptions of removed directories\<close>

text \<open>What \<open>cleanupTasks\<close> does with the copies \<open>removeIfSubdir\<close> returns: the timer of each timed one is removed,
  a missing one is ignored.\<close>

fun unsubscribe_all :: "nat \<Rightarrow> scan_heap \<Rightarrow> nat list \<Rightarrow> timer_subscriber list \<Rightarrow> timer_error + timer_subscriber list" where
  "unsubscribe_all content h [] subs = Inr subs"
| "unsubscribe_all content h (c # cs) subs =
     (if mode (dirs h c) = Timed
      then bindE (removeTimerSubscriber content (Some (timer_parameter (dirs h c))) True subs)
             (\<lambda>(subs', _). unsubscribe_all content h cs subs')
      else unsubscribe_all content h cs subs)"

definition cleanup_autoscans :: "nat \<Rightarrow> string \<Rightarrow> (scan_heap \<times> edit_list) \<times> timer_subscriber list
    \<Rightarrow> timer_error + (scan_heap \<times> edit_list) \<times> timer_subscriber list" where
  "cleanup_autoscans content path st =
     (let (s, subs) = st in
      if path = [] then Inr (s, subs)
      else (let (s', rm) = removeIfSubdir path False s
            in bindE (unsubscribe_all content (fst s') (items rm) subs) (\<lambda>subs'. Inr (s', subs'))))"

text \<open>The autoscan branch of \<open>timerNotify\<close>: the directory that is rescanned.\<close>

definition timerNotify_autoscan :: "nat \<Rightarrow> scan_heap \<times> edit_list \<Rightarrow> nat option" where
  "timerNotify_autoscan param s =
     (case edit_get (param_ids (fst s) param) False (snd s) of
        None \<Rightarrow> None
      | Some a \<Rightarrow> if activeScanCount (dirs (fst s) a) > 0 \<or> taskCount (dirs (fst s) a) > 0 then None else Some a)"

text \<open>A subscription of a parameter the directories do not have is never found.\<close>

definition foreign :: "nat \<Rightarrow> nat set \<Rightarrow> timer_subscriber list \<Rightarrow> bool" where
  "foreign content P subs = (\<forall>p \<in> P. (content, Some p) \<notin> timer_key ` set subs)"

lemma remove_foreign:
  assumes "foreign content P subs" and "p \<in> P"
  shows "removeTimerSubscriber content (Some p) True subs = Inr (subs, False)"
proof -
  have "\<forall>e \<in> set subs. \<not> same_timer e (TimerSubscriberElement 0 content 0 (Some p) False)"
    using assms by (force simp: foreign_def same_timer_key)
  then have "List.extract (\<lambda>e. same_timer e (TimerSubscriberElement 0 content 0 (Some p) False)) subs = None"
    by (simp add: extract_None_iff)
  then show ?thesis by (simp add: removeTimerSubscriber_def)
qed

lemma add_foreign:
  "foreign content P subs \<Longrightarrow> q \<notin> P \<Longrightarrow> addTimerSubscriber current content i (Some q) one subs = Inr subs' \<Longrightarrow>
   foreign content P subs'"
proof -
  assume a: "foreign content P subs" "q \<notin> P" "addTimerSubscriber current content i (Some q) one subs = Inr subs'"
  then have "timer_key ` set subs' = insert (content, Some q) (timer_key ` set subs)"
    by (auto simp: addTimerSubscriber_def Let_def split: if_splits)
  then show ?thesis using a(1,2) by (auto simp: foreign_def)
qed

lemma make_param_simps:
  "fst (make_param i h) = next_param h" "next_param (snd (make_param i h)) = next_param h + 1"
  "dirs (snd (make_param i h)) = dirs h" "next_dir (snd (make_param i h)) = next_dir h"
  by (simp_all add: make_param_def)

lemma init_loop_foreign:
  "init_timer_loop have_inotify current content as h subs = Inr (h', subs') \<Longrightarrow> foreign content P subs \<Longrightarrow>
   \<forall>p \<in> P. p < next_param h \<Longrightarrow> foreign content P subs' \<and> dirs h' = dirs h \<and> next_dir h' = next_dir h"
proof (induction as arbitrary: h subs)
  case (Cons a as)
  let ?h1 = "snd (make_param (scanID (dirs h a)) h)"
  have step: "foreign content P subs' \<and> dirs h' = dirs h \<and> next_dir h' = next_dir h"
    if "bindE (addTimerSubscriber current content i (Some (next_param h)) one subs)
          (init_timer_loop have_inotify current content as ?h1) = Inr (h', subs')" for i one
  proof -
    obtain subs1 where s: "addTimerSubscriber current content i (Some (next_param h)) one subs = Inr subs1"
      "init_timer_loop have_inotify current content as ?h1 subs1 = Inr (h', subs')"
      using \<open>bindE _ _ = _\<close> by (cases "addTimerSubscriber current content i (Some (next_param h)) one subs") auto
    have "next_param h \<notin> P" using Cons.prems(3) by auto
    then have "foreign content P subs1" by (rule add_foreign [OF Cons.prems(2) _ s(1)])
    then show ?thesis using Cons.IH [OF s(2)] Cons.prems(3) by (auto simp: make_param_simps intro: less_SucI)
  qed
  show ?case
    using Cons.prems(1) Cons.IH [OF _ Cons.prems(2,3)] step
    by (auto simp: Let_def case_prod_beta make_param_simps split: if_splits)
qed auto

lemma take_out_copies:
  assumes a: "a < next_dir h" and t: "take_out a (h, imap, rm) = (h', imap', rm')"
    and rm: "\<forall>c \<in> set (items rm). c < next_dir h"
  shows "\<forall>c \<in> set (items rm'). c < next_dir h'"
proof -
  obtain h2 where h2: "edit_add (next_dir h) None (copied_heap a h, rm) = (h2, rm')"
    using t unfolding take_out_eq [OF a] by (auto split: prod.splits)
  then have "set (items rm') \<subseteq> insert (next_dir h) (set (items rm))"
    by (auto simp: edit_add_def Let_def split: if_splits)
  moreover have "next_dir h' = next_dir h + 1" by (rule take_out_heap(1) [OF a t])
  ultimately show ?thesis using rm by (fastforce simp: less_Suc_eq)
qed

lemma subdir_loop_copies:
  "\<forall>a \<in> set as. a < next_dir h \<Longrightarrow> \<forall>c \<in> set (items rm). c < next_dir h \<Longrightarrow>
   subdir_loop parent persistent as (h, imap, rm) = (kept, h', imap', rm') \<Longrightarrow> \<forall>c \<in> set (items rm'). c < next_dir h'"
proof (induction as arbitrary: h imap rm kept)
  case (Cons a as)
  show ?case
  proof (cases "takes_dir h parent persistent a")
    case True
    obtain h1 imap1 rm1 where t: "take_out a (h, imap, rm) = (h1, imap1, rm1)" by (cases "take_out a (h, imap, rm)")
    have a: "a < next_dir h" using Cons.prems(1) by simp
    have "\<forall>b \<in> set as. b < next_dir h1" using Cons.prems(1) take_out_heap(1) [OF a t] by (simp add: less_SucI)
    moreover have "\<forall>c \<in> set (items rm1). c < next_dir h1" by (rule take_out_copies [OF a t Cons.prems(2)])
    moreover have "subdir_loop parent persistent as (h1, imap1, rm1) = (kept, h', imap', rm')"
      using Cons.prems(3) True t by simp
    ultimately show ?thesis by (rule Cons.IH)
  next
    case False
    then obtain kept1 where k: "subdir_loop parent persistent as (h, imap, rm) = (kept1, h', imap', rm')"
      using Cons.prems(3) by (auto split: prod.splits)
    have "\<forall>b \<in> set as. b < next_dir h" using Cons.prems(1) by simp
    then show ?thesis using Cons.prems(2) k by (rule Cons.IH)
  qed
qed simp

lemma unsubscribe_foreign:
  "foreign content P subs \<Longrightarrow> \<forall>c \<in> set cs. timer_parameter (dirs h c) \<in> P \<Longrightarrow> unsubscribe_all content h cs subs = Inr subs"
  by (induction cs) (simp_all add: remove_foreign)

text \<open>C25: The subscriptions of the periodic scans survive the removal of their directories: \<open>initTimer\<close> subscribes
  with parameter objects of its own, the removal looks for the objects of the directories, and the timer
  compares objects by address, so it finds none and, told not to fail, says nothing.\<close>

theorem removal_keeps_subscriptions:
  assumes "edit_ok (h, e)" and "params_in {..<next_param h} h"
    and "initTimer have_inotify current content (h, e) [] = Inr (h', subs)"
    and "removeIfSubdir path False (h', e) = (s, rm)"
  shows "cleanup_autoscans content path ((h', e), subs) = Inr (if path = [] then (h', e) else s, subs)"
proof -
  have f: "foreign content {..<next_param h} subs" "dirs h' = dirs h" "next_dir h' = next_dir h"
    using init_loop_foreign [of have_inotify current content "items e" h "[]" h' subs "{..<next_param h}"] assms(3)
    by (auto simp: initTimer_def foreign_def)
  have ok: "edit_ok (h', e)" using assms(1) f by (simp add: edit_ok_def listed_ok_def)
  have p: "params_in {..<next_param h} h'" using assms(2) f by (simp add: params_in_def)
  obtain h2 e2 where s: "s = (h2, e2)" by (cases s)
  obtain kept imap where l: "subdir_loop path False (items e) (h', indexMap e, empty_list) = (kept, h2, imap, rm)"
    using assms(4) s by (auto simp: removeIfSubdir_def split: prod.splits)
  have "\<forall>c \<in> set (items rm). c < next_dir h2"
    by (rule subdir_loop_copies [OF edit_ok_allocated [OF ok] _ l]) (simp add: empty_list_def)
  moreover have "params_in {..<next_param h} h2" using removeIfSubdir_kept(1) [OF ok] assms(4) p s by blast
  ultimately have "unsubscribe_all content h2 (items rm) subs = Inr subs"
    by (intro unsubscribe_foreign [OF f(1)]) (auto simp: params_in_def)
  then show ?thesis using assms(4) s by (simp add: cleanup_autoscans_def)
qed

definition one_dir :: "list_op list" where
  "one_dir = [New_dir ''/b'' False Timed 90, Add_dir 0]"

lemma one_dir_run:
  "list_run one_dir (empty_heap, empty_list) =
     Inr (\<lparr>dirs = (\<lambda>a. default_directory 0)(0 := (default_directory 0)\<lparr>isOrig := True, ad_location := ''/b'', mode := Timed,
             interval := 90, scanID := 0\<rparr>),
           param_ids = (\<lambda>p. INVALID_SCAN_ID)(0 := 0), next_dir = 1, next_param = 1\<rparr>,
          \<lparr>items = [0], indexMap = [(0, Some 0)], origSize = 1\<rparr>)"
  by (simp add: one_dir_def heap_defs)

lemma removal_keeps_subscriptions_witness:
  "\<exists>h e h' subs. list_run one_dir (empty_heap, empty_list) = Inr (h, e) \<and>
     initTimer True 0 7 (h, e) [] = Inr (h', subs) \<and> length subs = 1 \<and>
     (\<exists>s. cleanup_autoscans 7 ''/b'' ((h', e), subs) = Inr (s, subs))"
proof -
  obtain h e where he: "list_run one_dir (empty_heap, empty_list) = Inr (h, e)" by (simp add: one_dir_run)
  then have d: "items e = [0]" "next_dir h = 1" "next_param h = 1" "timer_parameter (dirs h 0) = 0"
    "mode (dirs h 0) = Timed" "interval (dirs h 0) = 90"
    by (auto simp: one_dir_run default_directory_def)
  then obtain h' subs where i: "initTimer True 0 7 (h, e) [] = Inr (h', subs)" "length subs = 1"
    by (simp add: initTimer_def addTimerSubscriber_def Let_def case_prod_beta)
  have "params_in {..<next_param h} h" using d by (simp add: params_in_def)
  moreover have "edit_ok (h, e)" using list_run_ok [OF watch_ok_empty he] by (simp add: watch_ok_def)
  moreover obtain s rm where "removeIfSubdir ''/b'' False (h', e) = (s, rm)" by (metis prod.collapse)
  ultimately have "cleanup_autoscans 7 ''/b'' ((h', e), subs) = Inr (s, subs)"
    using removal_keeps_subscriptions [OF _ _ i(1)] by simp
  then show ?thesis using he i by blast
qed

text \<open>After the \<open>k\<close>-th of the directories is taken out, the timer of every later one addresses its successor:
  the timer looks directories up by their position in the list, the numbers it was given are those of the map.\<close>

theorem removal_shifts_scans:
  assumes "edit_ok (h, e)" and "map (\<lambda>a. scanID (dirs h a)) (items e) = map int [0..<length (items e)]"
    and "\<forall>j < length (items e). takes_dir h path False (items e ! j) \<longleftrightarrow> j = k"
    and "removeIfSubdir path False (h, e) = ((h', e'), rm)" and "k < length (items e)" and "j < length (items e)"
  shows "edit_get (int j) True e' = (if j = k then None else Some (items e ! j)) \<and>
    edit_get (int j) False e' =
      (if j < k then Some (items e ! j) else if j + 1 < length (items e) then Some (items e ! (j + 1)) else None)"
proof
  have id: "scanID (dirs h (items e ! i)) = int i" if "i < length (items e)" for i
    using arg_cong [OF assms(2), of "\<lambda>xs. xs ! i"] that by simp
  have split: "items e = take k (items e) @ items e ! k # drop (Suc k) (items e)"
    by (rule id_take_nth_drop [OF assms(5)])
  have "filter (\<lambda>a. \<not> takes_dir h path False a) (take k (items e)) = take k (items e)"
    using assms(3,5) by (intro filter_True) (auto simp: in_set_conv_nth)
  moreover have "filter (\<lambda>a. \<not> takes_dir h path False a) (drop (Suc k) (items e)) = drop (Suc k) (items e)"
    using assms(3,5) by (intro filter_True) (auto simp: in_set_conv_nth)
  moreover have "takes_dir h path False (items e ! k)" using assms(3,5) by simp
  ultimately have i': "items e' = take k (items e) @ drop (Suc k) (items e)"
    using removeIfSubdir_ok(2) [OF assms(1,4)] arg_cong [OF split, of "filter (\<lambda>a. \<not> takes_dir h path False a)"] by simp
  show "edit_get (int j) False e' =
      (if j < k then Some (items e ! j) else if j + 1 < length (items e) then Some (items e ! (j + 1)) else None)"
    using assms(5,6) by (auto simp: edit_get_def i' nth_append)
  have ok': "edit_ok (h', e')" by (rule removeIfSubdir_ok(1) [OF assms(1,4)])
  show "edit_get (int j) True e' = (if j = k then None else Some (items e ! j))"
  proof (cases "j = k")
    case True
    have "map_of (indexMap e') k = Some None"
      using removeIfSubdir_kept(3) [OF assms(1,4), of "items e ! k"] assms(3,5) id [OF assms(5)] by simp
    then show ?thesis using True by (simp add: edit_get_def)
  next
    case False
    then have "\<not> takes_dir h path False (items e ! j)" using assms(3,6) by blast
    moreover have m: "items e ! j \<in> set (items e)" using assms(6) by simp
    ultimately have "scanID (dirs h' (items e ! j)) = int j" "items e ! j \<in> set (items e')"
      using removeIfSubdir_ok(5) [OF assms(1,4)] edit_ok_allocated [OF assms(1)] id [OF assms(6)]
        removeIfSubdir_ok(2) [OF assms(1,4)] by auto
    then show ?thesis using ok' False by (auto simp: edit_ok_def listed_ok_def edit_get_def)
  qed
qed

lemma removal_shifts_scans_witness:
  "\<exists>h e h' e' rm. list_run three_dirs (empty_heap, empty_list) = Inr (h, e) \<and>
     removeIfSubdir ''/b'' False (h, e) = ((h', e'), rm) \<and>
     edit_get 1 True e' = None \<and> edit_get 1 False e' = Some 2 \<and> edit_get 2 True e' = Some 2 \<and> edit_get 2 False e' = None"
proof -
  obtain h e where he: "list_run three_dirs (empty_heap, empty_list) = Inr (h, e)" using three_dirs_returns by blast
  note f = three_dirs_facts [OF he]
  have d: "map (\<lambda>a. scanID (dirs h a)) (items e) = map int [0..<length (items e)]"
    "\<forall>j < length (items e). takes_dir h ''/b'' False (items e ! j) \<longleftrightarrow> j = 1"
    using f by (auto simp: less_Suc_eq numeral_3_eq_3 upt_rec)
  obtain h' e' rm where rm: "removeIfSubdir ''/b'' False (h, e) = ((h', e'), rm)" by (metis prod.collapse)
  note shift = removal_shifts_scans [OF f(4) d rm]
  show ?thesis using he rm shift [of 1] shift [of 2] f(1) by auto
qed

end
