(* ===== verification/Content_Tasks.thy ===== *)
theory Content_Tasks
  imports Autoscan_Watch Autoscan_Scan Transition
begin

text \<open>
  The tasks of the content manager (\<open>src/src/util/generic_task.h\<close>, \<open>src/src/content/cm_task.cc\<close>,
  \<open>src/src/content/content_manager.cc\<close>) and of the online services
  (\<open>src/src/content/onlineservice/task_processor.cc\<close>): two queues, the thread that works them off, and the
  count of tasks each watched directory keeps. A task object is in one queue or current, never shared between
  them, so it is a value here. What the body of a task does to the library is its environment: it returns, or
  throws one of the two exceptions the thread tells apart.
\<close>

datatype TaskType = Invalid_task | AddFile | RemoveObject | RescanDirectory | FetchOnlineContent

record GenericTask =
  taskType :: TaskType
  parentTaskID :: "32 word"
  taskID :: "32 word"
  task_valid :: bool
  cancellable :: bool
  task_path :: string
  task_adir :: "nat option"

definition new_task :: "TaskType \<Rightarrow> bool \<Rightarrow> string \<Rightarrow> nat option \<Rightarrow> GenericTask" where
  "new_task ty cancel path adir =
     \<lparr>taskType = ty, parentTaskID = 0, taskID = 0, task_valid = True, cancellable = cancel, task_path = path, task_adir = adir\<rparr>"

definition invalidate :: "GenericTask \<Rightarrow> GenericTask" where
  "invalidate t = t\<lparr>task_valid := False\<rparr>"

record content_tasks =
  taskQueue1 :: "GenericTask list"
  taskQueue2 :: "GenericTask list"
  currentTask :: "GenericTask option"
  nextTaskID :: "32 word"
  stopFlag :: bool
  working :: bool
  heap :: scan_heap
  watched :: edit_list
  timer_subs :: "timer_subscriber list"

section \<open>Adding tasks\<close>

definition addTask :: "GenericTask \<Rightarrow> bool \<Rightarrow> content_tasks \<Rightarrow> content_tasks" where
  "addTask task lowPriority s =
     (let t = task\<lparr>taskID := nextTaskID s\<rparr>; s1 = s\<lparr>nextTaskID := nextTaskID s + 1\<rparr>
      in if \<not> lowPriority then s1\<lparr>taskQueue1 := taskQueue1 s1 @ [t]\<rparr> else s1\<lparr>taskQueue2 := taskQueue2 s1 @ [t]\<rparr>)"

definition count_task :: "(AutoscanDirectory \<Rightarrow> AutoscanDirectory) \<Rightarrow> nat option \<Rightarrow> content_tasks \<Rightarrow> content_tasks" where
  "count_task f adir s = (case adir of None \<Rightarrow> s | Some a \<Rightarrow> s\<lparr>heap := update_dir a f (heap s)\<rparr>)"

text \<open>The constructor of \<open>CMAddFileTask\<close> counts the task in its directory.\<close>

definition CMAddFileTask :: "string \<Rightarrow> nat option \<Rightarrow> bool \<Rightarrow> content_tasks \<Rightarrow> GenericTask \<times> content_tasks" where
  "CMAddFileTask path adir cancel s = (new_task AddFile cancel path adir, count_task incTaskCount adir s)"

text \<open>The asynchronous branch of \<open>addFileInternal\<close>; the other one runs \<open>_addFile\<close> in place.\<close>

definition addFile_async :: "string \<Rightarrow> nat option \<Rightarrow> bool \<Rightarrow> 32 word \<Rightarrow> bool \<Rightarrow> content_tasks \<Rightarrow> content_tasks" where
  "addFile_async path adir lowPriority parentTask cancel s =
     (let (task, s1) = CMAddFileTask path adir cancel s
      in addTask (task\<lparr>parentTaskID := parentTask\<rparr>) lowPriority s1)"

definition rescanDirectory :: "nat \<Rightarrow> bool \<Rightarrow> content_tasks \<Rightarrow> content_tasks" where
  "rescanDirectory adir cancel s =
     (let task = new_task RescanDirectory cancel [] (Some adir)
      in addTask task True (count_task incTaskCount (Some adir) s))"

definition timerNotify_content :: "nat \<Rightarrow> content_tasks \<Rightarrow> content_tasks" where
  "timerNotify_content param s =
     (case timerNotify_autoscan param (heap s, watched s) of None \<Rightarrow> s | Some a \<Rightarrow> rescanDirectory a True s)"

section \<open>Invalidating tasks\<close>

definition invalidateAddTask :: "string \<Rightarrow> GenericTask \<Rightarrow> GenericTask" where
  "invalidateAddTask path t = (if taskType t = AddFile \<and> isSubDir (task_path t) path then invalidate t else t)"

definition invalidate_id :: "32 word \<Rightarrow> GenericTask \<Rightarrow> GenericTask" where
  "invalidate_id i t = (if taskID t = i \<or> parentTaskID t = i then invalidate t else t)"

definition map_tasks :: "(GenericTask \<Rightarrow> GenericTask) \<Rightarrow> content_tasks \<Rightarrow> content_tasks" where
  "map_tasks f s = s\<lparr>taskQueue1 := map f (taskQueue1 s), taskQueue2 := map f (taskQueue2 s),
     currentTask := map_option f (currentTask s)\<rparr>"

definition invalidateTask :: "32 word \<Rightarrow> content_tasks \<Rightarrow> content_tasks" where
  "invalidateTask i = map_tasks (invalidate_id i)"

text \<open>\<open>self\<close> is the manager as a subscriber of the timer.\<close>

definition cleanupTasks :: "nat \<Rightarrow> string \<Rightarrow> content_tasks \<Rightarrow> timer_error + content_tasks" where
  "cleanupTasks self path s =
     (if path = [] then Inr s
      else bindE (cleanup_autoscans self path ((heap s, watched s), timer_subs s))
        (\<lambda>((h, e), subs). Inr (map_tasks (invalidateAddTask path) (s\<lparr>heap := h, watched := e, timer_subs := subs\<rparr>))))"

definition removeObject_async :: "nat \<Rightarrow> bool \<Rightarrow> nat option \<Rightarrow> string \<Rightarrow> content_tasks \<Rightarrow> timer_error + content_tasks" where
  "removeObject_async self is_cont adir path s =
     bindE (if is_cont then cleanupTasks self path s else Inr s)
       (\<lambda>s1. Inr (addTask (new_task RemoveObject False [] adir) False s1))"

section \<open>Listing tasks\<close>

text \<open>
  The processor of the online services guards its state by a mutex that is not recursive; a thread that locks it
  again waits for itself, so the call has no result.
\<close>

record task_processor =
  tp_queue :: "GenericTask list"
  tp_current :: "GenericTask option"
  tp_locked :: bool

definition tp_lock :: "task_processor \<Rightarrow> task_processor option" where
  "tp_lock p = (if tp_locked p then None else Some (p\<lparr>tp_locked := True\<rparr>))"

definition tp_getCurrentTask :: "task_processor \<Rightarrow> GenericTask option option" where
  "tp_getCurrentTask p = (case tp_lock p of None \<Rightarrow> None | Some q \<Rightarrow> Some (tp_current q))"

definition tp_getTasklist :: "task_processor \<Rightarrow> GenericTask list option" where
  "tp_getTasklist p =
     (case tp_lock p of None \<Rightarrow> None
      | Some q \<Rightarrow> (case tp_getCurrentTask q of None \<Rightarrow> None
          | Some None \<Rightarrow> Some []
          | Some (Some tc) \<Rightarrow> Some (tc # filter task_valid (tp_queue q))))"

definition tp_invalidateTask :: "32 word \<Rightarrow> task_processor \<Rightarrow> task_processor option" where
  "tp_invalidateTask i p =
     (case tp_lock p of None \<Rightarrow> None
      | Some q \<Rightarrow> (case tp_getCurrentTask q of None \<Rightarrow> None
          | Some tc \<Rightarrow> Some (q\<lparr>tp_current := map_option (invalidate_id i) tc,
              tp_queue := map (invalidate_id i) (tp_queue q), tp_locked := False\<rparr>)))"

text \<open>The processor is there when the server is built with online services.\<close>

definition getTasklist :: "task_processor option \<Rightarrow> content_tasks \<Rightarrow> GenericTask list option" where
  "getTasklist tp s =
     (case (case tp of None \<Rightarrow> Some [] | Some p \<Rightarrow> tp_getTasklist p) of
        None \<Rightarrow> None
      | Some taskList \<Rightarrow>
          (case currentTask s of
             None \<Rightarrow> Some taskList
           | Some t \<Rightarrow>
               Some (fold (\<lambda>task l. if task_valid task then [] else l) (taskQueue2 s)
                 ((taskList @ [t]) @ filter task_valid (taskQueue1 s)))))"

lemma clear_fold: "fold (\<lambda>task l. if task_valid task then [] else l) q l = (if \<exists>t \<in> set q. task_valid t then [] else l)"
  by (induction q arbitrary: l) auto

text \<open>C38: What the page of tasks lists: nothing at all as soon as one valid task of low priority waits, which is every
  rescan; and a server built with online services never answers, because the task processor locks its mutex
  twice in one thread.\<close>

theorem getTasklist_exact:
  "getTasklist tp s =
     (if tp \<noteq> None then None
      else case currentTask s of
        None \<Rightarrow> Some []
      | Some t \<Rightarrow> Some (if \<exists>u \<in> set (taskQueue2 s). task_valid u then [] else t # filter task_valid (taskQueue1 s)))"
proof -
  have "tp_getTasklist p = None" for p
    by (auto simp: tp_getTasklist_def tp_getCurrentTask_def tp_lock_def)
  then show ?thesis by (auto simp: getTasklist_def clear_fold split: option.splits)
qed

lemma unsubscribe_returns: "\<exists>subs'. unsubscribe_all self h cs subs = Inr subs'"
  by (induction cs arbitrary: subs) (auto simp: removeTimerSubscriber_def split: option.splits)

lemma cleanup_returns: "\<exists>h e subs'. cleanup_autoscans self path (s, subs) = Inr ((h, e), subs')"
proof -
  obtain h e rm where r: "removeIfSubdir path False s = ((h, e), rm)" by (metis prod.collapse)
  obtain subs' where "unsubscribe_all self h (items rm) subs = Inr subs'" using unsubscribe_returns by blast
  then show ?thesis using r by (cases s) (simp add: cleanup_autoscans_def)
qed



end
