(* ===== verification/Content_Worker.thy ===== *)
theory Content_Worker
  imports Content_Tasks
begin

text \<open>
  The thread of the content manager (\<open>threadProc\<close> in \<open>src/src/content/content_manager.cc\<close>) among the
  threads that add and invalidate tasks. A step is one region under the lock, or what happens between two of
  them; \<open>scan_env\<close> is what task bodies and requests do to the watched directories meanwhile.
\<close>

datatype worker_pc = W_top | W_wait | W_woken | W_got | W_body | W_end

datatype outcome = Returned | Runtime_error | Server_shutdown

text \<open>One round of the loop up to the unlock.\<close>

definition worker_next :: "content_tasks \<Rightarrow> content_tasks \<times> worker_pc" where
  "worker_next c =
     (if stopFlag c then (c, W_end)
      else (case taskQueue1 c of
          t # ts \<Rightarrow> (c\<lparr>taskQueue1 := ts, currentTask := Some t\<rparr>, W_got)
        | [] \<Rightarrow> (case taskQueue2 c of
            t # ts \<Rightarrow> (c\<lparr>taskQueue2 := ts, currentTask := Some t\<rparr>, W_got)
          | [] \<Rightarrow> (c\<lparr>currentTask := None, working := False\<rparr>, W_wait))))"

text \<open>The end of \<open>run\<close>, after the body returned: \<open>CMAddFileTask\<close> and \<open>CMRescanDirectoryTask\<close> give their count
  back and update the time of the directory.\<close>

definition task_returned :: "GenericTask \<Rightarrow> content_tasks \<Rightarrow> content_tasks" where
  "task_returned t c =
     (if taskType t = AddFile \<or> taskType t = RescanDirectory
      then count_task (\<lambda>d. snd (updateLMT d)) (task_adir t) (count_task decTaskCount (task_adir t) c) else c)"

definition task_done :: "outcome \<Rightarrow> content_tasks \<Rightarrow> content_tasks" where
  "task_done out c =
     (case out of
        Returned \<Rightarrow> (case currentTask c of Some t \<Rightarrow> task_returned t c | None \<Rightarrow> c)
      | Runtime_error \<Rightarrow> c
      | Server_shutdown \<Rightarrow> c\<lparr>stopFlag := True\<rparr>)"

definition after_task :: "content_tasks \<Rightarrow> worker_pc" where
  "after_task c = (if stopFlag c then W_end else W_top)"

text \<open>The ghosts: how many tasks were added, and the numbers of the tasks taken from each queue.\<close>

record worker_system =
  cm :: content_tasks
  wpc :: worker_pc
  posts :: nat
  taken1 :: "32 word list"
  taken2 :: "32 word list"

fun wake_worker :: "worker_pc \<Rightarrow> worker_pc" where
  "wake_worker W_wait = W_woken"
| "wake_worker w = w"

definition post :: "content_tasks \<Rightarrow> worker_system \<Rightarrow> worker_system" where
  "post c s = s\<lparr>cm := c, wpc := wake_worker (wpc s), posts := posts s + 1\<rparr>"

definition scan_env :: "scan_heap \<Rightarrow> scan_heap \<Rightarrow> bool" where
  "scan_env h h' = (next_dir h \<le> next_dir h' \<and> (\<forall>a < next_dir h. taskCount (dirs h' a) = taskCount (dirs h a)))"

definition take_log :: "content_tasks \<Rightarrow> worker_system \<Rightarrow> worker_system" where
  "take_log c s =
     (if stopFlag c then s
      else case taskQueue1 c of
          t # _ \<Rightarrow> s\<lparr>taken1 := taken1 s @ [taskID t]\<rparr>
        | [] \<Rightarrow> (case taskQueue2 c of t # _ \<Rightarrow> s\<lparr>taken2 := taken2 s @ [taskID t]\<rparr> | [] \<Rightarrow> s))"

inductive worker_step :: "worker_system \<Rightarrow> worker_system \<Rightarrow> bool" where
  add_file: "worker_step s (post (addFile_async path adir low parent cancel (cm s)) s)"
| rescan: "worker_step s (post (rescanDirectory a cancel (cm s)) s)"
| timer_scan: "timerNotify_autoscan p (heap (cm s), watched (cm s)) = Some a \<Longrightarrow>
    worker_step s (post (timerNotify_content p (cm s)) s)"
| remove_object: "removeObject_async self isc adir path (cm s) = Inr c \<Longrightarrow> worker_step s (post c s)"
| invalidate_tasks: "worker_step s (s\<lparr>cm := invalidateTask i (cm s)\<rparr>)"
| scans: "scan_env (heap (cm s)) h \<Longrightarrow> \<forall>a \<in> set (items e). a < next_dir h \<Longrightarrow> worker_step s (s\<lparr>cm := (cm s)\<lparr>heap := h, watched := e\<rparr>\<rparr>)"
| stop: "worker_step s (s\<lparr>cm := (cm s)\<lparr>stopFlag := True\<rparr>, wpc := wake_worker (wpc s)\<rparr>)"
| round: "wpc s = W_top \<Longrightarrow> worker_next (cm s) = (c, w) \<Longrightarrow> worker_step s ((take_log (cm s) s)\<lparr>cm := c, wpc := w\<rparr>)"
| woken: "wpc s = W_wait \<or> wpc s = W_woken \<Longrightarrow> worker_step s (s\<lparr>cm := (cm s)\<lparr>working := True\<rparr>, wpc := W_top\<rparr>)"
| start_task: "wpc s = W_got \<Longrightarrow> currentTask (cm s) = Some t \<Longrightarrow> task_valid t \<Longrightarrow> worker_step s (s\<lparr>wpc := W_body\<rparr>)"
| skip_task: "wpc s = W_got \<Longrightarrow> currentTask (cm s) = Some t \<Longrightarrow> \<not> task_valid t \<Longrightarrow>
    worker_step s (s\<lparr>wpc := after_task (cm s)\<rparr>)"
| end_task: "wpc s = W_body \<Longrightarrow> c = task_done out (cm s) \<Longrightarrow> worker_step s (s\<lparr>cm := c, wpc := after_task c\<rparr>)"

definition worker_start :: "worker_system \<Rightarrow> bool" where
  "worker_start s =
     (taskQueue1 (cm s) = [] \<and> taskQueue2 (cm s) = [] \<and> currentTask (cm s) = None \<and> nextTaskID (cm s) = 1 \<and>
      \<not> stopFlag (cm s) \<and> wpc s = W_top \<and> posts s = 0 \<and> taken1 s = [] \<and> taken2 s = [] \<and>
      (\<forall>a \<in> set (items (watched (cm s))). a < next_dir (heap (cm s))) \<and>
      (\<forall>a. taskCount (dirs (heap (cm s)) a) = 0))"

abbreviation "worker_reach \<equiv> reach worker_start worker_step"

section \<open>What adding and invalidating changes\<close>

definition task_sig :: "GenericTask \<Rightarrow> 32 word \<times> TaskType \<times> nat option" where
  "task_sig t = (taskID t, taskType t, task_adir t)"

definition counts :: "nat \<Rightarrow> 32 word \<times> TaskType \<times> nat option \<Rightarrow> bool" where
  "counts a x = (case x of (i, ty, adir) \<Rightarrow> adir = Some a \<and> (ty = AddFile \<or> ty = RescanDirectory))"

abbreviation "count_of a c \<equiv> taskCount (dirs (heap c) a)"

definition same_tasks :: "content_tasks \<Rightarrow> content_tasks \<Rightarrow> bool" where
  "same_tasks c c' =
     (map task_sig (taskQueue1 c') = map task_sig (taskQueue1 c) \<and> map task_sig (taskQueue2 c') = map task_sig (taskQueue2 c) \<and>
      map_option task_sig (currentTask c') = map_option task_sig (currentTask c) \<and> nextTaskID c' = nextTaskID c \<and>
      stopFlag c' = stopFlag c \<and> scan_env (heap c) (heap c'))"

definition adds_task :: "content_tasks \<Rightarrow> content_tasks \<Rightarrow> bool" where
  "adds_task c c' =
     (\<exists>x. fst x = nextTaskID c \<and>
        ((map task_sig (taskQueue1 c') = map task_sig (taskQueue1 c) @ [x] \<and> map task_sig (taskQueue2 c') = map task_sig (taskQueue2 c)) \<or>
         (map task_sig (taskQueue1 c') = map task_sig (taskQueue1 c) \<and> map task_sig (taskQueue2 c') = map task_sig (taskQueue2 c) @ [x])) \<and>
        map_option task_sig (currentTask c') = map_option task_sig (currentTask c) \<and> nextTaskID c' = nextTaskID c + 1 \<and>
        stopFlag c' = stopFlag c \<and> next_dir (heap c) \<le> next_dir (heap c') \<and>
        (\<forall>a < next_dir (heap c). count_of a c' = count_of a c + (if counts a x then 1 else 0)))"

lemma addFile_adds: "adds_task c (addFile_async path adir low p cancel c)"
  unfolding adds_task_def
  by (rule exI [of _ "(nextTaskID c, AddFile, adir)"])
    (auto simp: addFile_async_def CMAddFileTask_def addTask_def count_task_def Let_def task_sig_def new_task_def
      incTaskCount_def counts_def split: option.splits)

lemma rescan_adds: "adds_task c (rescanDirectory a cancel c)"
  unfolding adds_task_def
  by (rule exI [of _ "(nextTaskID c, RescanDirectory, Some a)"])
    (auto simp: rescanDirectory_def addTask_def count_task_def Let_def task_sig_def new_task_def
      incTaskCount_def counts_def)

lemma map_tasks_same:
  assumes "\<And>t. task_sig (f t) = task_sig t"
  shows "same_tasks c (map_tasks f c)"
  using assms by (auto simp: same_tasks_def map_tasks_def scan_env_def option.map_comp comp_def intro!: option.map_cong)

lemma sig_invalidate: "task_sig (invalidate_id i t) = task_sig t" "task_sig (invalidateAddTask path t) = task_sig t"
  by (simp_all add: invalidate_id_def invalidateAddTask_def invalidate_def task_sig_def)

lemma take_out_counts:
  assumes a: "a < next_dir h" and t: "take_out a (h, imap, rm) = (h', imap', rm')"
  shows "scan_env h h'"
proof -
  obtain h2 where h2: "edit_add (next_dir h) None (copied_heap a h, rm) = (h2, rm')" "h' = setInvalid a h2"
    using t unfolding take_out_eq [OF a] by (auto split: prod.splits)
  have e: "h2 = fst (edit_add (next_dir h) None (copied_heap a h, rm))" using h2(1) by simp
  have "taskCount (dirs h2 b) = taskCount (dirs h b)" if "b < next_dir h" for b
    using that unfolding e by (simp add: edit_add_heap copied_heap_simps)
  then show ?thesis using take_out_heap(1) [OF a t] by (simp add: scan_env_def h2(2))
qed

lemma scan_env_trans: "scan_env h h1 \<Longrightarrow> scan_env h1 h2 \<Longrightarrow> scan_env h h2"
  by (auto simp: scan_env_def)

lemma subdir_loop_counts:
  "\<forall>a \<in> set as. a < next_dir h \<Longrightarrow> subdir_loop parent persistent as (h, imap, rm) = (kept, h', imap', rm') \<Longrightarrow> scan_env h h'"
proof (induction as arbitrary: h imap rm kept)
  case Nil
  then show ?case by (simp add: scan_env_def)
next
  case (Cons a as)
  show ?case
  proof (cases "takes_dir h parent persistent a")
    case True
    obtain h1 imap1 rm1 where t: "take_out a (h, imap, rm) = (h1, imap1, rm1)" by (cases "take_out a (h, imap, rm)")
    have a: "a < next_dir h" using Cons.prems(1) by simp
    have "\<forall>b \<in> set as. b < next_dir h1" using Cons.prems(1) take_out_heap(1) [OF a t] by (simp add: less_SucI)
    moreover have "subdir_loop parent persistent as (h1, imap1, rm1) = (kept, h', imap', rm')"
      using Cons.prems(2) True t by simp
    ultimately have "scan_env h1 h'" by (rule Cons.IH)
    then show ?thesis using take_out_counts [OF a t] scan_env_trans by blast
  next
    case False
    then obtain kept1 where k: "subdir_loop parent persistent as (h, imap, rm) = (kept1, h', imap', rm')"
      using Cons.prems(2) by (auto split: prod.splits)
    have "\<forall>b \<in> set as. b < next_dir h" using Cons.prems(1) by simp
    then show ?thesis using k by (rule Cons.IH)
  qed
qed

definition listed_allocated :: "content_tasks \<Rightarrow> bool" where
  "listed_allocated c = (\<forall>a \<in> set (items (watched c)). a < next_dir (heap c))"

lemma subdir_loop_subset: "set (fst (subdir_loop parent persistent as s)) \<subseteq> set as"
  by (induction parent persistent as s rule: subdir_loop.induct) (auto split: prod.splits)

lemma cleanup_counts:
  assumes "\<forall>a \<in> set (items e). a < next_dir h" and "cleanup_autoscans self path ((h, e), subs) = Inr ((h', e'), subs')"
  shows "scan_env h h'" and "\<forall>a \<in> set (items e'). a < next_dir h'"
proof -
  have "scan_env h h' \<and> (\<forall>a \<in> set (items e'). a < next_dir h')"
  proof (cases "path = []")
    case True
    then show ?thesis using assms by (simp add: cleanup_autoscans_def scan_env_def)
  next
    case False
    obtain kept h1 imap rm where l: "subdir_loop path False (items e) (h, indexMap e, empty_list) = (kept, h1, imap, rm)"
      by (metis prod.collapse)
    have r: "h' = h1" "items e' = kept"
      using assms(2) False l
      by (auto simp: cleanup_autoscans_def removeIfSubdir_def bindE_Inr_iff split: prod.splits)
    have "scan_env h h1" by (rule subdir_loop_counts [OF assms(1) l])
    moreover have "set kept \<subseteq> set (items e)"
      using subdir_loop_subset [of path False "items e" "(h, indexMap e, empty_list)"] l by simp
    ultimately show ?thesis using r assms(1) by (fastforce simp: scan_env_def)
  qed
  then show "scan_env h h'" "\<forall>a \<in> set (items e'). a < next_dir h'" by auto
qed

lemma listed_allocated_same: "watched c' = watched c \<Longrightarrow> heap c' = heap c \<Longrightarrow> listed_allocated c \<Longrightarrow> listed_allocated c'"
  by (simp add: listed_allocated_def)

lemma remove_adds:
  assumes ok: "listed_allocated c" and r: "removeObject_async self isc adir path c = Inr c'"
  shows "adds_task c c'" and "listed_allocated c'"
proof -
  obtain c1 where c1: "(if isc then cleanupTasks self path c else Inr c) = Inr c1"
    "c' = addTask (new_task RemoveObject False [] adir) False c1"
    using r by (auto simp: removeObject_async_def bindE_Inr_iff)
  have same: "same_tasks c c1 \<and> listed_allocated c1"
  proof (cases "isc \<and> path \<noteq> []")
    case False
    then have "c1 = c" using c1(1) by (auto simp: cleanupTasks_def split: if_splits)
    then show ?thesis using ok by (simp add: same_tasks_def scan_env_def)
  next
    case True
    then obtain h e subs where k: "cleanup_autoscans self path ((heap c, watched c), timer_subs c) = Inr ((h, e), subs)"
      "c1 = map_tasks (invalidateAddTask path) (c\<lparr>heap := h, watched := e, timer_subs := subs\<rparr>)"
      using c1(1) by (auto simp: cleanupTasks_def bindE_Inr_iff)
    have "scan_env (heap c) h" "\<forall>a \<in> set (items e). a < next_dir h"
      using cleanup_counts [OF _ k(1)] ok by (auto simp: listed_allocated_def)
    moreover have "same_tasks (c\<lparr>heap := h, watched := e, timer_subs := subs\<rparr>) c1"
      unfolding k(2) by (rule map_tasks_same) (rule sig_invalidate)
    ultimately show ?thesis by (auto simp: same_tasks_def k(2) map_tasks_def listed_allocated_def)
  qed
  then show "adds_task c c'"
    unfolding adds_task_def c1(2)
    by (intro exI [of _ "(nextTaskID c, RemoveObject, adir)"])
      (auto simp: addTask_def Let_def same_tasks_def task_sig_def new_task_def counts_def scan_env_def)
  show "listed_allocated c'" using same by (simp add: c1(2) addTask_def Let_def listed_allocated_def)
qed

lemma add_allocated:
  "listed_allocated c \<Longrightarrow> listed_allocated (addFile_async path adir low p cancel c)"
  "listed_allocated c \<Longrightarrow> listed_allocated (rescanDirectory a cancel c)"
  by (simp_all add: addFile_async_def CMAddFileTask_def rescanDirectory_def addTask_def count_task_def Let_def
      listed_allocated_def split: option.splits)

lemma task_done_simps:
  "taskQueue1 (task_done out c) = taskQueue1 c" "taskQueue2 (task_done out c) = taskQueue2 c"
  "currentTask (task_done out c) = currentTask c" "nextTaskID (task_done out c) = nextTaskID c"
  "next_dir (heap (task_done out c)) = next_dir (heap c)" "watched (task_done out c) = watched c"
  by (auto simp: task_done_def task_returned_def count_task_def split: outcome.splits option.splits)

text \<open>The steps in four kinds, for the proofs below.\<close>

lemma worker_step_kinds:
  assumes "worker_step s t" and "listed_allocated (cm s)"
  obtains (K_add) c where "t = post c s" "adds_task (cm s) c" "listed_allocated c"
  | (K_same) w where "same_tasks (cm s) (cm t)" "listed_allocated (cm t)" "t = s\<lparr>cm := cm t, wpc := w\<rparr>"
      "w = wpc s \<or> (w = W_top \<and> (wpc s = W_wait \<or> wpc s = W_woken)) \<or> (w = W_body \<and> wpc s = W_got)"
  | (K_stop) "t = s\<lparr>cm := (cm s)\<lparr>stopFlag := True\<rparr>, wpc := wake_worker (wpc s)\<rparr>"
  | (K_round) c w where "wpc s = W_top" "worker_next (cm s) = (c, w)" "t = (take_log (cm s) s)\<lparr>cm := c, wpc := w\<rparr>"
  | (K_skip) x where "wpc s = W_got" "currentTask (cm s) = Some x" "\<not> task_valid x" "t = s\<lparr>wpc := after_task (cm s)\<rparr>"
  | (K_finish) out where "wpc s = W_body" "t = s\<lparr>cm := task_done out (cm s), wpc := after_task (task_done out (cm s))\<rparr>"
  using assms(1)
proof (cases rule: worker_step.cases)
  case (add_file path adir low parent cancel)
  then show ?thesis using K_add addFile_adds add_allocated(1) [OF assms(2)] by blast
next
  case (rescan a cancel)
  then show ?thesis using K_add rescan_adds add_allocated(2) [OF assms(2)] by blast
next
  case (timer_scan p a)
  then have "timerNotify_content p (cm s) = rescanDirectory a True (cm s)" by (simp add: timerNotify_content_def)
  then show ?thesis using timer_scan(1) K_add rescan_adds add_allocated(2) [OF assms(2)] by metis
next
  case (remove_object self isc adir path c)
  then show ?thesis using remove_adds [OF assms(2)] K_add by blast
next
  case (invalidate_tasks i)
  have "same_tasks (cm s) (cm t)"
    unfolding invalidate_tasks by (simp add: invalidateTask_def) (rule map_tasks_same, rule sig_invalidate)
  then show ?thesis
    using K_same [of "wpc s"] assms(2) invalidate_tasks by (simp add: invalidateTask_def map_tasks_def listed_allocated_def)
next
  case (scans h e)
  then show ?thesis using K_same [of "wpc s"] by (simp add: same_tasks_def listed_allocated_def)
next
  case stop
  then show ?thesis by (rule K_stop)
next
  case (round c w)
  from this(2,3,1) show ?thesis by (rule K_round)
next
  case woken
  then show ?thesis using K_same [of W_top] assms(2) by (simp add: same_tasks_def scan_env_def listed_allocated_def)
next
  case (start_task x)
  then show ?thesis using K_same [of W_body] assms(2) by (simp add: same_tasks_def scan_env_def)
next
  case (skip_task x)
  from this(2,3,4,1) show ?thesis by (rule K_skip)
next
  case (end_task c out)
  then show ?thesis using K_finish [of out] by simp
qed

section \<open>Every task once, in its order\<close>

definition high_tasks :: "worker_system \<Rightarrow> nat list" where
  "high_tasks s = map unat (taken1 s @ map taskID (taskQueue1 (cm s)))"

definition low_tasks :: "worker_system \<Rightarrow> nat list" where
  "low_tasks s = map unat (taken2 s @ map taskID (taskQueue2 (cm s)))"

definition in_order :: "worker_system \<Rightarrow> bool" where
  "in_order s =
     (nextTaskID (cm s) = of_nat (posts s + 1) \<and> sorted_wrt (<) (high_tasks s) \<and> sorted_wrt (<) (low_tasks s) \<and>
      set (high_tasks s) \<inter> set (low_tasks s) = {} \<and> set (high_tasks s) \<union> set (low_tasks s) = {1..posts s})"

definition worker_inv :: "worker_system \<Rightarrow> bool" where
  "worker_inv s =
     (listed_allocated (cm s) \<and> (posts s < 2 ^ 32 \<longrightarrow> in_order s) \<and>
      (wpc s = W_got \<or> wpc s = W_body \<longrightarrow> currentTask (cm s) \<noteq> None) \<and>
      (wpc s = W_wait \<longrightarrow> taskQueue1 (cm s) = [] \<and> taskQueue2 (cm s) = [] \<and> \<not> stopFlag (cm s)))"

lemma ids_of_sigs: "map taskID q = map fst (map task_sig q)"
  by (simp add: task_sig_def)

lemma sorted_snoc: "sorted_wrt (<) xs \<Longrightarrow> set xs \<subseteq> {1..n} \<Longrightarrow> sorted_wrt (<) (xs @ [Suc n])"
  by (auto simp: sorted_wrt_append)

lemma adds_order:
  assumes "in_order s" and "adds_task (cm s) c" and "posts s + 1 < 2 ^ 32"
  shows "in_order (post c s)"
proof -
  obtain x where x: "fst x = nextTaskID (cm s)" "nextTaskID c = nextTaskID (cm s) + 1"
    "(map task_sig (taskQueue1 c) = map task_sig (taskQueue1 (cm s)) @ [x] \<and> map task_sig (taskQueue2 c) = map task_sig (taskQueue2 (cm s))) \<or>
     (map task_sig (taskQueue1 c) = map task_sig (taskQueue1 (cm s)) \<and> map task_sig (taskQueue2 c) = map task_sig (taskQueue2 (cm s)) @ [x])"
    using assms(2) by (auto simp: adds_task_def)
  have n: "unat (fst x) = Suc (posts s)"
    using assms(1,3) by (simp add: x(1) in_order_def unsigned_of_nat take_bit_nat_eq_self del: of_nat_Suc of_nat_add)
  have "(high_tasks (post c s) = high_tasks s @ [Suc (posts s)] \<and> low_tasks (post c s) = low_tasks s) \<or>
      (high_tasks (post c s) = high_tasks s \<and> low_tasks (post c s) = low_tasks s @ [Suc (posts s)])"
    using x(3) n unfolding high_tasks_def low_tasks_def ids_of_sigs by (auto simp: post_def simp del: map_map)
  moreover have "set (high_tasks s) \<subseteq> {1..posts s}" "set (low_tasks s) \<subseteq> {1..posts s}"
    using assms(1) unfolding in_order_def by blast+
  moreover from this have "Suc (posts s) \<notin> set (high_tasks s)" "Suc (posts s) \<notin> set (low_tasks s)" by auto
  moreover have "nextTaskID c = of_nat (posts s + 1 + 1)" using assms(1) by (simp add: x(2) in_order_def)
  ultimately show ?thesis
    using assms(1) sorted_snoc [of "high_tasks s" "posts s"] sorted_snoc [of "low_tasks s" "posts s"]
    by (elim disjE conjE) (simp_all add: in_order_def post_def atLeastAtMostSuc_conv)
qed

lemma worker_init: "worker_start s \<Longrightarrow> worker_inv s"
  by (simp add: worker_start_def worker_inv_def in_order_def high_tasks_def low_tasks_def listed_allocated_def)

lemma same_order:
  assumes "same_tasks (cm s) (cm t)" and "t = s\<lparr>cm := cm t, wpc := w\<rparr>"
  shows "in_order t = in_order s"
proof -
  have "taken1 t = taken1 s" "taken2 t = taken2 s" "posts t = posts s" by (subst assms(2), simp)+
  then show ?thesis using assms(1) by (simp add: in_order_def high_tasks_def low_tasks_def ids_of_sigs same_tasks_def)
qed

lemma round_facts:
  assumes "worker_next (cm s) = (c, w)"
  shows "high_tasks ((take_log (cm s) s)\<lparr>cm := c, wpc := w\<rparr>) = high_tasks s"
    and "low_tasks ((take_log (cm s) s)\<lparr>cm := c, wpc := w\<rparr>) = low_tasks s"
    and "nextTaskID c = nextTaskID (cm s)" and "posts (take_log (cm s) s) = posts s"
    and "heap c = heap (cm s)" and "watched c = watched (cm s)" and "stopFlag c = stopFlag (cm s)"
    and "w = W_got \<Longrightarrow> currentTask c \<noteq> None" and "w \<noteq> W_body"
    and "w = W_wait \<Longrightarrow> taskQueue1 c = [] \<and> taskQueue2 c = [] \<and> \<not> stopFlag c"
  using assms
  by (auto simp: worker_next_def take_log_def high_tasks_def low_tasks_def split: if_splits list.splits)

lemma wake_worker_simps [simp]: "wake_worker w \<noteq> W_wait" "wake_worker w = W_got \<longleftrightarrow> w = W_got" "wake_worker w = W_body \<longleftrightarrow> w = W_body"
  by (cases w; simp)+

lemma worker_inv_step:
  assumes "worker_step s t" and "worker_inv s"
  shows "worker_inv t"
proof -
  have al: "listed_allocated (cm s)" using assms(2) by (simp add: worker_inv_def)
  show ?thesis
    using assms(1) al
  proof (cases rule: worker_step_kinds)
    case (K_add c)
    then have "in_order t" if "posts t < 2 ^ 32" using adds_order [OF _ K_add(2)] that assms(2) by (simp add: worker_inv_def post_def)
    moreover have "currentTask c = None \<longleftrightarrow> currentTask (cm s) = None" using K_add(2) by (auto simp: adds_task_def)
    ultimately show ?thesis using K_add(1,3) assms(2) by (auto simp: worker_inv_def post_def)
  next
    case (K_same w)
    have "wpc t = w" "posts t = posts s" by (subst K_same(3), simp)+
    moreover have "in_order t = in_order s" by (rule same_order [OF K_same(1,3)])
    moreover have "currentTask (cm t) = None \<longleftrightarrow> currentTask (cm s) = None" "taskQueue1 (cm t) = [] \<longleftrightarrow> taskQueue1 (cm s) = []"
      "taskQueue2 (cm t) = [] \<longleftrightarrow> taskQueue2 (cm s) = []" "stopFlag (cm t) = stopFlag (cm s)"
      using K_same(1) by (auto simp: same_tasks_def)
    ultimately show ?thesis using K_same(2,4) assms(2) by (elim disjE conjE) (simp_all add: worker_inv_def)
  next
    case K_stop
    show ?thesis
      using assms(2) by (simp add: K_stop worker_inv_def in_order_def high_tasks_def low_tasks_def listed_allocated_def)
  next
    case (K_round c w)
    note f = round_facts [OF K_round(2)]
    have "in_order t = in_order s" unfolding in_order_def K_round(3) f(1,2) by (simp add: f(3,4))
    moreover have "cm t = c" "wpc t = w" "posts t = posts s" by (simp_all add: K_round(3) f(4))
    moreover have "listed_allocated c" using al by (simp add: listed_allocated_def f(5,6))
    moreover have "w = W_got \<or> w = W_body \<longrightarrow> currentTask c \<noteq> None" using f(8,9) by blast
    moreover have "w = W_wait \<longrightarrow> taskQueue1 c = [] \<and> taskQueue2 c = [] \<and> \<not> stopFlag c" using f(10) by blast
    ultimately show ?thesis using assms(2) by (simp add: worker_inv_def)
  next
    case (K_skip x)
    then show ?thesis
      using assms(2) by (simp add: worker_inv_def in_order_def high_tasks_def low_tasks_def after_task_def)
  next
    case (K_finish out)
    then show ?thesis
      using assms(2) by (simp add: worker_inv_def in_order_def high_tasks_def low_tasks_def after_task_def task_done_simps listed_allocated_def)
  qed
qed

interpretation worker: step_invariant worker_start worker_step worker_inv
  by unfold_locales (auto intro: worker_init worker_inv_step)

text \<open>C8: However threads add and invalidate tasks while the manager's thread works, until the number of tasks wraps
  around at 32 bits every task is in exactly one place, taken or queued, once, and tasks of one priority are
  taken in the order in which they were added.\<close>

theorem tasks_exactly_once:
  assumes "worker_reach s" and "posts s < 2 ^ 32"
  shows "sorted_wrt (<) (map unat (taken1 s @ map taskID (taskQueue1 (cm s)))) \<and>
    sorted_wrt (<) (map unat (taken2 s @ map taskID (taskQueue2 (cm s)))) \<and>
    set (high_tasks s) \<inter> set (low_tasks s) = {} \<and> set (high_tasks s) \<union> set (low_tasks s) = {1..posts s}"
  using worker.reach_inv [OF assms(1)] assms(2)
  by (simp only: worker_inv_def in_order_def high_tasks_def low_tasks_def simp_thms)

text \<open>C16: The thread never sleeps while a task waits or a shutdown was asked for: such a state always finds it awake
  or woken.\<close>

theorem worker_no_lost_wakeup:
  assumes "worker_reach s" and "wpc s = W_wait"
  shows "taskQueue1 (cm s) = [] \<and> taskQueue2 (cm s) = [] \<and> \<not> stopFlag (cm s)"
  using worker.reach_inv [OF assms(1)] assms(2) by (simp add: worker_inv_def)

end
