(* ===== verification/Content_Counts.thy ===== *)
theory Content_Counts
  imports Content_Worker
begin

text \<open>
  The count of tasks a watched directory keeps, against the tasks of it that are queued or running. The
  periodic scan of a directory waits until its count is zero.
\<close>

definition running_sigs :: "worker_system \<Rightarrow> (32 word \<times> TaskType \<times> nat option) list" where
  "running_sigs s =
     (if wpc s = W_got \<or> wpc s = W_body then (case currentTask (cm s) of Some t \<Rightarrow> [task_sig t] | None \<Rightarrow> []) else [])"

definition number_of :: "nat \<Rightarrow> (32 word \<times> TaskType \<times> nat option) list \<Rightarrow> nat" where
  "number_of a q = length (filter (counts a) q)"

definition open_tasks :: "nat \<Rightarrow> worker_system \<Rightarrow> nat" where
  "open_tasks a s = number_of a (map task_sig (taskQueue1 (cm s))) + number_of a (map task_sig (taskQueue2 (cm s))) +
     number_of a (running_sigs s)"

lemma number_of_simps [simp]:
  "number_of a [] = 0" "number_of a (x # q) = (if counts a x then 1 else 0) + number_of a q"
  "number_of a (p @ q) = number_of a p + number_of a q"
  by (simp_all add: number_of_def)

text \<open>How many tasks the directory counts that are neither queued nor running.\<close>

definition unsettled :: "nat \<Rightarrow> worker_system \<Rightarrow> int" where
  "unsettled a s = count_of a (cm s) - int (open_tasks a s)"

lemma current_sig_case:
  "map_option task_sig x = map_option task_sig y \<Longrightarrow>
   (case x of Some t \<Rightarrow> [task_sig t] | None \<Rightarrow> []) = (case y of Some t \<Rightarrow> [task_sig t] | None \<Rightarrow> [])"
  by (cases x; cases y) auto

lemma adds_unsettled:
  assumes "adds_task (cm s) c" and "a < next_dir (heap (cm s))"
  shows "unsettled a (post c s) = unsettled a s"
proof -
  obtain x where x:
    "(map task_sig (taskQueue1 c) = map task_sig (taskQueue1 (cm s)) @ [x] \<and> map task_sig (taskQueue2 c) = map task_sig (taskQueue2 (cm s))) \<or>
     (map task_sig (taskQueue1 c) = map task_sig (taskQueue1 (cm s)) \<and> map task_sig (taskQueue2 c) = map task_sig (taskQueue2 (cm s)) @ [x])"
    "map_option task_sig (currentTask c) = map_option task_sig (currentTask (cm s))"
    "count_of a c = count_of a (cm s) + (if counts a x then 1 else 0)"
    using assms by (auto simp: adds_task_def)
  have "open_tasks a (post c s) = open_tasks a s + (if counts a x then 1 else 0)"
    using x(1) current_sig_case [OF x(2)] by (elim disjE conjE) (simp_all add: open_tasks_def running_sigs_def post_def)
  then show ?thesis using x(3) by (cases "counts a x") (simp_all add: unsettled_def post_def)
qed

lemma same_unsettled:
  assumes "same_tasks (cm s) (cm t)" and "a < next_dir (heap (cm s))"
    and "(wpc t = W_got \<or> wpc t = W_body) \<longleftrightarrow> (wpc s = W_got \<or> wpc s = W_body)"
  shows "unsettled a t = unsettled a s"
proof -
  have c: "map_option task_sig (currentTask (cm t)) = map_option task_sig (currentTask (cm s))"
    "map task_sig (taskQueue1 (cm t)) = map task_sig (taskQueue1 (cm s))"
    "map task_sig (taskQueue2 (cm t)) = map task_sig (taskQueue2 (cm s))"
    "count_of a (cm t) = count_of a (cm s)"
    using assms(1,2) by (simp_all add: same_tasks_def scan_env_def)
  then have "running_sigs t = running_sigs s" using current_sig_case [OF c(1)] assms(3) by (simp add: running_sigs_def)
  then show ?thesis using c(2,3,4) by (simp add: unsettled_def open_tasks_def)
qed

lemma round_unsettled:
  assumes "wpc s = W_top" and "worker_next (cm s) = (c, w)"
  shows "unsettled a ((take_log (cm s) s)\<lparr>cm := c, wpc := w\<rparr>) = unsettled a s"
  using assms
  by (auto simp: worker_next_def take_log_def unsettled_def open_tasks_def running_sigs_def split: if_splits list.splits)

text \<open>A task that is skipped, or whose body throws, leaves its count behind.\<close>

definition drops_count :: "nat \<Rightarrow> GenericTask \<Rightarrow> bool" where
  "drops_count a t = counts a (task_sig t)"

lemma skip_unsettled:
  assumes "wpc s = W_got" and "currentTask (cm s) = Some x"
  shows "unsettled a (s\<lparr>wpc := after_task (cm s)\<rparr>) = unsettled a s + (if drops_count a x then 1 else 0)"
  using assms by (cases "counts a (task_sig x)") (simp_all add: unsettled_def open_tasks_def running_sigs_def after_task_def drops_count_def)

lemma returned_count:
  "count_of a (task_returned x c) = count_of a c - (if counts a (task_sig x) then 1 else 0)"
  by (auto simp: task_returned_def count_task_def counts_def task_sig_def decTaskCount_def updateLMT_def split: option.splits)

lemma task_returned_queues:
  "taskQueue1 (task_returned x c) = taskQueue1 c" "taskQueue2 (task_returned x c) = taskQueue2 c"
  by (simp_all add: task_returned_def count_task_def split: option.split)

lemma finish_unsettled:
  assumes "wpc s = W_body" and "currentTask (cm s) = Some x"
  shows "unsettled a (s\<lparr>cm := task_done out (cm s), wpc := after_task (task_done out (cm s))\<rparr>) =
    unsettled a s + (if drops_count a x \<and> out \<noteq> Returned then 1 else 0)"
  using assms returned_count [of x "cm s" a]
  by (cases out; cases "counts a (task_sig x)")
    (simp_all add: unsettled_def open_tasks_def running_sigs_def after_task_def drops_count_def task_done_simps task_done_def
      task_returned_queues)

lemma step_unsettled:
  assumes "worker_step s t" and "worker_inv s" and "a < next_dir (heap (cm s))"
  shows "unsettled a s \<le> unsettled a t \<and> next_dir (heap (cm s)) \<le> next_dir (heap (cm t))"
proof -
  have al: "listed_allocated (cm s)" using assms(2) by (simp add: worker_inv_def)
  show ?thesis
    using assms(1) al
  proof (cases rule: worker_step_kinds)
    case (K_add c)
    then show ?thesis using adds_unsettled [OF K_add(2) assms(3)] by (auto simp: adds_task_def post_def)
  next
    case (K_same w)
    have "wpc t = w" by (subst K_same(3)) simp
    then have "(wpc t = W_got \<or> wpc t = W_body) \<longleftrightarrow> (wpc s = W_got \<or> wpc s = W_body)"
      using K_same(4) by (elim disjE conjE) simp_all
    then show ?thesis using same_unsettled [OF K_same(1) assms(3)] K_same(1) by (simp add: same_tasks_def scan_env_def)
  next
    case K_stop
    then show ?thesis by (simp add: unsettled_def open_tasks_def running_sigs_def)
  next
    case (K_round c w)
    then show ?thesis using round_unsettled [OF K_round(1,2)] round_facts(5) [OF K_round(2)] by simp
  next
    case (K_skip x)
    then show ?thesis using skip_unsettled [OF K_skip(1,2)] by simp
  next
    case (K_finish out)
    obtain x where "currentTask (cm s) = Some x" using assms(2) K_finish(1) by (auto simp: worker_inv_def)
    then show ?thesis using finish_unsettled [OF K_finish(1)] K_finish(2) by (simp add: task_done_simps)
  qed
qed

lemma run_unsettled:
  "worker_step\<^sup>*\<^sup>* s t \<Longrightarrow> worker_inv s \<Longrightarrow> a < next_dir (heap (cm s)) \<Longrightarrow>
   unsettled a s \<le> unsettled a t \<and> next_dir (heap (cm s)) \<le> next_dir (heap (cm t))"
proof (induction rule: rtranclp_induct)
  case (step t u)
  then have "worker_inv t" using worker.run_inv by blast
  then show ?case using step step_unsettled [of t u a] by fastforce
qed simp



section \<open>Runs\<close>

text \<open>One directory; a file is to be added below it, and the task is invalidated before the thread starts it.\<close>

definition start_tasks :: content_tasks where
  "start_tasks = \<lparr>taskQueue1 = [], taskQueue2 = [], currentTask = None, nextTaskID = 1, stopFlag = False, working = True,
     heap = empty_heap\<lparr>next_dir := 1\<rparr>, watched = empty_list\<lparr>items := [0]\<rparr>, timer_subs = []\<rparr>"

definition start_worker :: worker_system where
  "start_worker = \<lparr>cm = start_tasks, wpc = W_top, posts = 0, taken1 = [], taken2 = []\<rparr>"

definition added :: worker_system where
  "added = post (addFile_async ''/m/a'' (Some 0) False 0 True start_tasks) start_worker"

definition invalidated :: worker_system where
  "invalidated = added\<lparr>cm := invalidateTask 1 (cm added)\<rparr>"

definition got :: worker_system where
  "got = (take_log (cm invalidated) invalidated)\<lparr>cm := fst (worker_next (cm invalidated)), wpc := snd (worker_next (cm invalidated))\<rparr>"

lemmas trace_defs = start_worker_def start_tasks_def added_def invalidated_def got_def post_def addFile_async_def
  CMAddFileTask_def new_task_def count_task_def addTask_def Let_def invalidateTask_def map_tasks_def invalidate_id_def
  invalidate_def worker_next_def take_log_def empty_heap_def empty_list_def incTaskCount_def default_directory_def

lemma start_ok: "worker_start start_worker"
  by (simp add: worker_start_def trace_defs)

lemma trace_steps: "worker_step start_worker added" "worker_step added invalidated" "worker_step invalidated got"
proof -
  show "worker_step start_worker added"
    using worker_step.add_file [of start_worker "''/m/a''" "Some 0" False 0 True] by (simp add: added_def start_worker_def)
  show "worker_step added invalidated" unfolding invalidated_def by (rule worker_step.invalidate_tasks)
  have "wpc invalidated = W_top" by (simp add: trace_defs)
  then show "worker_step invalidated got" unfolding got_def by (rule worker_step.round) simp
qed

lemma got_facts:
  "wpc got = W_got" "\<exists>x. currentTask (cm got) = Some x \<and> \<not> task_valid x \<and> counts 0 (task_sig x)"
  "taken1 got = [1]" "posts got = 1" "next_dir (heap (cm got)) = 1"
  by (simp_all add: trace_defs task_sig_def counts_def)

lemma got_reachable: "worker_reach got" "worker_step\<^sup>*\<^sup>* start_worker got"
proof -
  have "worker_reach start_worker" using start_ok by (rule reach.reach_init)
  then have "worker_reach added" using trace_steps(1) by (rule reach.reach_step)
  then have "worker_reach invalidated" using trace_steps(2) by (rule reach.reach_step)
  then show "worker_reach got" using trace_steps(3) by (rule reach.reach_step)
  have "worker_step\<^sup>*\<^sup>* start_worker added" using trace_steps(1) by (rule r_into_rtranclp)
  then have "worker_step\<^sup>*\<^sup>* start_worker invalidated" using trace_steps(2) by (rule rtranclp.rtrancl_into_rtrancl)
  then show "worker_step\<^sup>*\<^sup>* start_worker got" using trace_steps(3) by (rule rtranclp.rtrancl_into_rtrancl)
qed

lemma tasks_exactly_once_witness:
  "set (high_tasks got) \<inter> set (low_tasks got) = {} \<and> set (high_tasks got) \<union> set (low_tasks got) = {1}"
  using tasks_exactly_once [OF got_reachable(1)] by (simp add: got_facts)

lemma worker_no_lost_wakeup_witness:
  "\<exists>s. worker_reach s \<and> wpc s = W_wait \<and> taskQueue1 (cm s) = [] \<and> taskQueue2 (cm s) = [] \<and> \<not> stopFlag (cm s)"
proof -
  let ?s = "(take_log (cm start_worker) start_worker)\<lparr>cm := fst (worker_next (cm start_worker)), wpc := snd (worker_next (cm start_worker))\<rparr>"
  have "wpc start_worker = W_top" by (simp add: start_worker_def)
  then have "worker_step start_worker ?s" by (rule worker_step.round) simp
  with reach.reach_init [of worker_start, OF start_ok] have r: "worker_reach ?s" by (rule reach.reach_step)
  moreover have "wpc ?s = W_wait" by (simp add: trace_defs)
  ultimately show ?thesis using worker_no_lost_wakeup [OF r] by blast
qed



end
