(* ===== verification/Autoscan_Edit.thy ===== *)
theory Autoscan_Edit
  imports Content_Tasks CDS_Objects
begin

text \<open>
  Adding, editing and removing watched directories (\<open>setAutoscanDirectory\<close>, \<open>removeAutoscanDirectory\<close> and
  \<open>scanDir\<close> in \<open>src/src/content/content_manager.cc\<close>). The pages of the web interface
  (\<open>src/src/web/web_autoscan.cc\<close>) call them with a directory object of their own: under the number of the
  listed one when the page shows the file system, without a number when it shows the database.
  The database is the environment: whether directories overlap, the object loaded for an identifier and the
  key of a new row are parameters.
\<close>

datatype edit_error = Not_an_autoscan | Overlapping | Illegal_object | No_location | Timer_failed timer_error

definition CDS_ID_FS_ROOT :: int where
  "CDS_ID_FS_ROOT = 1"

definition scanDir :: "nat \<Rightarrow> content_tasks \<Rightarrow> content_tasks" where
  "scanDir a s =
     (let (h, e) = scanDir_add a (heap s, watched s); s1 = s\<lparr>heap := h, watched := e\<rparr>
      in if mode (dirs h a) = Timed then timerNotify_content (timer_parameter (dirs h a)) s1 else s1)"

definition remove_timer :: "nat \<Rightarrow> AutoscanDirectory \<Rightarrow> content_tasks \<Rightarrow> edit_error + content_tasks" where
  "remove_timer self d s =
     (if mode d = Timed then
        (case removeTimerSubscriber self (Some (timer_parameter d)) True (timer_subs s) of
           Inl x \<Rightarrow> Inl (Timer_failed x)
         | Inr (subs, _) \<Rightarrow> Inr (s\<lparr>timer_subs := subs\<rparr>))
      else Inr s)"

definition removeAutoscanDirectory :: "nat \<Rightarrow> nat option \<Rightarrow> content_tasks \<Rightarrow> edit_error + content_tasks" where
  "removeAutoscanDirectory self adir s =
     (case adir of
        None \<Rightarrow> Inl Not_an_autoscan
      | Some a \<Rightarrow>
          (let (h, e) = edit_remove a (update_dir a (\<lambda>d. d\<lparr>taskCount := - 1\<rparr>) (heap s), watched s)
           in remove_timer self (dirs h a) (s\<lparr>heap := h, watched := e\<rparr>)))"

definition new_location :: "(int \<Rightarrow> string CdsObject option) \<Rightarrow> int \<Rightarrow> edit_error + string" where
  "new_location loadObject i =
     (if i = CDS_ID_FS_ROOT then Inr ''/''
      else (case loadObject i of
          None \<Rightarrow> Inl Illegal_object
        | Some obj \<Rightarrow>
            if \<not> isContainer obj \<or> virt obj then Inl Illegal_object
            else if location obj = [] then Inl No_location
            else Inr (location obj)))"

text \<open>What the copy of the listed directory takes over from the one of the page.\<close>

definition edited :: "AutoscanDirectory \<Rightarrow> AutoscanDirectory \<Rightarrow> AutoscanDirectory \<Rightarrow> AutoscanDirectory" where
  "edited original dir copy =
     (copy_directory original copy)\<lparr>hidden := hidden dir, recursive := recursive dir, interval := interval dir,
       scanContent := scanContent dir, dirTypes := dirTypes dir\<rparr>"

definition replace_directory :: "nat \<Rightarrow> nat \<Rightarrow> content_tasks \<Rightarrow> content_tasks" where
  "replace_directory original dir s =
     (let (c, h1) = make_directory (heap s);
          h2 = update_dir c (edited (dirs h1 original) (dirs h1 dir)) h1;
          (h3, e3) = (if scanID (dirs h2 dir) \<noteq> INVALID_SCAN_ID then edit_remove dir (h2, watched s) else (h2, watched s));
          t = scanDir c (s\<lparr>heap := h3, watched := e3\<rparr>)
      in t\<lparr>heap := update_dir c (\<lambda>d. d\<lparr>mode := mode (dirs h1 dir)\<rparr>) (heap t)\<rparr>)"

definition setAutoscanDirectory :: "nat \<Rightarrow> bool \<Rightarrow> (int \<Rightarrow> string CdsObject option) \<Rightarrow> int \<Rightarrow> nat \<Rightarrow> nat \<Rightarrow> content_tasks
    \<Rightarrow> edit_error + content_tasks" where
  "setAutoscanDirectory self overlaps loadObject row service dir s =
     (let i = ad_objectID (dirs (heap s) dir) in
      case getByObjectID (heap s) i (watched s) of
        None \<Rightarrow>
          if overlaps then Inl Overlapping
          else bindE (new_location loadObject i) (\<lambda>loc.
            Inr (scanDir dir (s\<lparr>heap := update_dir dir
              (\<lambda>d. (resetLMT (d\<lparr>ad_location := loc\<rparr>))\<lparr>databaseID := row, importService := Some service\<rparr>) (heap s)\<rparr>)))
      | Some original \<Rightarrow>
          let s1 = s\<lparr>heap := update_dir dir (\<lambda>d. d\<lparr>databaseID := databaseID (dirs (heap s) original)\<rparr>) (heap s)\<rparr> in
          if overlaps then Inl Overlapping
          else bindE (remove_timer self (dirs (heap s) original) s1) (\<lambda>s2. Inr (replace_directory original dir s2)))"

section \<open>What a scan changes\<close>

text \<open>The settings of a directory, everything but its count of tasks.\<close>

definition settings :: "AutoscanDirectory \<Rightarrow> AutoscanDirectory" where
  "settings d = d\<lparr>taskCount := 0\<rparr>"

lemma settings_mode: "settings (d\<lparr>mode := m\<rparr>) = (settings d)\<lparr>mode := m\<rparr>"
  by (cases d) (simp add: settings_def)

lemma notify_settings:
  "watched (timerNotify_content p s) = watched s"
  "settings (dirs (heap (timerNotify_content p s)) a) = settings (dirs (heap s) a)"
  "next_dir (heap (timerNotify_content p s)) = next_dir (heap s)"
  "timer_subs (timerNotify_content p s) = timer_subs s"
  by (auto simp: timerNotify_content_def rescanDirectory_def count_task_def addTask_def Let_def settings_def
      incTaskCount_def split: option.split)

lemma scanDir_settings:
  assumes "scanDir_add a (heap s, watched s) = (h, e)"
  shows "watched (scanDir a s) = e" and "settings (dirs (heap (scanDir a s)) b) = settings (dirs h b)"
    and "next_dir (heap (scanDir a s)) = next_dir h" and "timer_subs (scanDir a s) = timer_subs s"
  using assms by (simp_all add: scanDir_def notify_settings Let_def)

lemma remove_timer_total: "\<exists>subs. remove_timer self d s = Inr (s\<lparr>timer_subs := subs\<rparr>)"
proof (cases "mode d = Timed")
  case True
  then obtain subs n where "removeTimerSubscriber self (Some (timer_parameter d)) True (timer_subs s) = Inr (subs, n)"
    by (cases "removeTimerSubscriber self (Some (timer_parameter d)) True (timer_subs s)")
      (auto simp: removeTimerSubscriber_def Let_def split: option.splits)
  then show ?thesis using True by (intro exI [of _ subs]) (simp add: remove_timer_def)
next
  case False
  then show ?thesis by (intro exI [of _ "timer_subs s"]) (simp add: remove_timer_def)
qed

lemma erase_position:
  "position P xs = Some i \<Longrightarrow> \<forall>x \<in> set xs. P x \<longleftrightarrow> x = a \<Longrightarrow> erase_at i xs = remove1 a xs"
proof (induction xs arbitrary: i)
  case (Cons x xs)
  then show ?case by (cases "P x") (auto simp: erase_at_def)
qed simp

lemma find_listed: "getByObjectID h i e = Some a \<Longrightarrow> a \<in> set (items e) \<and> ad_objectID (dirs h a) = i"
  by (auto simp: getByObjectID_def find_Some_iff)

lemma scan_same_dirs:
  assumes "\<forall>b \<in> set (items e). dirs h b = dirs h' b" and "param_ids h = param_ids h'"
  shows "timerNotify_autoscan p (h, e) = timerNotify_autoscan p (h', e)"
proof -
  have "a \<in> set (items e)" if "edit_get i False e = Some a" for i a
    using that by (auto simp: edit_get_def nth_mem split: if_splits)
  then show ?thesis using assms by (auto simp: timerNotify_autoscan_def split: option.split)
qed

section \<open>Removing\<close>


section \<open>Editing\<close>

lemma edited_members:
  "scanID (edited x n c) = scanID x" "taskCount (edited x n c) = taskCount x" "timer_parameter (edited x n c) = timer_parameter x"
  by (simp_all add: edited_def copy_directory_def)

text \<open>The heap in front of the addition: the copy, and the page's directory made invalid when it was removed.\<close>

lemma replace_heap:
  assumes ok: "edit_ok (heap s, watched s)" and o: "orig \<in> set (items (watched s))" and n: "dir \<notin> set (items (watched s))"
    and d: "dir < next_dir (heap s)" and c: "c = next_dir (heap s)"
    and h2: "h2 = update_dir c (edited (dirs (heap s) orig) (dirs (heap s) dir)) (snd (make_directory (heap s)))"
  shows "dirs h2 c = edited (dirs (heap s) orig) (dirs (heap s) dir) (default_directory (next_param (heap s)))"
    and "b < next_dir (heap s) \<Longrightarrow> dirs h2 b = dirs (heap s) b" and "edit_ok (h2, watched s)" and "c < next_dir h2"
    and "c \<notin> set (items (watched s))"
proof -
  show "dirs h2 c = edited (dirs (heap s) orig) (dirs (heap s) dir) (default_directory (next_param (heap s)))"
    and b: "b < next_dir (heap s) \<Longrightarrow> dirs h2 b = dirs (heap s) b" for b
    by (simp_all add: h2 c make_directory_simps)
  have al: "\<forall>a \<in> set (items (watched s)). a < next_dir (heap s)" by (rule edit_ok_allocated [OF ok])
  show "c < next_dir h2" by (simp add: h2 c make_directory_simps)
  show "c \<notin> set (items (watched s))" using al c by auto
  show "edit_ok (h2, watched s)"
    using ok al b by (auto simp: edit_ok_def listed_ok_def h2 make_directory_simps c)
qed

lemma replace_unfold:
  assumes "c = next_dir (heap s)"
    and "h2 = update_dir c (edited (dirs (heap s) orig) (dirs (heap s) dir)) (snd (make_directory (heap s)))"
    and "orig < c" and "dir < c"
    and "(if scanID (dirs (heap s) dir) \<noteq> INVALID_SCAN_ID then edit_remove dir (h2, watched s) else (h2, watched s)) = (h3, e3)"
  shows "replace_directory orig dir s =
    (let t = scanDir c (s\<lparr>heap := h3, watched := e3\<rparr>) in t\<lparr>heap := update_dir c (\<lambda>d. d\<lparr>mode := mode (dirs (heap s) dir)\<rparr>) (heap t)\<rparr>)"
proof -
  obtain h1 where m: "make_directory (heap s) = (c, h1)"
    using make_directory_simps(1) [of "heap s"] assms(1) by (metis prod.collapse)
  then have x: "dirs h1 orig = dirs (heap s) orig" "dirs h1 dir = dirs (heap s) dir"
    using make_directory_simps(3) [of "heap s"] assms(1,3,4) by auto
  have h2: "update_dir c (edited (dirs h1 orig) (dirs h1 dir)) h1 = h2" by (simp add: assms(2) m x)
  have "dirs h2 dir = dirs (heap s) dir" using assms(4) x(2) by (simp flip: h2)
  then show ?thesis using assms(5) unfolding replace_directory_def Let_def m prod.case h2 by (simp add: x(2))
qed

lemma replace_without_number:
  assumes ok: "edit_ok (heap s, watched s)" and o: "orig \<in> set (items (watched s))" and n: "dir \<notin> set (items (watched s))"
    and d: "dir < next_dir (heap s)" and i: "scanID (dirs (heap s) dir) = INVALID_SCAN_ID"
  shows "watched (replace_directory orig dir s) = watched s"
    and "b \<in> set (items (watched s)) \<Longrightarrow> settings (dirs (heap (replace_directory orig dir s)) b) = settings (dirs (heap s) b)"
proof -
  define c where "c = next_dir (heap s)"
  define h2 where "h2 = update_dir c (edited (dirs (heap s) orig) (dirs (heap s) dir)) (snd (make_directory (heap s)))"
  note r = replace_heap [OF ok o n d c_def h2_def]
  have al: "\<forall>a \<in> set (items (watched s)). a < c" using edit_ok_allocated [OF ok] by (simp add: c_def)
  then have u: "replace_directory orig dir s = (let t = scanDir c (s\<lparr>heap := h2, watched := watched s\<rparr>)
      in t\<lparr>heap := update_dir c (\<lambda>d. d\<lparr>mode := mode (dirs (heap s) dir)\<rparr>) (heap t)\<rparr>)"
    using o d i by (intro replace_unfold [OF c_def h2_def]) (simp_all add: c_def)
  have "same_dir h2 orig c" using r(1,2) o al by (auto simp: same_dir_def edited_members c_def)
  then have a: "scanDir_add c (heap (s\<lparr>heap := h2, watched := watched s\<rparr>), watched (s\<lparr>heap := h2, watched := watched s\<rparr>)) = (h2, watched s)"
    using o by (auto simp: scanDir_add_def edit_add_def)
  show "watched (replace_directory orig dir s) = watched s" using scanDir_settings(1) [OF a] by (simp add: u Let_def)
  show "settings (dirs (heap (replace_directory orig dir s)) b) = settings (dirs (heap s) b)" if b: "b \<in> set (items (watched s))"
  proof -
    have "b \<noteq> c" "b < next_dir (heap s)" using al b by (auto simp: c_def)
    then show ?thesis using scanDir_settings(2) [OF a, of b] r(2) by (simp add: u Let_def)
  qed
qed


lemma replace_with_number:
  assumes ok: "edit_ok (heap s, watched s)" and o: "orig \<in> set (items (watched s))" and n: "dir \<notin> set (items (watched s))"
    and d: "dir < next_dir (heap s)" and i: "scanID (dirs (heap s) dir) = scanID (dirs (heap s) orig)"
    and c: "c = next_dir (heap s)" and t: "t = replace_directory orig dir s"
  shows "items (watched t) = remove1 orig (items (watched s)) @ [c]"
    and "edit_get (scanID (dirs (heap s) orig)) True (watched t) = Some c"
    and "settings (dirs (heap t) c) =
      settings ((edited (dirs (heap s) orig) (dirs (heap s) dir) (default_directory (next_param (heap s))))\<lparr>mode := mode (dirs (heap s) dir)\<rparr>)"
proof -
  let ?i = "scanID (dirs (heap s) orig)"
  define h2 where "h2 = update_dir c (edited (dirs (heap s) orig) (dirs (heap s) dir)) (snd (make_directory (heap s)))"
  note r = replace_heap [OF ok o n d c h2_def]
  have al: "\<forall>a \<in> set (items (watched s)). a < c" using edit_ok_allocated [OF ok] by (simp add: c)
  have valid: "0 \<le> ?i" using ok o by (auto simp: edit_ok_def listed_ok_def)
  have eq: "\<forall>b \<in> set (items (watched s)). same_dir h2 b dir \<longleftrightarrow> b = orig"
  proof
    fix b assume b: "b \<in> set (items (watched s))"
    then have "dirs h2 b = dirs (heap s) b" "dirs h2 dir = dirs (heap s) dir" using r(2) al d by (auto simp: c)
    then show "same_dir h2 b dir \<longleftrightarrow> b = orig"
      using listed_scanID_inj [of "heap s" "indexMap (watched s)" _ b orig] ok b o i by (auto simp: same_dir_def edit_ok_def)
  qed
  then obtain j where j: "position (\<lambda>b. same_dir h2 b dir) (items (watched s)) = Some j"
    using o position_None_iff [of "\<lambda>b. same_dir h2 b dir" "items (watched s)"] by fastforce
  have "edit_remove dir (h2, watched s) = (setInvalid dir h2, watched s\<lparr>items := remove1 orig (items (watched s))\<rparr>)"
    using j erase_position [OF j eq] by (simp add: edit_remove_def)
  then have u: "t = (let t = scanDir c (s\<lparr>heap := setInvalid dir h2, watched := watched s\<lparr>items := remove1 orig (items (watched s))\<rparr>\<rparr>)
      in t\<lparr>heap := update_dir c (\<lambda>d. d\<lparr>mode := mode (dirs (heap s) dir)\<rparr>) (heap t)\<rparr>)"
    using al o d i valid unfolding t
    by (intro replace_unfold [OF c h2_def]) (auto simp: c INVALID_SCAN_ID_def)
  have dc: "dir \<noteq> c" using d c by simp
  have ci: "scanID (dirs h2 c) = ?i" by (simp add: r(1) edited_members)
  have "\<not> same_dir (setInvalid dir h2) b c" if "b \<in> set (remove1 orig (items (watched s)))" for b
  proof -
    have b: "b \<in> set (items (watched s))" "b \<noteq> orig" using that ok by (auto simp: edit_ok_def listed_ok_def)
    then have "dirs (setInvalid dir h2) b = dirs (heap s) b" using n r(2) al by (auto simp: c)
    then show ?thesis
      using listed_scanID_inj [of "heap s" "indexMap (watched s)" _ b orig] ok b o dc ci by (auto simp: same_dir_def edit_ok_def)
  qed
  then have a: "scanDir_add c (setInvalid dir h2, watched s\<lparr>items := remove1 orig (items (watched s))\<rparr>) =
      (setScanID c ?i (setInvalid dir h2),
       watched s\<lparr>items := remove1 orig (items (watched s)) @ [c], indexMap := smap_assign (nat ?i) (Some c) (indexMap (watched s))\<rparr>)"
    using valid dc ci by (auto simp: scanDir_add_def edit_add_def INVALID_SCAN_ID_def)
  let ?s = "s\<lparr>heap := setInvalid dir h2, watched := watched s\<lparr>items := remove1 orig (items (watched s))\<rparr>\<rparr>"
  have a': "scanDir_add c (heap ?s, watched ?s) = (setScanID c ?i (setInvalid dir h2),
       watched s\<lparr>items := remove1 orig (items (watched s)) @ [c], indexMap := smap_assign (nat ?i) (Some c) (indexMap (watched s))\<rparr>)"
    using a by simp
  have w: "watched t = watched s\<lparr>items := remove1 orig (items (watched s)) @ [c], indexMap := smap_assign (nat ?i) (Some c) (indexMap (watched s))\<rparr>"
    using scanDir_settings(1) [OF a'] by (simp add: u Let_def)
  show "items (watched t) = remove1 orig (items (watched s)) @ [c]" by (simp add: w)
  have "smap_ok (indexMap (watched s))" using ok by (simp add: edit_ok_def listed_ok_def)
  then show "edit_get ?i True (watched t) = Some c" using valid by (simp add: w edit_get_def lookup_assign)
  have "(dirs h2 c)\<lparr>scanID := ?i\<rparr> = dirs h2 c" by (simp flip: ci)
  then have "settings (dirs (heap (scanDir c ?s)) c) = settings (dirs h2 c)"
    using scanDir_settings(2) [OF a', of c] dc by simp
  then have "settings ((dirs (heap (scanDir c ?s)) c)\<lparr>mode := m\<rparr>) = settings ((dirs h2 c)\<lparr>mode := m\<rparr>)" for m
    by (simp add: settings_mode)
  then show "settings (dirs (heap t) c) =
      settings ((edited (dirs (heap s) orig) (dirs (heap s) dir) (default_directory (next_param (heap s))))\<lparr>mode := mode (dirs (heap s) dir)\<rparr>)"
    by (simp add: u Let_def r(1))
qed


text \<open>The state in which the copy is made: the page's directory knows the row, the timer of the listed one is gone.\<close>

lemma edit_unfold:
  assumes "edit_ok (heap s, watched s)" and "getByObjectID (heap s) (ad_objectID (dirs (heap s) dir)) (watched s) = Some orig"
    and "dir \<notin> set (items (watched s))"
  obtains subs s2 where "s2 = s\<lparr>heap := update_dir dir (\<lambda>d. d\<lparr>databaseID := databaseID (dirs (heap s) orig)\<rparr>) (heap s), timer_subs := subs\<rparr>"
    and "setAutoscanDirectory self False load row service dir s = Inr (replace_directory orig dir s2)"
    and "edit_ok (heap s2, watched s2)" and "orig \<in> set (items (watched s))"
proof -
  let ?s1 = "s\<lparr>heap := update_dir dir (\<lambda>d. d\<lparr>databaseID := databaseID (dirs (heap s) orig)\<rparr>) (heap s)\<rparr>"
  obtain subs where "remove_timer self (dirs (heap s) orig) ?s1 = Inr (?s1\<lparr>timer_subs := subs\<rparr>)"
    using remove_timer_total by blast
  then show thesis
    using assms find_listed [OF assms(2)]
    by (intro that [of "?s1\<lparr>timer_subs := subs\<rparr>" subs]) (auto simp: setAutoscanDirectory_def edit_ok_def listed_ok_def)
qed

text \<open>C27: Saving a watched directory from the page of the file system replaces the listed one under its number: hidden
  files, recursion, interval, content, directory types and scan mode are the ones of the page. Defect: the import
  mode, the retries, the forced rescan and the import service fall back to their defaults, and links are followed
  as before, whatever the page says.\<close>

theorem edit_by_path_replaces:
  assumes "edit_ok (heap s, watched s)" and "n = dirs (heap s) dir" and "x = dirs (heap s) orig"
    and "getByObjectID (heap s) (ad_objectID n) (watched s) = Some orig"
    and "dir \<notin> set (items (watched s))" and "dir < next_dir (heap s)" and "scanID n = scanID x"
  shows "\<exists>t d. setAutoscanDirectory self False load row service dir s = Inr t \<and>
    items (watched t) = remove1 orig (items (watched s)) @ [next_dir (heap s)] \<and>
    edit_get (scanID x) True (watched t) = Some (next_dir (heap s)) \<and> d = dirs (heap t) (next_dir (heap s)) \<and>
    (hidden d, recursive d, interval d, scanContent d, dirTypes d, mode d) =
      (hidden n, recursive n, interval n, scanContent n, dirTypes n, mode n) \<and>
    (ad_location d, followSymlinks d, ad_mediaType d, persistentFlag d) =
      (ad_location x, followSymlinks x, ad_mediaType x, persistentFlag x) \<and>
    (layoutMode d, retryCount d, forceRescan d, importService d) = (Mode_MediaTomb, 0, False, None)"
proof -
  obtain subs s2 where s2: "s2 = s\<lparr>heap := update_dir dir (\<lambda>d. d\<lparr>databaseID := databaseID (dirs (heap s) orig)\<rparr>) (heap s), timer_subs := subs\<rparr>"
    "setAutoscanDirectory self False load row service dir s = Inr (replace_directory orig dir s2)"
    "edit_ok (heap s2, watched s2)" "orig \<in> set (items (watched s))"
    using edit_unfold [OF assms(1) _ assms(5)] assms(2,4) by metis
  have od: "dirs (heap s2) orig = x" "dirs (heap s2) dir = n\<lparr>databaseID := databaseID x\<rparr>" "watched s2 = watched s"
    "next_dir (heap s2) = next_dir (heap s)"
    using s2(1,4) assms(2,3,5) by auto
  note r = replace_with_number [OF s2(3), of orig dir "next_dir (heap s)" "replace_directory orig dir s2", unfolded od(3,4)]
  let ?d = "dirs (heap (replace_directory orig dir s2)) (next_dir (heap s))"
  have i: "scanID (dirs (heap s2) dir) = scanID (dirs (heap s2) orig)" using od assms(7) by simp
  have "settings ?d = settings ((edited x (n\<lparr>databaseID := databaseID x\<rparr>) (default_directory (next_param (heap s2))))\<lparr>mode := mode n\<rparr>)"
    using r(3) s2(4) assms(5,6) i od by simp
  from arg_cong [OF this, of "\<lambda>d. (hidden d, recursive d, interval d, scanContent d, dirTypes d, mode d,
      ad_location d, followSymlinks d, ad_mediaType d, persistentFlag d, layoutMode d, retryCount d, forceRescan d, importService d)"]
  show ?thesis
    using r(1,2) s2(2,4) assms(5,6) i od
    by (intro exI [of _ "replace_directory orig dir s2"] exI [of _ ?d])
      (simp add: settings_def edited_def copy_directory_def default_directory_def)
qed

text \<open>Defect: saved from the page of the database, where the directory has no number, the copy is refused as a
  duplicate of the directory it is to replace: the list and all settings in it stay as they were, only the row in
  the database changes.\<close>

theorem edit_by_object_ignored:
  assumes "edit_ok (heap s, watched s)"
    and "getByObjectID (heap s) (ad_objectID (dirs (heap s) dir)) (watched s) = Some orig"
    and "dir \<notin> set (items (watched s))" and "dir < next_dir (heap s)" and "scanID (dirs (heap s) dir) = INVALID_SCAN_ID"
  shows "\<exists>t. setAutoscanDirectory self False load row service dir s = Inr t \<and> watched t = watched s \<and>
    (\<forall>b \<in> set (items (watched s)). settings (dirs (heap t) b) = settings (dirs (heap s) b))"
proof -
  obtain subs s2 where s2: "s2 = s\<lparr>heap := update_dir dir (\<lambda>d. d\<lparr>databaseID := databaseID (dirs (heap s) orig)\<rparr>) (heap s), timer_subs := subs\<rparr>"
    "setAutoscanDirectory self False load row service dir s = Inr (replace_directory orig dir s2)"
    "edit_ok (heap s2, watched s2)" "orig \<in> set (items (watched s))"
    using edit_unfold [OF assms(1,2,3)] by metis
  have w: "watched s2 = watched s" "next_dir (heap s2) = next_dir (heap s)" "scanID (dirs (heap s2) dir) = INVALID_SCAN_ID"
    "\<forall>b \<in> set (items (watched s)). dirs (heap s2) b = dirs (heap s) b"
    using s2(1) assms(3,5) by auto
  note r = replace_without_number [OF s2(3), of orig dir, unfolded w(1,2)]
  show ?thesis using r(1) r(2) s2(2,4) assms(3,4) w(3,4) by (intro exI [of _ "replace_directory orig dir s2"]) auto
qed

section \<open>Instances\<close>

text \<open>One listed directory at address 0 and, at address 1, the object a page saves.\<close>

definition page_run :: "list_op list" where
  "page_run = [New_dir ''/b'' False Timed 90, Add_dir 0, New_dir ''/b'' False Timed 30]"

definition page_state :: "scan_heap \<Rightarrow> edit_list \<Rightarrow> content_tasks" where
  "page_state h e = \<lparr>taskQueue1 = [], taskQueue2 = [], currentTask = None, nextTaskID = 1, stopFlag = False, working = False,
     heap = h, watched = e, timer_subs = []\<rparr>"

lemma page_facts:
  obtains h e where "list_run page_run (empty_heap, empty_list) = Inr (h, e)" and "items e = [0]" and "next_dir h = 2"
    and "scanID (dirs h 0) = 0" and "scanID (dirs h 1) = INVALID_SCAN_ID" and "ad_objectID (dirs h 0) = ad_objectID (dirs h 1)"
    and "interval (dirs h 1) = 30" and "edit_ok (h, e)"
proof -
  obtain h e where he: "list_run page_run (empty_heap, empty_list) = Inr (h, e)" by (simp add: page_run_def heap_defs)
  then have "edit_ok (h, e)" using list_run_ok [OF watch_ok_empty he] by (simp add: watch_ok_def)
  then show thesis using he by (intro that [of h e]) (auto simp: page_run_def heap_defs)
qed


lemma edit_by_path_replaces_witness:
  "\<exists>h e t. list_run page_run (empty_heap, empty_list) = Inr (h, e) \<and>
     setAutoscanDirectory 7 False (\<lambda>i. None) 5 3 1 (page_state (update_dir 1 (\<lambda>d. d\<lparr>scanID := 0\<rparr>) h) e) = Inr t \<and>
     items (watched t) = [2] \<and> interval (dirs (heap t) 2) = 30"
proof -
  obtain h e where he: "list_run page_run (empty_heap, empty_list) = Inr (h, e)" "items e = [0]" "edit_ok (h, e)" "next_dir h = 2"
    "scanID (dirs h 0) = 0" "ad_objectID (dirs h 0) = ad_objectID (dirs h 1)" "interval (dirs h 1) = 30"
    using page_facts by metis
  let ?s = "page_state (update_dir 1 (\<lambda>d. d\<lparr>scanID := 0\<rparr>) h) e"
  have "edit_ok (heap ?s, watched ?s)" using he by (auto simp: page_state_def edit_ok_def listed_ok_def)
  from edit_by_path_replaces [OF this, of "dirs (heap ?s) 1" 1 "dirs (heap ?s) 0" 0 7 "\<lambda>i. None" 5 3] he
  show ?thesis by (auto simp: page_state_def getByObjectID_def)
qed

lemma edit_by_object_ignored_witness:
  "\<exists>h e t. list_run page_run (empty_heap, empty_list) = Inr (h, e) \<and>
     setAutoscanDirectory 7 False (\<lambda>i. None) 5 3 1 (page_state h e) = Inr t \<and> watched t = e"
proof -
  obtain h e where he: "list_run page_run (empty_heap, empty_list) = Inr (h, e)" "items e = [0]" "edit_ok (h, e)" "next_dir h = 2"
    "scanID (dirs h 1) = INVALID_SCAN_ID" "ad_objectID (dirs h 0) = ad_objectID (dirs h 1)"
    using page_facts by metis
  then show ?thesis
    using edit_by_object_ignored [of "page_state h e" 1 0 7 "\<lambda>i. None" 5 3] by (auto simp: page_state_def getByObjectID_def)
qed

end
