(* ===== verification/Client_Config.thy ===== *)
theory Client_Config
  imports Flag_Words CDS_Enums
begin

text \<open>
  Profiles of clients (\<open>src/src/upnp/clients.h\<close>, \<open>src/src/upnp/quirks.h\<close>,
  \<open>src/src/config/result/client_config.cc\<close>): the quirks of a client as a flag word, its printer and its
  reader, and the profile a configured client gets.
\<close>

unbundle bit_operations_syntax

datatype Quirk =
  Q_None |
  Q_Samsung | Q_SamsungBookmarkSeconds | Q_SamsungBookmarkMilliSeconds | Q_NoXmlDeclaration |
  Q_SamsungFeatures | Q_SamsungHideDynamic | Q_PvSubtitles | Q_StrictXML | Q_HideResourceThumbnail |
  Q_HideResourceSubtitle | Q_HideResourceTranscode | Q_SimpleDate | Q_DCM10 | Q_HideContainerShortcuts |
  Q_AsciiXML | Q_ForceNoConversion | Q_ShowInternalSubtitles | Q_ForceSortCriteriaTitle | Q_CaptionProtocol |
  Q_NoSecNamespace | Q_Transcoding1 | Q_Transcoding2 | Q_Transcoding3

text \<open>The values of the enumeration, \<open>None\<close> is \<open>-1\<close>.\<close>

fun quirk_bit :: "Quirk \<Rightarrow> nat option" where
  "quirk_bit Q_None = None"
| "quirk_bit Q_Samsung = Some 0"
| "quirk_bit Q_SamsungBookmarkSeconds = Some 1"
| "quirk_bit Q_SamsungBookmarkMilliSeconds = Some 2"
| "quirk_bit Q_NoXmlDeclaration = Some 3"
| "quirk_bit Q_SamsungFeatures = Some 4"
| "quirk_bit Q_SamsungHideDynamic = Some 5"
| "quirk_bit Q_PvSubtitles = Some 6"
| "quirk_bit Q_StrictXML = Some 7"
| "quirk_bit Q_HideResourceThumbnail = Some 8"
| "quirk_bit Q_HideResourceSubtitle = Some 9"
| "quirk_bit Q_HideResourceTranscode = Some 10"
| "quirk_bit Q_SimpleDate = Some 11"
| "quirk_bit Q_DCM10 = Some 12"
| "quirk_bit Q_HideContainerShortcuts = Some 13"
| "quirk_bit Q_AsciiXML = Some 14"
| "quirk_bit Q_ForceNoConversion = Some 15"
| "quirk_bit Q_ShowInternalSubtitles = Some 16"
| "quirk_bit Q_ForceSortCriteriaTitle = Some 17"
| "quirk_bit Q_CaptionProtocol = Some 18"
| "quirk_bit Q_NoSecNamespace = Some 19"
| "quirk_bit Q_Transcoding1 = Some 20"
| "quirk_bit Q_Transcoding2 = Some 21"
| "quirk_bit Q_Transcoding3 = Some 22"

definition quirk_getFlag :: "Quirk \<Rightarrow> 32 word" where
  "quirk_getFlag q = (case quirk_bit q of None \<Rightarrow> 0 | Some n \<Rightarrow> push_bit n 1)"

definition quirk_getFlags :: "Quirk list \<Rightarrow> 32 word" where
  "quirk_getFlags qs = foldl (\<lambda>r q. if q \<noteq> Q_None then r OR quirk_getFlag q else r) 0 qs"

definition quirk_hasFlag :: "32 word \<Rightarrow> Quirk \<Rightarrow> bool" where
  "quirk_hasFlag flag q = (q \<noteq> Q_None \<and> flag AND quirk_getFlag q \<noteq> 0)"

definition quirkFlags :: "(Quirk \<times> string) list" where
  "quirkFlags =
     [(Q_None, ''None''), (Q_Samsung, ''Samsung''), (Q_SamsungBookmarkSeconds, ''SamsungBookmarkSeconds''),
      (Q_SamsungBookmarkSeconds, ''SAMSUNG_BOOKMARK_SEC''),
      (Q_SamsungBookmarkMilliSeconds, ''SamsungBookmarkMilliSeconds''),
      (Q_SamsungBookmarkMilliSeconds, ''SAMSUNG_BOOKMARK_MSEC''), (Q_SamsungFeatures, ''SamsungFeatures''),
      (Q_SamsungFeatures, ''SAMSUNG_FEATURES''), (Q_SamsungHideDynamic, ''SamsungHideDynamic''),
      (Q_SamsungHideDynamic, ''SAMSUNG_HIDE_DYNAMIC''), (Q_NoXmlDeclaration, ''IRadio''),
      (Q_NoXmlDeclaration, ''NoXmlDeclaration''), (Q_PvSubtitles, ''PvSubtitles''),
      (Q_PvSubtitles, ''PV_SUBTITLES''), (Q_StrictXML, ''StrictXML''),
      (Q_HideResourceThumbnail, ''HideThumbnailResource''),
      (Q_HideResourceThumbnail, ''HideResourceThumbnail''),
      (Q_HideResourceThumbnail, ''HIDE_THUMBNAIL_RESOURCE''),
      (Q_HideResourceSubtitle, ''HideSubtitleResource''), (Q_HideResourceSubtitle, ''HideResourceSubtitle''),
      (Q_HideResourceSubtitle, ''HIDE_SUBTITLE_RESOURCE''),
      (Q_HideResourceTranscode, ''HideTranscodeResource''),
      (Q_HideResourceTranscode, ''HideResourceTranscode''),
      (Q_HideResourceTranscode, ''HIDE_TRANSCODE_RESOURCE''), (Q_SimpleDate, ''SimpleDate''),
      (Q_SimpleDate, ''SIMPLE_DATE''), (Q_DCM10, ''DCM10''),
      (Q_HideContainerShortcuts, ''HideContainerShortcuts''),
      (Q_HideContainerShortcuts, ''HIDE_CONTAINER_SHORTCUTS''), (Q_AsciiXML, ''AsciiXML''),
      (Q_ForceNoConversion, ''ForceNoConversion''), (Q_ForceNoConversion, ''NoConversion''),
      (Q_ForceNoConversion, ''NO_CONVERSION''), (Q_ShowInternalSubtitles, ''ShowInternalSubtitles''),
      (Q_ShowInternalSubtitles, ''SHOW_INTERNAL_SUBTITLES''),
      (Q_ForceSortCriteriaTitle, ''ForceSortCriteriaTitle''),
      (Q_ForceSortCriteriaTitle, ''FORCE_SORT_CRITERIA_TITLE''), (Q_CaptionProtocol, ''CaptionProtocol''),
      (Q_CaptionProtocol, ''CAPTION_PROTOCOL''), (Q_NoSecNamespace, ''NoSecNamespace''),
      (Q_NoSecNamespace, ''NO_SEC_NAMESPACE''), (Q_Transcoding1, ''Transcoding1''),
      (Q_Transcoding2, ''Transcoding2''), (Q_Transcoding3, ''Transcoding3''), (Q_Transcoding1, ''Transcode1''),
      (Q_Transcoding2, ''Transcode2''), (Q_Transcoding3, ''Transcode3'')]"

fun quirk_labels :: "(Quirk \<times> string) list \<Rightarrow> 32 word \<Rightarrow> string list \<times> 32 word" where
  "quirk_labels [] flags = ([], flags)"
| "quirk_labels ((qFlag, qLabel) # t) flags =
     (if flags AND quirk_getFlag qFlag \<noteq> 0
      then (let (ls, rest) = quirk_labels t (flags AND NOT (quirk_getFlag qFlag)) in (qLabel # ls, rest))
      else quirk_labels t flags)"

definition quirk_mapFlags :: "32 word \<Rightarrow> string" where
  "quirk_mapFlags flags =
     (if flags = 0 then ''None''
      else let (ls, rest) = quirk_labels quirkFlags flags
           in join '' | '' (ls @ (if rest \<noteq> 0 then [format_hex (unat rest)] else [])))"

definition quirk_remapFlag :: "string \<Rightarrow> 32 word" where
  "quirk_remapFlag flag =
     (case find_lower quirkFlags flag of
        Some q \<Rightarrow> quirk_getFlag q
      | None \<Rightarrow> word_of_int (stoiString0 flag 0))"

definition quirk_join :: "string \<Rightarrow> 32 word" where
  "quirk_join optValue =
     foldl (\<lambda>flg i. flg OR quirk_remapFlag (trimString i)) 0 (splitString optValue (CHR ''|'') (CHR 0x00) False)"

definition quirk_makeFlags :: "string \<Rightarrow> 32 word" where
  "quirk_makeFlags optValue =
     (let val = trimString optValue; negate = startswith val ''~'';
          val1 = (if negate then drop 1 val else val); flags = quirk_join val1
      in if negate then NOT flags else flags)"

lemma tolower_chars:
  shows
    "tolower CHR ''A'' = CHR ''a''" "tolower CHR ''B'' = CHR ''b''" "tolower CHR ''C'' = CHR ''c''" "tolower CHR ''D'' = CHR ''d''"
    "tolower CHR ''E'' = CHR ''e''" "tolower CHR ''F'' = CHR ''f''" "tolower CHR ''G'' = CHR ''g''" "tolower CHR ''H'' = CHR ''h''"
    "tolower CHR ''I'' = CHR ''i''" "tolower CHR ''J'' = CHR ''j''" "tolower CHR ''K'' = CHR ''k''" "tolower CHR ''L'' = CHR ''l''"
    "tolower CHR ''M'' = CHR ''m''" "tolower CHR ''N'' = CHR ''n''" "tolower CHR ''O'' = CHR ''o''" "tolower CHR ''P'' = CHR ''p''"
    "tolower CHR ''Q'' = CHR ''q''" "tolower CHR ''R'' = CHR ''r''" "tolower CHR ''S'' = CHR ''s''" "tolower CHR ''T'' = CHR ''t''"
    "tolower CHR ''U'' = CHR ''u''" "tolower CHR ''V'' = CHR ''v''" "tolower CHR ''W'' = CHR ''w''" "tolower CHR ''X'' = CHR ''x''"
    "tolower CHR ''Y'' = CHR ''y''" "tolower CHR ''Z'' = CHR ''z''"
    "tolower CHR ''a'' = CHR ''a''" "tolower CHR ''b'' = CHR ''b''" "tolower CHR ''c'' = CHR ''c''" "tolower CHR ''d'' = CHR ''d''"
    "tolower CHR ''e'' = CHR ''e''" "tolower CHR ''f'' = CHR ''f''" "tolower CHR ''g'' = CHR ''g''" "tolower CHR ''h'' = CHR ''h''"
    "tolower CHR ''i'' = CHR ''i''" "tolower CHR ''j'' = CHR ''j''" "tolower CHR ''k'' = CHR ''k''" "tolower CHR ''l'' = CHR ''l''"
    "tolower CHR ''m'' = CHR ''m''" "tolower CHR ''n'' = CHR ''n''" "tolower CHR ''o'' = CHR ''o''" "tolower CHR ''p'' = CHR ''p''"
    "tolower CHR ''q'' = CHR ''q''" "tolower CHR ''r'' = CHR ''r''" "tolower CHR ''s'' = CHR ''s''" "tolower CHR ''t'' = CHR ''t''"
    "tolower CHR ''u'' = CHR ''u''" "tolower CHR ''v'' = CHR ''v''" "tolower CHR ''w'' = CHR ''w''" "tolower CHR ''x'' = CHR ''x''"
    "tolower CHR ''y'' = CHR ''y''" "tolower CHR ''z'' = CHR ''z''" "tolower CHR ''0'' = CHR ''0''" "tolower CHR ''1'' = CHR ''1''"
    "tolower CHR ''2'' = CHR ''2''" "tolower CHR ''3'' = CHR ''3''" "tolower CHR ''4'' = CHR ''4''" "tolower CHR ''5'' = CHR ''5''"
    "tolower CHR ''6'' = CHR ''6''" "tolower CHR ''7'' = CHR ''7''" "tolower CHR ''8'' = CHR ''8''" "tolower CHR ''9'' = CHR ''9''"
    "tolower CHR ''_'' = CHR ''_''" "tolower CHR ''-'' = CHR ''-''"
  by (simp_all add: tolower_def isupper_def char_eq_code)

lemmas lower_labels = list.map toLower_def tolower_chars

lemma lower_quirks: "map toLower (map snd quirkFlags) =
     [''none'', ''samsung'', ''samsungbookmarkseconds'', ''samsung_bookmark_sec'',
      ''samsungbookmarkmilliseconds'', ''samsung_bookmark_msec'', ''samsungfeatures'', ''samsung_features'',
      ''samsunghidedynamic'', ''samsung_hide_dynamic'', ''iradio'', ''noxmldeclaration'', ''pvsubtitles'',
      ''pv_subtitles'', ''strictxml'', ''hidethumbnailresource'', ''hideresourcethumbnail'',
      ''hide_thumbnail_resource'', ''hidesubtitleresource'', ''hideresourcesubtitle'',
      ''hide_subtitle_resource'', ''hidetranscoderesource'', ''hideresourcetranscode'',
      ''hide_transcode_resource'', ''simpledate'', ''simple_date'', ''dcm10'', ''hidecontainershortcuts'',
      ''hide_container_shortcuts'', ''asciixml'', ''forcenoconversion'', ''noconversion'', ''no_conversion'',
      ''showinternalsubtitles'', ''show_internal_subtitles'', ''forcesortcriteriatitle'',
      ''force_sort_criteria_title'', ''captionprotocol'', ''caption_protocol'', ''nosecnamespace'',
      ''no_sec_namespace'', ''transcoding1'', ''transcoding2'', ''transcoding3'', ''transcode1'',
      ''transcode2'', ''transcode3'']"
  by (simp only: quirkFlags_def snd_conv lower_labels)

lemma lower_quirks_distinct: "distinct (map toLower (map snd quirkFlags))"
  unfolding lower_quirks by simp

lemma lower_quirks_no_hex: "CHR ''0'' # t \<notin> set (map toLower (map snd quirkFlags))"
  unfolding lower_quirks by simp

lemma remap_quirk_labels: "\<forall>(q, l) \<in> set quirkFlags. quirk_remapFlag l = quirk_getFlag q"
  using find_lower_entry [of quirkFlags] lower_quirks_distinct
  by (auto simp: quirk_remapFlag_def comp_def)

lemma quirk_words: "\<forall>w \<in> snd ` set quirkFlags. flag_word w \<and> hd w \<noteq> CHR ''~''"
  by (simp add: quirkFlags_def flag_word_def isspace_def)

lemma quirk_no_hex: "find_lower quirkFlags (format_hex n) = None"
proof -
  obtain t where l: "toLower (format_hex n) = CHR ''0'' # t" using toLower_format_hex by blast
  show ?thesis using lower_quirks_no_hex [of t] unfolding find_lower_None l by (auto simp: image_iff)
qed

lemma remap_quirk_hex: "\<not> bit w 31 \<Longrightarrow> quirk_remapFlag (format_hex (unat w)) = w"
  using stoiString0_format_hex quirk_no_hex by (simp add: quirk_remapFlag_def)

interpretation quirks: flag_words quirk_getFlag quirk_remapFlag quirk_labels quirk_join "\<lambda>w. \<not> bit w 31"
  by unfold_locales (auto simp: quirk_join_def remap_quirk_hex bit_simps)

text \<open>The printed quirks of a client are read back to the same word when its top bit is clear, and behind a tilde
  to its complement: the older spellings of a quirk and the hexadecimal rest lose no bit.\<close>

theorem quirk_flags_roundtrip:
  assumes "\<not> bit flags 31"
  shows "quirk_makeFlags (quirk_mapFlags flags) = flags \<and>
    quirk_makeFlags (CHR ''~'' # quirk_mapFlags flags) = NOT flags"
proof -
  have "\<exists>ws. quirk_mapFlags flags = join '' | '' ws \<and> ws \<noteq> [] \<and> (\<forall>w \<in> set ws. flag_word w) \<and> hd (hd ws) \<noteq> CHR ''~'' \<and>
      quirk_join (quirk_mapFlags flags) = flags"
  proof (cases "flags = 0")
    case True
    have "quirk_join (join '' | '' [''None'']) = foldl (\<lambda>flg l. flg OR quirk_remapFlag l) 0 [''None'']"
      by (rule quirks.make_join) (simp_all add: flag_word_def isspace_def)
    moreover have "(Q_None, ''None'') \<in> set quirkFlags" by (simp add: quirkFlags_def)
    then have "quirk_remapFlag ''None'' = 0" using remap_quirk_labels by (auto simp: quirk_getFlag_def)
    ultimately show ?thesis using True
      by (intro exI [of _ "[''None'']"]) (simp add: quirk_mapFlags_def flag_word_def isspace_def)
  next
    case False
    obtain ls rest where l: "quirk_labels quirkFlags flags = (ls, rest)" by (cases "quirk_labels quirkFlags flags")
    let ?ws = "ls @ (if rest \<noteq> 0 then [format_hex (unat rest)] else [])"
    have e: "\<forall>(q, k) \<in> set quirkFlags. flags AND quirk_getFlag q = 0 \<or>
        (quirk_remapFlag k = quirk_getFlag q \<and> (\<exists>n. quirk_getFlag q = push_bit n 1))"
    proof (intro ballI)
      fix e assume e: "e \<in> set quirkFlags"
      obtain q k where qk: "e = (q, k)" by (cases e)
      show "case e of (q, k) \<Rightarrow> flags AND quirk_getFlag q = 0 \<or>
          (quirk_remapFlag k = quirk_getFlag q \<and> (\<exists>n. quirk_getFlag q = push_bit n 1))"
        using remap_quirk_labels e qk
        by (cases "quirk_bit q") (auto simp: quirk_getFlag_def simp del: push_bit_of_1)
    qed
    have m: "quirk_mapFlags flags = join '' | '' ?ws" using False l by (simp add: quirk_mapFlags_def)
    have words: "\<forall>w \<in> snd ` set quirkFlags. flag_word w" using quirk_words by blast
    have j: "quirk_join (join '' | '' ?ws) = flags" by (rule quirks.print_read [OF e l assms False words])
    have r: "foldl (\<lambda>a l. a OR quirk_remapFlag l) 0 ls OR rest = 0 OR flags \<and> set ls \<subseteq> snd ` set quirkFlags \<and> \<not> bit rest 31"
      by (rule quirks.read_labels [OF e l assms])
    then have ne: "?ws \<noteq> []" using False by auto
    have w: "\<forall>w \<in> set ?ws. flag_word w \<and> hd w \<noteq> CHR ''~''"
      using r quirk_words flag_word_hex by (auto simp: format_hex_def Let_def)
    then have "hd (hd ?ws) \<noteq> CHR ''~''" using ne by (metis hd_in_set)
    then show ?thesis using m j ne w by metis
  qed
  then obtain ws where ws: "quirk_mapFlags flags = join '' | '' ws" "ws \<noteq> []" "\<forall>w \<in> set ws. flag_word w"
    "hd (hd ws) \<noteq> CHR ''~''" "quirk_join (quirk_mapFlags flags) = flags" by blast
  note t = trim_joined [OF ws(3,2)] and j = joined_words [OF ws(3,2)]
  have "\<not> startswith (quirk_mapFlags flags) ''~''" using j ws(1,4) by (auto simp: startswith_append)
  then have "quirk_makeFlags (quirk_mapFlags flags) = flags" using t(1) ws(1,5) by (simp add: quirk_makeFlags_def)
  moreover have "trimString (CHR ''~'' # quirk_mapFlags flags) = CHR ''~'' # quirk_mapFlags flags"
    unfolding ws(1) by (rule t(2)) (simp add: isspace_def)
  then have "quirk_makeFlags (CHR ''~'' # quirk_mapFlags flags) = NOT flags"
    using ws(5) by (simp add: quirk_makeFlags_def startswith_def)
  ultimately show ?thesis by blast
qed

lemma quirk_flags_roundtrip_witness:
  "quirk_makeFlags (CHR ''~'' # quirk_mapFlags 0x1001007) = NOT 0x1001007"
  using quirk_flags_roundtrip [of "0x1001007"] by simp

text \<open>The top bit is out of the range of the signed reader.\<close>

lemma stoiString0_top_bit:
  assumes "bit (w :: 32 word) 31"
  shows "stoiString0 (format_hex (unat w)) 0 = 0"
proof -
  obtain t where t: "format_hex (unat w) = CHR ''0'' # t" by (simp add: format_hex_def Let_def)
  have "bit (unat w) 31" using assms by (simp add: bit_unsigned_iff)
  then have "\<not> unat w < 2 ^ 31" unfolding bit_iff_odd by (metis div_less even_zero)
  then have "\<not> uint w < 2 ^ 31" using nat_less_iff [of "uint w" "2 ^ 31"] by simp
  then show ?thesis using t read_format_hex [of "unat w"] by (simp add: stoiString0_def Let_def)
qed

lemma quirk_top_bit_lost: "quirk_makeFlags (quirk_mapFlags 0x80000000) = 0"
proof -
  have top: "bit (0x80000000 :: 32 word) 31" by simp
  have f: "0x80000000 AND quirk_getFlag q = 0" for q
    by (cases q) (simp_all add: quirk_getFlag_def)
  have l: "quirk_labels m 0x80000000 = ([], 0x80000000)" for m
    by (induction m) (use f in auto)
  have m: "quirk_mapFlags 0x80000000 = join '' | '' [format_hex (unat (0x80000000 :: 32 word))]"
    unfolding quirk_mapFlags_def l by simp
  have r: "quirk_remapFlag (format_hex (unat (0x80000000 :: 32 word))) = 0"
    using stoiString0_top_bit [OF top] quirk_no_hex by (simp add: quirk_remapFlag_def)
  have "quirk_join (join '' | '' [format_hex (unat (0x80000000 :: 32 word))]) = 0"
    using quirks.make_join [of "[format_hex (unat (0x80000000 :: 32 word))]"] flag_word_hex r by simp
  moreover obtain t where "format_hex (unat (0x80000000 :: 32 word)) = CHR ''0'' # t" by (simp add: format_hex_def Let_def)
  ultimately show ?thesis
    using trim_joined(1) [of "[format_hex (unat (0x80000000 :: 32 word))]"] flag_word_hex [of "unat (0x80000000 :: 32 word)"]
    unfolding m by (simp add: quirk_makeFlags_def startswith_def Let_def)
qed

section \<open>Types and ways to match\<close>

datatype ClientType =
  CT_Unknown | CT_BubbleUPnP | CT_SamsungAllShare | CT_SamsungSeriesA | CT_SamsungSeriesB | CT_SamsungSeriesQ |
  CT_SamsungSeriesQN | CT_SamsungBDP | CT_SamsungSeriesCDE | CT_SamsungBDJ5500 | CT_IRadio | CT_FSL |
  CT_PanasonicTV | CT_BoseSoundtouch | CT_YamahaRX | CT_Freebox | CT_Universum | CT_StandardUPnP | CT_Custom |
  CT_Server

datatype ClientMatchType = Match_None | UserAgent | Manufacturer | ModelName | FriendlyName | Match_IP

definition clientTypes :: "(ClientType \<times> string) list" where
  "clientTypes =
     [(CT_Unknown, ''None''), (CT_Custom, ''Custom''), (CT_Server, ''Server''), (CT_BubbleUPnP, ''BubbleUPnP''),
      (CT_SamsungAllShare, ''SamsungAllShare''), (CT_SamsungSeriesA, ''SamsungSeriesA''),
      (CT_SamsungSeriesB, ''SamsungSeriesB''), (CT_SamsungSeriesQ, ''SamsungSeriesQ''),
      (CT_SamsungSeriesQN, ''SamsungSeriesQN''), (CT_SamsungBDP, ''SamsungBDP''),
      (CT_SamsungSeriesCDE, ''SamsungSeriesCDE''), (CT_SamsungBDJ5500, ''SamsungBDJ5500''),
      (CT_IRadio, ''EC-IRadio''), (CT_FSL, ''FSL''), (CT_PanasonicTV, ''PanasonicTV''),
      (CT_BoseSoundtouch, ''BoseSoundtouch''), (CT_YamahaRX, ''YamahaRX''), (CT_Freebox, ''FreeboxPlayer''),
      (CT_Universum, ''Universum DAB+ Internet Radio''), (CT_StandardUPnP, ''StandardUPnP'')]"

definition mapClientType :: "ClientType \<Rightarrow> string option" where
  "mapClientType t = map_of clientTypes t"

definition matchTypes :: "(ClientMatchType \<times> string) list" where
  "matchTypes =
     [(Match_None, ''None''), (UserAgent, ''UserAgent''), (Match_IP, ''IP''), (FriendlyName, ''FriendlyName''),
      (ModelName, ''ModelName''), (Manufacturer, ''Manufacturer'')]"

definition mapMatchType :: "ClientMatchType \<Rightarrow> string option" where
  "mapMatchType t = map_of matchTypes t"

definition remapMatchType :: "string \<Rightarrow> ClientMatchType" where
  "remapMatchType name = (case find_lower matchTypes name of Some t \<Rightarrow> t | None \<Rightarrow> Match_None)"

section \<open>Profiles\<close>

record ClientProfile =
  cp_name :: string
  cp_group :: string
  cp_type :: ClientType
  cp_flags :: "32 word"
  cp_matchType :: ClientMatchType
  cp_match :: string
  isUnique :: bool
  captionInfoCount :: int
  stringLimit :: int
  multiValue :: bool
  fullFilter :: bool
  isAllowed :: bool
  supportedResources :: "ResourcePurpose list"

definition DEFAULT_CLIENT_GROUP :: string where
  "DEFAULT_CLIENT_GROUP = ''default''"

definition default_profile :: ClientProfile where
  "default_profile = \<lparr>cp_name = ''Unknown'', cp_group = DEFAULT_CLIENT_GROUP, cp_type = CT_Unknown, cp_flags = 0,
     cp_matchType = Match_None, cp_match = [], isUnique = True, captionInfoCount = - 1, stringLimit = - 1,
     multiValue = True, fullFilter = False, isAllowed = True,
     supportedResources = [Content, Thumbnail, Subtitle, Transcode]\<rparr>"

text \<open>The profile of a configured client: the address first, then the user agent, then the last of the other
  values in the order of the map; hidden resources are erased from the list.\<close>

definition ClientConfig :: "32 word \<Rightarrow> string \<Rightarrow> string \<Rightarrow> string \<Rightarrow> (ClientMatchType \<times> string) list \<Rightarrow> int \<Rightarrow> int \<Rightarrow> bool \<Rightarrow> bool
    \<Rightarrow> ClientProfile option" where
  "ClientConfig flags grp ip userAgent matchValues caption limit multi allowed =
     (let (mt, m) = (if ip \<noteq> [] then (Match_IP, ip) else if userAgent \<noteq> [] then (UserAgent, userAgent)
                     else foldl (\<lambda>acc e. e) (Match_None, []) matchValues);
          hide = (\<lambda>q p rs. if quirk_hasFlag flags q then remove1 p rs else rs)
      in (case (mapClientType CT_Custom, mapMatchType mt) of
            (Some tn, Some mn) \<Rightarrow>
              Some (default_profile\<lparr>cp_type := CT_Custom, cp_matchType := mt, cp_match := m, cp_group := grp, cp_flags := flags,
                captionInfoCount := caption, stringLimit := limit, multiValue := multi, isAllowed := allowed,
                supportedResources := hide Q_HideResourceTranscode Transcode
                  (hide Q_HideResourceSubtitle Subtitle (hide Q_HideResourceThumbnail Thumbnail (supportedResources default_profile))),
                cp_name := tn @ '' Setup for '' @ mn @ '' '' @ m\<rparr>)
          | _ \<Rightarrow> None))"

end
