(* ===== verification/Grb_Net.thy ===== *)
theory Grb_Net
  imports Tools
begin

text \<open>
  Network addresses (\<open>src/src/util/grb_net.cc\<close>): the comparison of two socket addresses under a prefix length
  and the match of an address against a configured network. The conversions of texts to addresses are the
  system's and parameters here; ports take no part in a comparison.
\<close>

unbundle bit_operations_syntax

text \<open>An IPv4 address in host order, an IPv6 address as its 16 bytes, or another family.\<close>

datatype sock_addr = Inet "32 word" | Inet6 "8 word list" | Other_family int

fun sa_family :: "sock_addr \<Rightarrow> int" where
  "sa_family (Inet a) = 2"
| "sa_family (Inet6 b) = 10"
| "sa_family (Other_family f) = f"

datatype net_error = Unsupported_family | Front_of_empty

text \<open>\<open>std::memcmp\<close>, which promises no more than the sign.\<close>

fun memcmp :: "8 word list \<Rightarrow> 8 word list \<Rightarrow> int" where
  "memcmp (a # as) (b # bs) = (if a < b then - 1 else if b < a then 1 else memcmp as bs)"
| "memcmp _ _ = 0"

definition netmask4 :: "int \<Rightarrow> 32 word" where
  "netmask4 pfx =
     (if 0 < pfx \<and> pfx < 33
      then (if pfx = 32 then 0xFFFFFFFF else NOT (push_bit (nat (32 - pfx)) 1 - 1)) else 0)"

definition cmp_inet :: "32 word \<Rightarrow> 32 word \<Rightarrow> int \<Rightarrow> int" where
  "cmp_inet a b pfx =
     (let netmask = netmask4 pfx in
      if netmask > 0 \<and> a AND netmask = b AND netmask then 0
      else if a < b then - 1 else if b < a then 1 else 0)"

definition cmp_inet6 :: "8 word list \<Rightarrow> 8 word list \<Rightarrow> int \<Rightarrow> int" where
  "cmp_inet6 a b pfx =
     (if 0 < pfx \<and> pfx < 129 then
        (let full = nat (pfx div 8); rem = nat (pfx mod 8);
             res = memcmp (take full a) (take full b) in
         if res \<noteq> 0 then res
         else if rem > 0 then
           (let m = (push_bit (8 - rem) (- 1) :: 8 word); x = a ! full AND m; y = b ! full AND m
            in if x \<noteq> y then (if x < y then - 1 else 1) else 0)
         else 0)
      else memcmp (take 16 a) (take 16 b))"

definition sockAddrCmpAddr :: "sock_addr \<Rightarrow> sock_addr \<Rightarrow> int \<Rightarrow> net_error + int" where
  "sockAddrCmpAddr sa sb pfx =
     (if sa_family sa \<noteq> sa_family sb then Inr (sa_family sa - sa_family sb)
      else (case (sa, sb) of
          (Inet a, Inet b) \<Rightarrow> Inr (cmp_inet a b pfx)
        | (Inet6 a, Inet6 b) \<Rightarrow> Inr (cmp_inet6 a b pfx)
        | _ \<Rightarrow> Inl Unsupported_family))"

text \<open>
  \<open>equals\<close> with a text: an address, or an address, a slash and a prefix length. \<open>inet_pton6\<close> gives the bytes of a
  text or nothing, \<open>inet_addr\<close> the address of a text, all ones when it is none.
\<close>

definition equals_match :: "(string \<Rightarrow> 8 word list option) \<Rightarrow> (string \<Rightarrow> 32 word) \<Rightarrow> sock_addr \<Rightarrow> string \<Rightarrow> net_error + bool" where
  "equals_match inet_pton6 inet_addr self match =
     (case splitString match (CHR ''/'') (CHR 0x00) False of
        [] \<Rightarrow> Inl Front_of_empty
      | ip # net \<Rightarrow>
          if CHR '':'' \<in> set ip then
            (let pfx = stoiString (case net of [] \<Rightarrow> ''128'' | p # _ \<Rightarrow> p) 128 in
             case inet_pton6 ip of
               None \<Rightarrow> Inr False
             | Some b \<Rightarrow> bindE (sockAddrCmpAddr (Inet6 b) self pfx) (\<lambda>c. Inr (c = 0)))
          else if CHR ''.'' \<in> set ip then
            (let pfx = stoiString (case net of [] \<Rightarrow> ''32'' | p # _ \<Rightarrow> p) 32
             in bindE (sockAddrCmpAddr (Inet (inet_addr ip)) self pfx) (\<lambda>c. Inr (c = 0)))
          else Inr False)"

definition equals_addr :: "sock_addr \<Rightarrow> sock_addr \<Rightarrow> net_error + bool" where
  "equals_addr self other = bindE (sockAddrCmpAddr other self (- 1)) (\<lambda>c. Inr (c = 0))"

section \<open>A prefix is a prefix of the bits\<close>

definition msb_bits :: "'w::len word \<Rightarrow> bool list" where
  "msb_bits w = map (\<lambda>i. bit w (LENGTH('w) - 1 - i)) [0..<LENGTH('w)]"

fun addr_bits :: "sock_addr \<Rightarrow> bool list" where
  "addr_bits (Inet a) = msb_bits a"
| "addr_bits (Inet6 bs) = concat (map msb_bits bs)"
| "addr_bits (Other_family f) = []"

fun addr_ok :: "sock_addr \<Rightarrow> bool" where
  "addr_ok (Inet a) = True"
| "addr_ok (Inet6 bs) = (length bs = 16)"
| "addr_ok (Other_family f) = False"

text \<open>The number of bits that are compared.\<close>

definition compared :: "int \<Rightarrow> sock_addr \<Rightarrow> nat" where
  "compared pfx a = (let n = length (addr_bits a) in if 0 < pfx \<and> pfx \<le> int n then nat pfx else n)"

lemma length_msb_bits [simp]: "length (msb_bits (w :: 'w::len word)) = LENGTH('w)"
  by (simp add: msb_bits_def)

lemma take_msb_bits:
  assumes "n \<le> LENGTH('w)"
  shows "take n (msb_bits (a :: 'w::len word)) = take n (msb_bits (b :: 'w word)) \<longleftrightarrow>
    (\<forall>i. LENGTH('w) - n \<le> i \<and> i < LENGTH('w) \<longrightarrow> bit a i = bit b i)"
proof -
  have "take n (msb_bits a) = take n (msb_bits b) \<longleftrightarrow> (\<forall>i < n. bit a (LENGTH('w) - 1 - i) = bit b (LENGTH('w) - 1 - i))"
    using assms by (auto simp: msb_bits_def take_map)
  also have "\<dots> \<longleftrightarrow> (\<forall>i. LENGTH('w) - n \<le> i \<and> i < LENGTH('w) \<longrightarrow> bit a i = bit b i)"
  proof (rule iffI; intro allI impI)
    fix i assume h: "\<forall>i < n. bit a (LENGTH('w) - 1 - i) = bit b (LENGTH('w) - 1 - i)" and i: "LENGTH('w) - n \<le> i \<and> i < LENGTH('w)"
    then have "LENGTH('w) - 1 - i < n" "LENGTH('w) - 1 - (LENGTH('w) - 1 - i) = i" by linarith+
    then show "bit a i = bit b i" using h by metis
  next
    fix i assume "\<forall>i. LENGTH('w) - n \<le> i \<and> i < LENGTH('w) \<longrightarrow> bit a i = bit b i" and "i < n"
    moreover have "LENGTH('w) - n \<le> LENGTH('w) - 1 - i" using \<open>i < n\<close> by linarith
    ultimately show "bit a (LENGTH('w) - 1 - i) = bit b (LENGTH('w) - 1 - i)" by simp
  qed
  finally show ?thesis .
qed

lemma mask_agree:
  assumes "\<And>i. i < LENGTH('w) \<Longrightarrow> bit m i \<longleftrightarrow> LENGTH('w) - n \<le> i" and "n \<le> LENGTH('w)"
  shows "a AND m = b AND (m :: 'w::len word) \<longleftrightarrow> take n (msb_bits a) = take n (msb_bits b)"
proof -
  have "a AND m = b AND m \<longleftrightarrow> (\<forall>i < LENGTH('w). bit (a AND m) i = bit (b AND m) i)"
    by (auto intro: bit_word_eqI)
  also have "\<dots> \<longleftrightarrow> (\<forall>i. LENGTH('w) - n \<le> i \<and> i < LENGTH('w) \<longrightarrow> bit a i = bit b i)"
    using assms(1) by (auto simp: bit_and_iff)
  finally show ?thesis using take_msb_bits [OF assms(2), of a b] by simp
qed

lemma bits_eq: "msb_bits a = msb_bits b \<longleftrightarrow> a = (b :: 'w::len word)"
  using take_msb_bits [of "LENGTH('w)" a b] by (auto intro: bit_word_eqI)

lemma netmask4_bits:
  assumes "0 < p" and "p \<le> 32" and "i < 32"
  shows "bit (netmask4 p) i \<longleftrightarrow> 32 - nat p \<le> i"
proof (cases "p = 32")
  case True
  then have "netmask4 p = mask 32" by (simp add: netmask4_def mask_eq_decr_exp)
  then show ?thesis using True assms(3) by (simp only: bit_mask_iff) simp
next
  case False
  have "(push_bit (nat (32 - p)) 1 - 1 :: 32 word) = mask (nat (32 - p))" by (simp add: mask_eq_decr_exp push_bit_eq_mult)
  then show ?thesis using False assms by (auto simp: netmask4_def bit_not_iff bit_mask_iff)
qed

lemma cmp_inet_zero:
  "cmp_inet a b p = 0 \<longleftrightarrow> take (compared p (Inet a)) (msb_bits a) = take (compared p (Inet a)) (msb_bits b)"
proof (cases "0 < p \<and> p \<le> 32")
  case True
  then have "32 - nat p \<le> 31" by linarith
  then have "bit (netmask4 p) 31" using netmask4_bits [of p 31] True by simp
  then have "netmask4 p > 0" by (metis bit_0_eq bot_apply bot_bool_def word_gt_0)
  moreover have "a AND netmask4 p = b AND netmask4 p \<longleftrightarrow> take (nat p) (msb_bits a) = take (nat p) (msb_bits b)"
    using True netmask4_bits [of p] by (intro mask_agree) auto
  moreover have "take (nat p) (msb_bits a) = take (nat p) (msb_bits b)" if "a = b" using that by simp
  ultimately show ?thesis using True by (auto simp: cmp_inet_def compared_def Let_def)
next
  case False
  then have "netmask4 p = 0" by (auto simp: netmask4_def)
  then show ?thesis using False bits_eq [of a b] by (auto simp: cmp_inet_def compared_def Let_def not_less_iff_gr_or_eq)
qed

lemma memcmp_zero: "length as = length bs \<Longrightarrow> memcmp as bs = 0 \<longleftrightarrow> as = bs"
  by (induction as bs rule: memcmp.induct) auto

lemma concat_bits_eq: "length as = length bs \<Longrightarrow> concat (map msb_bits as) = concat (map msb_bits (bs :: 8 word list)) \<longleftrightarrow> as = bs"
  by (induction as bs rule: list_induct2) (auto simp: bits_eq)

lemma length_concat_bits: "length (concat (map msb_bits (bs :: 8 word list))) = 8 * length bs"
  by (induction bs) auto

lemma take_concat_bits:
  assumes "k < length bs" and "r \<le> 8"
  shows "take (8 * k + r) (concat (map msb_bits (bs :: 8 word list))) =
    concat (map msb_bits (take k bs)) @ take r (msb_bits (bs ! k))"
proof -
  have "bs = take k bs @ bs ! k # drop (Suc k) bs" using assms(1) by (rule id_take_nth_drop)
  then have "concat (map msb_bits bs) = concat (map msb_bits (take k bs)) @ msb_bits (bs ! k) @ concat (map msb_bits (drop (Suc k) bs))"
    by (metis concat.simps(2) concat_append list.simps(9) map_append)
  moreover have "length (concat (map msb_bits (take k bs))) = 8 * k" using assms(1) length_concat_bits [of "take k bs"] by simp
  ultimately show ?thesis using assms(2) by simp
qed

lemma cmp_inet6_zero:
  assumes "length a = 16" and "length b = 16"
  shows "cmp_inet6 a b p = 0 \<longleftrightarrow>
    take (compared p (Inet6 a)) (addr_bits (Inet6 a)) = take (compared p (Inet6 a)) (addr_bits (Inet6 b))"
proof (cases "0 < p \<and> p \<le> 128")
  case False
  then show ?thesis
    using assms memcmp_zero [of a b] concat_bits_eq [of a b] length_concat_bits [of a] length_concat_bits [of b]
    by (auto simp: cmp_inet6_def compared_def Let_def)
next
  case True
  define k where "k = nat (p div 8)"
  define r where "r = nat (p mod 8)"
  have p: "nat p = 8 * k + r" "r < 8" "k \<le> 16" "k = 16 \<Longrightarrow> r = 0" proof -
    have "int k = p div 8" "int r = p mod 8" using True by (simp_all add: k_def r_def)
    then have "int (8 * k + r) = p" by simp
    then show "nat p = 8 * k + r" by linarith
    show "r < 8" by (simp add: r_def nat_less_iff)
    then show "k \<le> 16" "k = 16 \<Longrightarrow> r = 0" using \<open>nat p = 8 * k + r\<close> True by linarith+
  qed
  have c: "compared p (Inet6 a) = 8 * k + r" using True p assms length_concat_bits [of a] by (simp add: compared_def Let_def)
  have full: "memcmp (take k a) (take k b) = 0 \<longleftrightarrow> take k a = take k b" using assms by (intro memcmp_zero) simp
  have bits: "concat (map msb_bits (take k a)) = concat (map msb_bits (take k b)) \<longleftrightarrow> take k a = take k b"
    using assms by (intro concat_bits_eq) simp
  show ?thesis
  proof (cases "k = 16")
    case True
    then have "cmp_inet6 a b p = memcmp (take k a) (take k b)"
      using \<open>0 < p \<and> p \<le> 128\<close> p(4) by (simp add: cmp_inet6_def Let_def flip: k_def r_def)
    then show ?thesis
      using c full bits True p(4) assms length_concat_bits [of a] length_concat_bits [of b] by simp
  next
    case False
    then have k: "k < 16" using p(3) by simp
    have m: "x AND push_bit (8 - r) (- 1) = y AND push_bit (8 - r) (- 1) \<longleftrightarrow> take r (msb_bits x) = take r (msb_bits y)"
      if "0 < r" for x y :: "8 word"
      using that p(2) by (intro mask_agree) (auto simp: bit_not_iff bit_mask_iff)
    have "cmp_inet6 a b p = 0 \<longleftrightarrow> take k a = take k b \<and> take r (msb_bits (a ! k)) = take r (msb_bits (b ! k))"
      using True full m [of "a ! k" "b ! k"] by (auto simp: cmp_inet6_def Let_def simp flip: k_def r_def)
    moreover have "length (concat (map msb_bits (take k a))) = length (concat (map msb_bits (take k b)))"
      using assms by (simp only: length_concat_bits length_take)
    ultimately show ?thesis
      unfolding c addr_bits.simps using k assms p(2) bits by (simp add: take_concat_bits)
  qed
qed

text \<open>C29: Comparing two addresses under a prefix length gives 0 exactly when they are of one family and their first bits
  of that number agree, across the bytes of an IPv6 address; a length that is 0, negative or too large compares
  the whole address, so the network \<open>0.0.0.0/0\<close> holds only the address \<open>0.0.0.0\<close>.\<close>

theorem sockAddrCmpAddr_prefix:
  assumes "addr_ok a" and "addr_ok b"
  shows "sockAddrCmpAddr a b p = Inr 0 \<longleftrightarrow>
    sa_family a = sa_family b \<and> take (compared p a) (addr_bits a) = take (compared p a) (addr_bits b)"
  using assms cmp_inet_zero cmp_inet6_zero
  by (cases a; cases b) (simp_all add: sockAddrCmpAddr_def)

lemma sockAddrCmpAddr_prefix_witness:
  "sockAddrCmpAddr (Inet 0) (Inet 1) 31 = Inr 0 \<and> sockAddrCmpAddr (Inet 0) (Inet 1) 0 \<noteq> Inr 0"
  using sockAddrCmpAddr_prefix [of "Inet 0" "Inet 1"] by (simp add: compared_def msb_bits_def upt_rec numeral_eq_Suc)

text \<open>Without a prefix the comparison is equality of addresses.\<close>

lemma equals_addr_iff:
  assumes "addr_ok a" and "addr_ok b"
  shows "equals_addr a b = Inr (a = b)"
proof -
  have "\<exists>c. sockAddrCmpAddr b a (- 1) = Inr c" using assms by (cases a; cases b) (simp_all add: sockAddrCmpAddr_def)
  then obtain c where c: "sockAddrCmpAddr b a (- 1) = Inr c" by blast
  have "c = 0 \<longleftrightarrow> a = b"
    using c assms memcmp_zero
    by (cases a; cases b) (auto simp: sockAddrCmpAddr_def cmp_inet_def netmask4_def cmp_inet6_def Let_def split: if_splits)
  then show ?thesis by (simp add: equals_addr_def c)
qed

end
