(* ===== verification/Client_Manager.thy ===== *)
theory Client_Manager
  imports Client_Config Grb_Net
begin

text \<open>
  Recognising clients (\<open>src/src/upnp/client_manager.cc\<close>): the table of profiles, the cache of the clients seen,
  and what a request is answered by. The observations point into the vector of profiles; a pointer is the number
  of the memory block the vector had and an index, so that a pointer into a block the vector has left is an
  error. How a full vector grows is a parameter, as are the conversions of texts to addresses, the configured
  clients, and the description a client is downloaded from.
\<close>

type_synonym profile_ptr = "nat \<times> nat"

record ClientObservation =
  ob_addr :: sock_addr
  ob_userAgent :: string
  ob_last :: int
  ob_age :: int
  ob_headers :: "nat option"
  ob_pInfo :: profile_ptr

record client_manager =
  clientProfile :: "ClientProfile list"
  block :: nat
  capacity :: nat
  cache :: "ClientObservation list"
  cacheThreshold :: int

datatype client_error = Net net_error | Dangling | Past_end

section \<open>The table of profiles\<close>

definition agent_profile :: "string \<Rightarrow> ClientType \<Rightarrow> Quirk list \<Rightarrow> string \<Rightarrow> ClientProfile" where
  "agent_profile name type qs match =
     default_profile\<lparr>cp_name := name, cp_type := type, cp_flags := quirk_getFlags qs, cp_matchType := UserAgent, cp_match := match\<rparr>"

definition builtin_profiles :: "ClientProfile list" where
  "builtin_profiles =
     [default_profile\<lparr>cp_flags := quirk_getFlags [Q_None]\<rparr>,
      agent_profile ''Standard UPnP'' CT_StandardUPnP [Q_None] ''UPnP/1.0'',
      (agent_profile ''BubbleUPnP'' CT_BubbleUPnP [Q_None] ''BubbleUPnP'')\<lparr>isUnique := False\<rparr>,
      agent_profile ''Samsung Series [CDEFJ] TVs'' CT_SamsungSeriesCDE
        [Q_Samsung, Q_SamsungFeatures, Q_SamsungHideDynamic, Q_DCM10, Q_CaptionProtocol, Q_SamsungBookmarkSeconds] ''SEC_HHP_'',
      (agent_profile ''Samsung AllShare'' CT_SamsungAllShare [Q_None] ''SEC_HHP_[PC]'')\<lparr>isUnique := False\<rparr>,
      agent_profile ''Samsung Series [Q] TVs'' CT_SamsungSeriesQ
        [Q_Samsung, Q_SamsungFeatures, Q_SamsungHideDynamic, Q_DCM10, Q_CaptionProtocol, Q_SamsungBookmarkMilliSeconds]
        ''SEC_HHP_[TV] Samsung Q'',
      agent_profile ''Samsung Series [QN] TVs'' CT_SamsungSeriesQN
        [Q_Samsung, Q_SamsungFeatures, Q_SamsungHideDynamic, Q_DCM10, Q_CaptionProtocol, Q_SamsungBookmarkMilliSeconds]
        ''SEC_HHP_Samsung QN'',
      agent_profile ''Samsung Series A TVs'' CT_SamsungSeriesA [Q_Samsung, Q_SamsungFeatures] ''SamsungWiselinkPro'',
      agent_profile ''Samsung Series B TVs'' CT_SamsungSeriesB [Q_Samsung, Q_SamsungFeatures] ''Samsung DTV DMR'',
      agent_profile ''Samsung Blu-ray Player BD-D5100'' CT_SamsungBDP [Q_Samsung, Q_SamsungFeatures] ''SEC_HHP_BD'',
      agent_profile ''Samsung Blu-ray Player J5500'' CT_SamsungBDJ5500 [Q_Samsung, Q_SamsungFeatures, Q_CaptionProtocol]
        ''[BD]J5500'',
      agent_profile ''Dual CR 510'' CT_IRadio [Q_NoXmlDeclaration] ''EC-IRADIO/1.0'',
      agent_profile ''Technisat DigitRadio 580'' CT_FSL [Q_SimpleDate] ''FSL DLNADOC/1.50'',
      agent_profile ''Panasonic TV'' CT_PanasonicTV [Q_ForceSortCriteriaTitle] ''Panasonic MIL DLNA CP'',
      agent_profile ''Bose Soundtouch'' CT_BoseSoundtouch [Q_StrictXML] ''Allegro-Software-WebClient'',
      agent_profile ''Yamaha RX'' CT_YamahaRX [Q_AsciiXML] ''KnOS/3.2'',
      agent_profile ''Freebox Player'' CT_Freebox [Q_ForceNoConversion] ''fbxupnpav/6.0'',
      agent_profile ''Universum DAB+ Internet Radio'' CT_Universum [Q_NoSecNamespace] ''IR 500/1.0'']"

text \<open>Assignment to the vector keeps its memory when that is large enough; an addition to a full one moves it.\<close>

definition assign_profiles :: "ClientProfile list \<Rightarrow> client_manager \<Rightarrow> client_manager" where
  "assign_profiles ps m =
     (if capacity m < length ps then m\<lparr>clientProfile := ps, block := block m + 1, capacity := length ps\<rparr>
      else m\<lparr>clientProfile := ps\<rparr>)"

definition push_profile :: "(nat \<Rightarrow> nat) \<Rightarrow> ClientProfile \<Rightarrow> client_manager \<Rightarrow> client_manager" where
  "push_profile grow p m =
     (if length (clientProfile m) = capacity m
      then m\<lparr>clientProfile := clientProfile m @ [p], block := block m + 1, capacity := grow (capacity m)\<rparr>
      else m\<lparr>clientProfile := clientProfile m @ [p]\<rparr>)"

definition server_profile :: "32 word \<Rightarrow> string \<Rightarrow> string \<Rightarrow> ClientProfile" where
  "server_profile flags ip name =
     default_profile\<lparr>cp_flags := flags, cp_type := CT_Server, cp_matchType := Match_IP, cp_match := ip, cp_name := name,
       isAllowed := True, isUnique := False\<rparr>"

text \<open>The configured list: whether the default group is allowed, when there is one, and the profiles.\<close>

definition refresh :: "(nat \<Rightarrow> nat) \<Rightarrow> (bool option \<times> ClientProfile list) option \<Rightarrow> ClientProfile \<Rightarrow> client_manager \<Rightarrow> client_manager" where
  "refresh grow config server m =
     (let m1 = assign_profiles builtin_profiles m in
      case config of
        None \<Rightarrow> m1
      | Some (defaultGroup, clients) \<Rightarrow>
          (let m2 = (case defaultGroup of
               None \<Rightarrow> m1
             | Some allowed \<Rightarrow> m1\<lparr>clientProfile := map (\<lambda>cp. cp\<lparr>isAllowed := allowed\<rparr>) (clientProfile m1)\<rparr>)
           in push_profile grow server (fold (push_profile grow) clients m2)))"

section \<open>Looking up\<close>

definition deref :: "client_manager \<Rightarrow> profile_ptr \<Rightarrow> client_error + ClientProfile" where
  "deref m p = (if fst p = block m \<and> snd p < length (clientProfile m) then Inr (clientProfile m ! snd p) else Inl Dangling)"

fun find_indexE :: "('a \<Rightarrow> 'e + bool) \<Rightarrow> 'a list \<Rightarrow> 'e + nat option" where
  "find_indexE P [] = Inr None"
| "find_indexE P (x # xs) =
     bindE (P x) (\<lambda>b. if b then Inr (Some 0) else bindE (find_indexE P xs) (\<lambda>i. Inr (map_option Suc i)))"

fun filterE :: "('a \<Rightarrow> 'e + bool) \<Rightarrow> 'a list \<Rightarrow> 'e + 'a list" where
  "filterE P [] = Inr []"
| "filterE P (x # xs) = bindE (P x) (\<lambda>b. bindE (filterE P xs) (\<lambda>ys. Inr (if b then x # ys else ys)))"

definition net :: "net_error + 'a \<Rightarrow> client_error + 'a" where
  "net r = (case r of Inl e \<Rightarrow> Inl (Net e) | Inr a \<Rightarrow> Inr a)"

definition getInfoByAddr :: "(sock_addr \<Rightarrow> string \<Rightarrow> net_error + bool) \<Rightarrow> sock_addr \<Rightarrow> client_manager \<Rightarrow> client_error + nat option" where
  "getInfoByAddr eq addr m =
     find_indexE (\<lambda>c. if cp_matchType c \<noteq> Match_IP then Inr False else net (eq addr (cp_match c))) (clientProfile m)"

text \<open>The last profile that fits.\<close>

definition getInfoByType :: "string \<Rightarrow> ClientMatchType \<Rightarrow> client_manager \<Rightarrow> nat option" where
  "getInfoByType match type m =
     (if match = [] then None
      else find (\<lambda>i. cp_matchType (clientProfile m ! i) = type \<and> find_sub (cp_match (clientProfile m ! i)) match \<noteq> None)
        (rev [0..<length (clientProfile m)]))"

definition same_client :: "sock_addr \<Rightarrow> string \<Rightarrow> client_manager \<Rightarrow> ClientObservation \<Rightarrow> client_error + bool" where
  "same_client addr userAgent m e =
     bindE (net (equals_addr (ob_addr e) addr)) (\<lambda>b.
       if \<not> b then Inr False else bindE (deref m (ob_pInfo e)) (\<lambda>p. Inr (isUnique p \<or> ob_userAgent e = userAgent)))"

definition getInfoByCache :: "sock_addr \<Rightarrow> string \<Rightarrow> client_manager \<Rightarrow> client_error + nat option" where
  "getInfoByCache addr userAgent m = find_indexE (same_client addr userAgent m) (cache m)"

definition housekeeping :: "int \<Rightarrow> client_manager \<Rightarrow> ClientObservation list" where
  "housekeeping now m = filter (\<lambda>e. \<not> ob_last e + cacheThreshold m < now) (cache m)"

definition seen_again :: "int \<Rightarrow> string \<Rightarrow> nat option \<Rightarrow> profile_ptr \<Rightarrow> ClientObservation \<Rightarrow> ClientObservation" where
  "seen_again now userAgent headers p e =
     (let e1 = e\<lparr>ob_last := now\<rparr>
      in if ob_pInfo e \<noteq> p
         then e1\<lparr>ob_age := now, ob_userAgent := userAgent, ob_headers := (if headers \<noteq> None then headers else ob_headers e1), ob_pInfo := p\<rparr>
         else e1)"

text \<open>The result is the position of the observation it returns a pointer to.\<close>

definition updateCache :: "int \<Rightarrow> sock_addr \<Rightarrow> string \<Rightarrow> nat option \<Rightarrow> profile_ptr \<Rightarrow> client_manager \<Rightarrow> client_error + nat \<times> client_manager" where
  "updateCache now addr userAgent headers p m =
     (let m1 = m\<lparr>cache := housekeeping now m\<rparr> in
      bindE (find_indexE (same_client addr userAgent m1) (cache m1)) (\<lambda>it. case it of
        Some i \<Rightarrow> Inr (i, m1\<lparr>cache := (cache m1)[i := seen_again now userAgent headers p (cache m1 ! i)]\<rparr>)
      | None \<Rightarrow>
          (let m2 = m1\<lparr>cache := cache m1 @ [\<lparr>ob_addr = addr, ob_userAgent = userAgent, ob_last = now, ob_age = now,
                 ob_headers = headers, ob_pInfo = p\<rparr>]\<rparr>
           in bindE (find_indexE (\<lambda>e. net (equals_addr (ob_addr e) addr)) (cache m2)) (\<lambda>it. case it of
                Some i \<Rightarrow> Inr (i, m2)
              | None \<Rightarrow> Inl Past_end))))"

definition getInfo :: "(sock_addr \<Rightarrow> string \<Rightarrow> net_error + bool) \<Rightarrow> int \<Rightarrow> sock_addr \<Rightarrow> string \<Rightarrow> nat option \<Rightarrow> client_manager
    \<Rightarrow> client_error + nat \<times> client_manager" where
  "getInfo eq now addr userAgent headers m =
     bindE (getInfoByAddr eq addr m) (\<lambda>byAddr.
       case (case byAddr of Some j \<Rightarrow> Some j | None \<Rightarrow> getInfoByType userAgent UserAgent m) of
         Some j \<Rightarrow> updateCache now addr userAgent headers (block m, j) m
       | None \<Rightarrow> bindE (getInfoByCache addr userAgent m) (\<lambda>client. case client of
             Some i \<Rightarrow> Inr (i, m)
           | None \<Rightarrow> updateCache now addr userAgent headers (block m, 0) m))"

definition removeClient :: "(sock_addr \<Rightarrow> string \<Rightarrow> net_error + bool) \<Rightarrow> string \<Rightarrow> string \<Rightarrow> client_manager \<Rightarrow> client_error + client_manager" where
  "removeClient eq clientIp userAgent m =
     bindE (filterE (\<lambda>e. bindE (bindE (net (eq (ob_addr e) clientIp)) (\<lambda>b.
         if \<not> b then Inr False else bindE (deref m (ob_pInfo e)) (\<lambda>p. Inr (isUnique p \<or> ob_userAgent e = userAgent))))
         (\<lambda>b. Inr (\<not> b))) (cache m))
       (\<lambda>c. Inr (m\<lparr>cache := c\<rparr>))"

text \<open>The properties of the device in its description, when it can be read; each that fits a profile updates the cache.\<close>

definition discover :: "int \<Rightarrow> sock_addr \<Rightarrow> string \<Rightarrow> (ClientMatchType \<Rightarrow> string option) \<Rightarrow> ClientMatchType \<Rightarrow> client_error + client_manager
    \<Rightarrow> client_error + client_manager" where
  "discover now addr userAgent device t r =
     bindE r (\<lambda>m. case device t of
         None \<Rightarrow> Inr m
       | Some v \<Rightarrow> (case getInfoByType v t m of
             None \<Rightarrow> Inr m
           | Some j \<Rightarrow> bindE (updateCache now addr userAgent None (block m, j) m) (\<lambda>(i, m'). Inr m')))"

definition addClientByDiscovery :: "(sock_addr \<Rightarrow> string \<Rightarrow> net_error + bool) \<Rightarrow> int \<Rightarrow> sock_addr \<Rightarrow> string \<Rightarrow> (ClientMatchType \<Rightarrow> string option)
    \<Rightarrow> client_manager \<Rightarrow> client_error + client_manager" where
  "addClientByDiscovery eq now addr userAgent device m =
     bindE (getInfo eq now addr userAgent None m) (\<lambda>(i, m1).
       bindE (deref m1 (ob_pInfo (cache m1 ! i))) (\<lambda>p.
         if cp_matchType p = Match_None
         then fold (discover now addr userAgent device) [FriendlyName, ModelName, Manufacturer] (Inr m1)
         else Inr m1))"

text \<open>The constructor: the stored observations are recognised again.\<close>

fun load_clients :: "(sock_addr \<Rightarrow> string \<Rightarrow> net_error + bool) \<Rightarrow> ClientObservation list \<Rightarrow> client_manager \<Rightarrow> client_error + client_manager" where
  "load_clients eq [] m = Inr m"
| "load_clients eq (e # es) m =
     bindE (getInfoByAddr eq (ob_addr e) m) (\<lambda>byAddr.
       let j = (case byAddr of Some j \<Rightarrow> j | None \<Rightarrow>
                  (case getInfoByType (ob_userAgent e) UserAgent m of Some j \<Rightarrow> j | None \<Rightarrow> 0))
       in load_clients eq es (m\<lparr>cache := cache m @ [e\<lparr>ob_pInfo := (block m, j)\<rparr>]\<rparr>))"

definition new_manager :: "(nat \<Rightarrow> nat) \<Rightarrow> (sock_addr \<Rightarrow> string \<Rightarrow> net_error + bool) \<Rightarrow> (bool option \<times> ClientProfile list) option
    \<Rightarrow> ClientProfile \<Rightarrow> int \<Rightarrow> ClientObservation list \<Rightarrow> client_error + client_manager" where
  "new_manager grow eq config server threshold stored =
     load_clients eq stored
       (refresh grow config server \<lparr>clientProfile = [], block = 0, capacity = 0, cache = [], cacheThreshold = threshold\<rparr>)"

end
