(* ===== verification/Client_Cache.thy ===== *)
theory Client_Cache
  imports Client_Manager
begin

text \<open>
  What the cache of clients guarantees: a request gets an observation of its own address; which profile that
  observation has; and what reloading the profiles does to the observations that point to them.
\<close>

section \<open>A manager whose pointers are valid\<close>

definition pointer_ok :: "client_manager \<Rightarrow> profile_ptr \<Rightarrow> bool" where
  "pointer_ok m p = (fst p = block m \<and> snd p < length (clientProfile m))"

definition manager_ok :: "client_manager \<Rightarrow> bool" where
  "manager_ok m =
     (clientProfile m \<noteq> [] \<and> (\<forall>e \<in> set (cache m). addr_ok (ob_addr e) \<and> pointer_ok m (ob_pInfo e)))"

text \<open>The configured networks are not empty texts.\<close>

definition networks_ok :: "client_manager \<Rightarrow> bool" where
  "networks_ok m =
     (\<forall>c \<in> set (clientProfile m). cp_matchType c = Match_IP \<longrightarrow> splitString (cp_match c) (CHR ''/'') (CHR 0x00) False \<noteq> [])"

definition fits :: "client_manager \<Rightarrow> sock_addr \<Rightarrow> string \<Rightarrow> ClientObservation \<Rightarrow> bool" where
  "fits m addr userAgent e =
     (ob_addr e = addr \<and> (isUnique (clientProfile m ! snd (ob_pInfo e)) \<or> ob_userAgent e = userAgent))"

lemma find_indexE_position: "\<forall>x \<in> set xs. P x = Inr (Q x) \<Longrightarrow> find_indexE P xs = Inr (position Q xs)"
  by (induction xs) auto

lemma find_indexE_total:
  "\<forall>x \<in> set xs. \<exists>b. P x = Inr b \<Longrightarrow> \<exists>r. find_indexE P xs = Inr r \<and> (\<forall>i. r = Some i \<longrightarrow> i < length xs)"
proof (induction xs)
  case (Cons x xs)
  then obtain b r where "P x = Inr b" "find_indexE P xs = Inr r" "\<forall>i. r = Some i \<longrightarrow> i < length xs" by auto
  then show ?case by (cases b; cases r) auto
qed simp

lemma net_Inr [simp]: "net (Inr a) = Inr a"
  by (simp add: net_def)

lemma same_client_fits:
  assumes "addr_ok addr" and "addr_ok (ob_addr e)" and "pointer_ok m (ob_pInfo e)"
  shows "same_client addr userAgent m e = Inr (fits m addr userAgent e)"
  using assms by (simp add: same_client_def equals_addr_iff fits_def deref_def pointer_ok_def)

lemma manager_same: "clientProfile m' = clientProfile m \<Longrightarrow> block m' = block m \<Longrightarrow> pointer_ok m' = pointer_ok m"
  by (auto simp: pointer_ok_def fun_eq_iff)

definition new_observation :: "int \<Rightarrow> sock_addr \<Rightarrow> string \<Rightarrow> nat option \<Rightarrow> profile_ptr \<Rightarrow> ClientObservation" where
  "new_observation now addr userAgent headers p =
     \<lparr>ob_addr = addr, ob_userAgent = userAgent, ob_last = now, ob_age = now, ob_headers = headers, ob_pInfo = p\<rparr>"

text \<open>What an update does, without its errors.\<close>

definition updated :: "int \<Rightarrow> sock_addr \<Rightarrow> string \<Rightarrow> nat option \<Rightarrow> profile_ptr \<Rightarrow> client_manager \<Rightarrow> nat \<times> client_manager" where
  "updated now addr userAgent headers p m =
     (let kept = housekeeping now m in
      case position (fits m addr userAgent) kept of
        Some i \<Rightarrow> (i, m\<lparr>cache := kept[i := seen_again now userAgent headers p (kept ! i)]\<rparr>)
      | None \<Rightarrow> (case position (\<lambda>e. ob_addr e = addr) kept of Some i \<Rightarrow> i | None \<Rightarrow> length kept,
                 m\<lparr>cache := kept @ [new_observation now addr userAgent headers p]\<rparr>))"

lemma position_append: "position P (xs @ ys) = (case position P xs of Some i \<Rightarrow> Some i | None \<Rightarrow> map_option ((+) (length xs)) (position P ys))"
  by (cases "position P ys"; induction xs) (auto split: option.split)

lemma updateCache_updated:
  assumes "manager_ok m" and "addr_ok addr"
  shows "updateCache now addr userAgent headers p m = Inr (updated now addr userAgent headers p m)"
proof -
  let ?kept = "housekeeping now m" and ?m1 = "m\<lparr>cache := housekeeping now m\<rparr>"
  let ?new = "new_observation now addr userAgent headers p"
  have ok: "\<forall>e \<in> set ?kept. addr_ok (ob_addr e) \<and> pointer_ok m (ob_pInfo e)"
    using assms(1) by (auto simp: manager_ok_def housekeeping_def)
  have po: "pointer_ok ?m1 = pointer_ok m" "fits ?m1 = fits m" by (auto simp: pointer_ok_def fits_def fun_eq_iff)
  have f: "find_indexE (same_client addr userAgent ?m1) ?kept = Inr (position (fits m addr userAgent) ?kept)"
    using ok same_client_fits [OF assms(2), of _ ?m1] by (intro find_indexE_position) (simp add: po)
  have g: "find_indexE (\<lambda>e. net (equals_addr (ob_addr e) addr)) (?kept @ [?new]) =
      Inr (position (\<lambda>e. ob_addr e = addr) (?kept @ [?new]))"
    using ok assms(2) by (intro find_indexE_position) (auto simp: equals_addr_iff new_observation_def)
  show ?thesis
  proof (cases "position (fits m addr userAgent) ?kept")
    case None
    then show ?thesis using f g
      by (simp add: updateCache_def updated_def Let_def position_append new_observation_def split: option.split)
  next
    case (Some i)
    then show ?thesis using f by (simp add: updateCache_def updated_def Let_def)
  qed
qed

lemma updated_ok:
  assumes "manager_ok m" and "addr_ok addr" and "pointer_ok m p" and "updated now addr userAgent headers p m = (i, m')"
  shows "manager_ok m'" and "i < length (cache m')" and "ob_addr (cache m' ! i) = addr"
    and "clientProfile m' = clientProfile m" and "block m' = block m"
proof -
  let ?kept = "housekeeping now m"
  have ok: "\<forall>e \<in> set ?kept. addr_ok (ob_addr e) \<and> pointer_ok m (ob_pInfo e)"
    using assms(1) by (auto simp: manager_ok_def housekeeping_def)
  have again: "ob_addr (seen_again now userAgent headers p e) = ob_addr e"
    "pointer_ok m (ob_pInfo e) \<Longrightarrow> pointer_ok m (ob_pInfo (seen_again now userAgent headers p e))" for e
    using assms(3) by (auto simp: seen_again_def Let_def)
  have "clientProfile m' = clientProfile m \<and> block m' = block m \<and> i < length (cache m') \<and> ob_addr (cache m' ! i) = addr \<and>
      (\<forall>e \<in> set (cache m'). addr_ok (ob_addr e) \<and> pointer_ok m (ob_pInfo e))"
  proof (cases "position (fits m addr userAgent) ?kept")
    case (Some j)
    note j = position_Some [OF Some]
    then have "ob_addr (?kept ! j) = addr" "?kept ! j \<in> set ?kept" by (auto simp: fits_def)
    then show ?thesis using Some j assms(4) ok again by (auto simp: updated_def Let_def dest!: set_update_subset_insert [THEN subsetD])
  next
    case None
    have n: "addr_ok (ob_addr (new_observation now addr userAgent headers p))"
      "pointer_ok m (ob_pInfo (new_observation now addr userAgent headers p))" using assms(2,3) by (simp_all add: new_observation_def)
    show ?thesis
    proof (cases "position (\<lambda>e. ob_addr e = addr) ?kept")
      case (Some j)
      note j = position_Some [OF Some]
      then show ?thesis using None Some assms(4) ok n by (auto simp: updated_def Let_def nth_append)
    next
      case None2: None
      then show ?thesis using None assms(4) ok n by (auto simp: updated_def Let_def new_observation_def)
    qed
  qed
  then show "manager_ok m'" and "i < length (cache m')" and "ob_addr (cache m' ! i) = addr"
    and "clientProfile m' = clientProfile m" and "block m' = block m"
    using assms(1) manager_same [of m' m] by (auto simp: manager_ok_def)
qed

section \<open>Requests\<close>

lemma equals_match_total:
  assumes "addr_ok a" and "splitString s (CHR ''/'') (CHR 0x00) False \<noteq> []" and "\<forall>s b. pton s = Some b \<longrightarrow> length b = 16"
  shows "\<exists>b. equals_match pton iaddr a s = Inr b"
proof -
  obtain ip ps where s: "splitString s (CHR ''/'') (CHR 0x00) False = ip # ps" using assms(2) by (meson list.exhaust)
  have "\<exists>c. sockAddrCmpAddr x a l = Inr c" if "addr_ok x" for x l
    using that assms(1) by (cases x; cases a) (simp_all add: sockAddrCmpAddr_def)
  then have c: "\<exists>b. bindE (sockAddrCmpAddr x a l) (\<lambda>c. Inr (c = 0)) = Inr b" if "addr_ok x" for x l
    using that by (metis bindE.simps(2))
  have "Ex Not" by blast
  then show ?thesis
    using s assms(3) c [of "Inet (iaddr ip)"] c [of "Inet6 b" for b]
    by (cases "pton ip") (simp_all add: equals_match_def Let_def)
qed

lemma getInfoByAddr_total:
  assumes "networks_ok m" and "addr_ok addr" and "\<forall>s b. pton s = Some b \<longrightarrow> length b = 16"
  shows "\<exists>r. getInfoByAddr (equals_match pton iaddr) addr m = Inr r \<and> (\<forall>j. r = Some j \<longrightarrow> j < length (clientProfile m))"
  unfolding getInfoByAddr_def
proof (rule find_indexE_total, intro ballI)
  fix c assume "c \<in> set (clientProfile m)"
  then show "\<exists>b. (if cp_matchType c \<noteq> Match_IP then Inr False else net (equals_match pton iaddr addr (cp_match c))) = Inr b"
    using equals_match_total [OF assms(2) _ assms(3), of "cp_match c" iaddr] assms(1) by (auto simp: networks_ok_def)
qed

lemma getInfoByType_less: "getInfoByType v t m = Some j \<Longrightarrow> j < length (clientProfile m)"
  by (auto simp: getInfoByType_def find_Some_iff rev_nth split: if_splits)

definition recognised :: "nat option \<Rightarrow> string \<Rightarrow> client_manager \<Rightarrow> nat option" where
  "recognised byAddr userAgent m = (case byAddr of Some j \<Rightarrow> Some j | None \<Rightarrow> getInfoByType userAgent UserAgent m)"

text \<open>The ways a request is answered.\<close>

lemma getInfo_cases:
  assumes "manager_ok m" and "addr_ok addr" and "getInfoByAddr eq addr m = Inr r"
  shows "getInfo eq now addr userAgent headers m =
    (case recognised r userAgent m of
       Some j \<Rightarrow> Inr (updated now addr userAgent headers (block m, j) m)
     | None \<Rightarrow> (case position (fits m addr userAgent) (cache m) of
         Some i \<Rightarrow> Inr (i, m)
       | None \<Rightarrow> Inr (updated now addr userAgent headers (block m, 0) m)))"
proof -
  have "getInfoByCache addr userAgent m = Inr (position (fits m addr userAgent) (cache m))"
    using assms(1) same_client_fits [OF assms(2)]
    unfolding getInfoByCache_def by (intro find_indexE_position) (auto simp: manager_ok_def)
  then show ?thesis
    using updateCache_updated [OF assms(1,2)] assms(3) by (simp add: getInfo_def recognised_def split: option.split)
qed


text \<open>C14: Which profile a recognised client is answered with: the one that was found, when an observation of it is known
  or no other client has the address. Defect: otherwise, when two clients that share an address are told apart by
  their user agents, the new one is added to the cache but answered with the observation, and so the profile, of
  the first client of the address.\<close>

theorem getInfo_profile:
  assumes "manager_ok m" and "addr_ok addr" and "getInfoByAddr eq addr m = Inr r" and "recognised r userAgent m = Some j"
    and "kept = housekeeping now m"
  shows "\<exists>i m'. getInfo eq now addr userAgent headers m = Inr (i, m') \<and>
    ob_pInfo (cache m' ! i) =
      (if (\<exists>e \<in> set kept. fits m addr userAgent e) \<or> (\<forall>e \<in> set kept. ob_addr e \<noteq> addr) then (block m, j)
       else ob_pInfo (kept ! the (position (\<lambda>e. ob_addr e = addr) kept)))"
proof -
  obtain i m' where u: "updated now addr userAgent headers (block m, j) m = (i, m')" by fastforce
  have g: "getInfo eq now addr userAgent headers m = Inr (i, m')" using getInfo_cases [OF assms(1-3)] assms(4) u by simp
  have "ob_pInfo (cache m' ! i) = (if (\<exists>e \<in> set kept. fits m addr userAgent e) \<or> (\<forall>e \<in> set kept. ob_addr e \<noteq> addr) then (block m, j)
       else ob_pInfo (kept ! the (position (\<lambda>e. ob_addr e = addr) kept)))"
  proof (cases "position (fits m addr userAgent) kept")
    case (Some k)
    then have "\<exists>e \<in> set kept. fits m addr userAgent e" using position_Some [OF Some] nth_mem by blast
    then show ?thesis using u Some position_Some [OF Some] assms(5) by (auto simp: updated_def Let_def seen_again_def)
  next
    case None
    then have n: "\<not> (\<exists>e \<in> set kept. fits m addr userAgent e)" by (simp add: position_None_iff)
    show ?thesis
    proof (cases "position (\<lambda>e. ob_addr e = addr) kept")
      case (Some k)
      then have "\<not> (\<forall>e \<in> set kept. ob_addr e \<noteq> addr)" using position_Some [OF Some] nth_mem by blast
      then show ?thesis using u None Some n position_Some [OF Some] assms(5) by (auto simp: updated_def Let_def nth_append)
    next
      case N: None
      then have "\<forall>e \<in> set kept. ob_addr e \<noteq> addr" by (simp add: position_None_iff)
      then show ?thesis using u None N assms(5) by (auto simp: updated_def Let_def new_observation_def)
    qed
  qed
  then show ?thesis using g by blast
qed

section \<open>Reloading the profiles\<close>

definition moved :: "client_manager \<Rightarrow> client_manager \<Rightarrow> bool" where
  "moved m m' = (block m < block m' \<or>
     (block m' = block m \<and> capacity m' = capacity m \<and> length (clientProfile m') \<le> capacity m'))"

lemma push_moved: "moved m m' \<Longrightarrow> moved m (push_profile grow p m')"
  by (auto simp: moved_def push_profile_def)

lemma fold_moved: "moved m m' \<Longrightarrow> moved m (fold (push_profile grow) ps m')"
  by (induction ps arbitrary: m') (auto intro: push_moved)

lemma moved_map: "moved m m' \<Longrightarrow> moved m (m'\<lparr>clientProfile := map f (clientProfile m')\<rparr>)"
  by (simp add: moved_def)

lemma push_rest: "cache (push_profile grow p m) = cache m" "cacheThreshold (push_profile grow p m) = cacheThreshold m"
  "clientProfile (push_profile grow p m) = clientProfile m @ [p]" "block m \<le> block (push_profile grow p m)"
  by (simp_all add: push_profile_def)

lemma fold_rest: "cache (fold (push_profile grow) ps m) = cache m" "cacheThreshold (fold (push_profile grow) ps m) = cacheThreshold m"
  "clientProfile (fold (push_profile grow) ps m) = clientProfile m @ ps" "block m \<le> block (fold (push_profile grow) ps m)"
proof (induction ps arbitrary: m)
  case (Cons p ps)
  {
    case 4
    show ?case using Cons(4) [of "push_profile grow p m"] push_rest(4) [of m grow p] by simp
  }
qed (simp_all add: push_rest)

lemma refresh_facts:
  "cache (refresh grow config server m) = cache m" "cacheThreshold (refresh grow config server m) = cacheThreshold m"
  "moved m (refresh grow config server m)"
proof -
  have a: "moved m (assign_profiles builtin_profiles m)" "cache (assign_profiles ps m) = cache m"
    "cacheThreshold (assign_profiles ps m) = cacheThreshold m" for ps
    by (auto simp: moved_def assign_profiles_def)
  then show "cache (refresh grow config server m) = cache m" "cacheThreshold (refresh grow config server m) = cacheThreshold m"
    by (simp_all add: refresh_def push_rest fold_rest Let_def split: option.split)
  show "moved m (refresh grow config server m)"
    using a(1) by (auto simp: refresh_def Let_def intro!: push_moved fold_moved moved_map split: option.split)
qed

lemma dangling_stops:
  "\<forall>e \<in> set xs. addr_ok (ob_addr e) \<and> (ob_addr e = addr \<longrightarrow> deref m (ob_pInfo e) = Inl Dangling) \<Longrightarrow> addr_ok addr \<Longrightarrow>
   \<exists>e \<in> set xs. ob_addr e = addr \<Longrightarrow> find_indexE (same_client addr userAgent m) xs = Inl Dangling"
proof (induction xs)
  case (Cons e xs)
  then show ?case by (cases "ob_addr e = addr") (auto simp: same_client_def equals_addr_iff)
qed simp

text \<open>C15: Defect: saving the configuration reloads the profiles, and the cached observations keep their pointers. When
  the vector needs more memory than it has, or has become shorter than the index, the pointer dangles, and the next
  request of a cached address follows it; otherwise it denotes whichever profile is now at its index.\<close>

theorem refresh_keeps_pointers:
  assumes "manager_ok m" and "refresh grow config server m = m'" and "e \<in> set (cache m)" and "n = length (clientProfile m')"
    and "networks_ok m'" and "addr_ok (ob_addr e)" and "\<forall>s b. pton s = Some b \<longrightarrow> length b = 16"
  shows "deref m' (ob_pInfo e) =
      (if block m' = block m \<and> n \<le> capacity m \<and> snd (ob_pInfo e) < n then Inr (clientProfile m' ! snd (ob_pInfo e)) else Inl Dangling) \<and>
    (capacity m < n \<longrightarrow> block m' \<noteq> block m) \<and>
    (deref m' (ob_pInfo e) = Inl Dangling \<and> now \<le> ob_last e + cacheThreshold m \<and>
     (\<forall>o' \<in> set (cache m). ob_addr o' = ob_addr e \<longrightarrow> deref m' (ob_pInfo o') = Inl Dangling) \<longrightarrow>
     getInfo (equals_match pton iaddr) now (ob_addr e) userAgent headers m' = Inl Dangling)"
proof (intro conjI impI)
  have f: "cache m' = cache m" "cacheThreshold m' = cacheThreshold m" "moved m m'"
    using refresh_facts [where grow = grow and config = config and server = server and m = m] unfolding assms(2) .
  have e: "fst (ob_pInfo e) = block m" using assms(1,3) by (simp add: manager_ok_def pointer_ok_def)
  show "deref m' (ob_pInfo e) =
      (if block m' = block m \<and> n \<le> capacity m \<and> snd (ob_pInfo e) < n then Inr (clientProfile m' ! snd (ob_pInfo e)) else Inl Dangling)"
    using e f(3) unfolding assms(4) deref_def moved_def by (elim disjE) simp_all
  show "block m' \<noteq> block m" if "capacity m < n" using f(3) that unfolding assms(4) moved_def by (elim disjE) simp_all
  let ?dangles = "\<forall>o' \<in> set (cache m). ob_addr o' = ob_addr e \<longrightarrow> deref m' (ob_pInfo o') = Inl Dangling"
  assume d: "deref m' (ob_pInfo e) = Inl Dangling \<and> now \<le> ob_last e + cacheThreshold m \<and> ?dangles"
  have ok: "\<forall>o' \<in> set (cache m). addr_ok (ob_addr o')" using assms(1) by (simp add: manager_ok_def)
  have dd: "\<forall>o' \<in> set (cache m). addr_ok (ob_addr o') \<and> (ob_addr o' = ob_addr e \<longrightarrow> deref m' (ob_pInfo o') = Inl Dangling)"
    using ok d by blast
  have c: "find_indexE (same_client (ob_addr e) userAgent m') (cache m') = Inl Dangling"
    unfolding f(1) by (rule dangling_stops [OF dd assms(6)]) (rule bexI [OF refl assms(3)])
  let ?m1 = "m'\<lparr>cache := housekeeping now m'\<rparr>"
  have "e \<in> set (housekeeping now m')" using d assms(3) f(1,2) by (simp add: housekeeping_def)
  moreover have "deref ?m1 = deref m'" by (simp add: deref_def fun_eq_iff)
  ultimately have "find_indexE (same_client (ob_addr e) userAgent ?m1) (housekeeping now m') = Inl Dangling"
  proof -
    have "\<forall>o' \<in> set (housekeeping now m'). addr_ok (ob_addr o') \<and> (ob_addr o' = ob_addr e \<longrightarrow> deref m' (ob_pInfo o') = Inl Dangling)"
      using dd unfolding housekeeping_def f(1) by simp
    then show ?thesis using dangling_stops [OF _ assms(6), of "housekeeping now m'" ?m1] \<open>e \<in> set (housekeeping now m')\<close> \<open>deref ?m1 = deref m'\<close>
      by auto
  qed
  then have u: "updateCache now (ob_addr e) userAgent headers p m' = Inl Dangling" for p
    by (simp add: updateCache_def Let_def)
  obtain r where "getInfoByAddr (equals_match pton iaddr) (ob_addr e) m' = Inr r"
    using getInfoByAddr_total [OF assms(5,6,7)] by blast
  then show "getInfo (equals_match pton iaddr) now (ob_addr e) userAgent headers m' = Inl Dangling"
    using u c by (simp add: getInfo_def getInfoByCache_def split: option.split)
qed

section \<open>Instances\<close>

text \<open>Two clients behind the address 7, and a server profile at the end of the table.\<close>

definition seen :: "string \<Rightarrow> nat \<Rightarrow> ClientObservation" where
  "seen agent j = new_observation 0 (Inet 7) agent None (1, j)"

definition sample_manager :: client_manager where
  "sample_manager = \<lparr>clientProfile = builtin_profiles @ [default_profile, server_profile 0 ''::1'' ''Gerbera''],
     block = 1, capacity = 36, cache = [seen ''BubbleUPnP'' 2], cacheThreshold = 100\<rparr>"

lemma builtin_facts: "length builtin_profiles = 18" "\<forall>c \<in> set builtin_profiles. cp_matchType c \<noteq> Match_IP"
  by (simp_all add: builtin_profiles_def agent_profile_def default_profile_def)

lemma sample_split: "splitString ''::1'' (CHR ''/'') (CHR 0x00) False = [''::1'']"
  by code_simp

lemma sample_ok: "manager_ok sample_manager" "networks_ok sample_manager"
  using builtin_facts sample_split
  by (auto simp: sample_manager_def manager_ok_def networks_ok_def pointer_ok_def seen_def new_observation_def
      server_profile_def default_profile_def)


lemma sample_recognised: "recognised None ''SEC_HHP_[PC]'' sample_manager = Some 4"
  by (simp add: recognised_def getInfoByType_def sample_manager_def builtin_profiles_def agent_profile_def default_profile_def
      server_profile_def upt_rec)

text \<open>The second client is answered as the first.\<close>

lemma getInfo_profile_witness:
  "\<exists>i m'. getInfo (equals_match (\<lambda>s. None) (\<lambda>s. 0)) 5 (Inet 7) ''SEC_HHP_[PC]'' None sample_manager = Inr (i, m') \<and>
     recognised None ''SEC_HHP_[PC]'' sample_manager = Some 4 \<and> ob_pInfo (cache m' ! i) = (1, 2)"
proof -
  have "find_indexE (\<lambda>c. if cp_matchType c \<noteq> Match_IP then Inr False
      else net (equals_match (\<lambda>s. None) (\<lambda>s. 0) (Inet 7) (cp_match c))) (clientProfile sample_manager) =
      Inr (position (\<lambda>c. False) (clientProfile sample_manager))"
    using builtin_facts(2) sample_split
    by (intro find_indexE_position) (auto simp: sample_manager_def server_profile_def default_profile_def equals_match_def)
  then have a: "getInfoByAddr (equals_match (\<lambda>s. None) (\<lambda>s. 0)) (Inet 7) sample_manager = Inr None"
    using position_None_iff [of "\<lambda>c. False"] by (simp add: getInfoByAddr_def)
  have k: "housekeeping 5 sample_manager = [seen ''BubbleUPnP'' 2]"
    by (simp add: housekeeping_def sample_manager_def seen_def new_observation_def)
  have n: "\<not> fits sample_manager (Inet 7) ''SEC_HHP_[PC]'' (seen ''BubbleUPnP'' 2)"
    by (simp add: fits_def seen_def new_observation_def sample_manager_def builtin_profiles_def agent_profile_def)
  show ?thesis
    using getInfo_profile [OF sample_ok(1) _ a sample_recognised k [symmetric], of None] n sample_recognised
    by (auto simp: seen_def new_observation_def)
qed

text \<open>A client without an entry of its own is taken out of the configuration; the server was seen at the last index.\<close>

lemma refresh_keeps_pointers_witness:
  "\<exists>m m' e. e \<in> set (cache m) \<and> manager_ok m \<and> refresh (\<lambda>c. 2 * c) (Some (None, [])) (server_profile 0 ''::1'' ''Gerbera'') m = m' \<and>
     getInfo (equals_match (\<lambda>s. None) (\<lambda>s. 0)) 5 (Inet 7) ''UPnP'' None m' = Inl Dangling"
proof -
  let ?m = "sample_manager\<lparr>cache := [seen ''UPnP'' 19]\<rparr>"
  let ?m' = "refresh (\<lambda>c. 2 * c) (Some (None, [])) (server_profile 0 ''::1'' ''Gerbera'') ?m"
  have m': "clientProfile ?m' = builtin_profiles @ [server_profile 0 ''::1'' ''Gerbera'']" "block ?m' = 1"
    using builtin_facts(1) by (simp_all add: refresh_def assign_profiles_def push_profile_def sample_manager_def)
  have ok: "manager_ok ?m"
    using builtin_facts(1) by (simp add: sample_manager_def manager_ok_def pointer_ok_def seen_def new_observation_def)
  have nw: "networks_ok ?m'"
    using builtin_facts(2) sample_split unfolding networks_ok_def m'(1) by (auto simp: server_profile_def default_profile_def)
  have d: "deref ?m' (ob_pInfo (seen ''UPnP'' 19)) = Inl Dangling"
    unfolding deref_def m' using builtin_facts(1) by (simp add: seen_def new_observation_def)
  have "getInfo (equals_match (\<lambda>s. None) (\<lambda>s. 0)) 5 (ob_addr (seen ''UPnP'' 19)) ''UPnP'' None ?m' = Inl Dangling"
    using refresh_keeps_pointers [OF ok refl, of "seen ''UPnP'' 19" "length (clientProfile ?m')" "\<lambda>c. 2 * c" "Some (None, [])"
        "server_profile 0 ''::1'' ''Gerbera''" "\<lambda>s. None" 5 "\<lambda>s. 0" "''UPnP''" None] nw d
    by (simp add: seen_def new_observation_def sample_manager_def)
  then show ?thesis using ok by (intro exI [of _ ?m] exI [of _ ?m'] exI [of _ "seen ''UPnP'' 19"]) (simp add: seen_def new_observation_def)
qed

end
