(* ===== verification/Search_Sort.thy ===== *)
theory Search_Sort
  imports Search_Emitter Metadata
begin

text \<open>
  The sort criteria of a browse or search request, class \<open>SortParser\<close> of
  \<open>src/src/database/search_handler.cc\<close>: a comma separated list of signed keys becomes the
  columns, the joins and the \<open>ORDER BY\<close> text. The three mappers are pointers that may be null; the
  two output parameters are untouched when \<open>parse\<close> returns early.
\<close>

definition MetadataIterator :: "MetadataFields list" where
  "MetadataIterator =
     [M_TITLE, M_ARTIST, M_ALBUM, M_DATE, M_CREATION_DATE, M_UPNP_DATE, M_GENRE, M_DESCRIPTION,
      M_LONGDESCRIPTION, M_PARTNUMBER, M_TRACKNUMBER, M_ALBUMARTURI, M_REGION, M_CREATOR, M_AUTHOR,
      M_DIRECTOR, M_PUBLISHER, M_RATING, M_ACTOR, M_PRODUCER, M_ALBUMARTIST, M_COMPOSER, M_CONDUCTOR,
      M_ORCHESTRA, M_CONTENT_CLASS, M_UPNP_SHORTCUT]"

record sort_bufs =
  sb_sort :: "string list"
  sb_cols :: "string list"
  sb_joins :: "string list"
  sb_cnt :: nat

text \<open>A segment: its direction and its key; a key without a sign is only warned about.\<close>

definition sort_key :: "string \<Rightarrow> string \<times> string" where
  "sort_key raw =
     (let seg = trimString raw in
      (if seg \<noteq> [] \<and> hd seg = CHR ''-'' then ''DESC'' else ''ASC'',
       if seg \<noteq> [] \<and> (hd seg = CHR ''-'' \<or> hd seg = CHR ''+'') then tl seg else seg))"

definition meta_sort_name :: "string \<Rightarrow> string" where
  "meta_sort_name seg =
     fold (\<lambda>metaId sortSql. if getMetaFieldName metaId = seg then getMetaFieldName metaId else sortSql)
       MetadataIterator []"

definition meta_alias :: "EnumColumnMapper \<Rightarrow> nat \<Rightarrow> string" where
  "meta_alias meta cnt = mapper_quote meta (''meta_prop'' @ show_nat cnt)"

definition meta_join :: "EnumColumnMapper \<Rightarrow> nat \<Rightarrow> string \<Rightarrow> string \<Rightarrow> string \<Rightarrow> string \<Rightarrow> string" where
  "meta_join meta cnt colId metaId metaName sortSql =
     ''LEFT JOIN '' @ getTableName meta @ '' '' @ meta_alias meta cnt @ '' ON '' @ colId @ '' = '' @
     meta_alias meta cnt @ ''.'' @ metaId @ '' AND '' @ meta_alias meta cnt @ ''.'' @ metaName @
     '' = '' @ [CHR 0x27] @ sortSql @ [CHR 0x27]"

text \<open>A key that no mapper knows: a metadata name joins the metadata table under a fresh alias.\<close>

definition sort_by_meta ::
  "EnumColumnMapper \<Rightarrow> EnumColumnMapper \<Rightarrow> string \<Rightarrow> string \<Rightarrow> sort_bufs \<Rightarrow> search_error + sort_bufs" where
  "sort_by_meta col meta dir seg b =
     (let sortSql = meta_sort_name seg in
      if sortSql = [] then Inr b
      else
        bindE (mapQuoted meta ''value'' True) (\<lambda>metaValue.
        bindE (mapQuoted col ''@id'' False) (\<lambda>colId.
        bindE (mapQuoted meta ''@id'' True) (\<lambda>metaId.
        bindE (mapQuoted meta ''name'' True) (\<lambda>metaName.
          Inr (b\<lparr>sb_cols := sb_cols b @ [meta_alias meta (sb_cnt b) @ ''.'' @ metaValue],
                 sb_joins := sb_joins b @ [meta_join meta (sb_cnt b) colId metaId metaName sortSql],
                 sb_sort := sb_sort b @ [meta_alias meta (sb_cnt b) @ ''.'' @ metaValue @ '' '' @ dir],
                 sb_cnt := sb_cnt b + 1\<rparr>))))))"

definition sort_segment ::
  "EnumColumnMapper \<Rightarrow> EnumColumnMapper option \<Rightarrow> EnumColumnMapper \<Rightarrow> string \<Rightarrow> sort_bufs \<Rightarrow>
   search_error + sort_bufs" where
  "sort_segment col ply meta raw b =
     (let (dir, seg) = sort_key raw in
      bindE (mapQuotedList col (sb_sort b) seg dir) (\<lambda>(sort1, isCol).
        case ply of None \<Rightarrow> Inl Null_dereference
        | Some p \<Rightarrow>
            bindE (mapQuotedList p sort1 seg dir) (\<lambda>(sort2, isPly).
              if \<not> isCol \<and> \<not> isPly then sort_by_meta col meta dir seg (b\<lparr>sb_sort := sort2\<rparr>)
              else if isPly then
                bindE (mapQuoted p seg False) (\<lambda>plyCol.
                  Inr (b\<lparr>sb_sort := sort2, sb_cols := sb_cols b @ [plyCol]\<rparr>))
              else Inr (b\<lparr>sb_sort := sort2\<rparr>))))"

fun sort_loop ::
  "EnumColumnMapper \<Rightarrow> EnumColumnMapper option \<Rightarrow> EnumColumnMapper \<Rightarrow> string list \<Rightarrow> sort_bufs \<Rightarrow>
   search_error + sort_bufs" where
  "sort_loop col ply meta [] b = Inr b"
| "sort_loop col ply meta (raw # raws) b =
     bindE (sort_segment col ply meta raw b) (sort_loop col ply meta raws)"

text \<open>\<open>parse\<close>: the sort text, then the two output parameters \<open>addColumns\<close> and \<open>addJoin\<close>.\<close>

definition sort_parse ::
  "EnumColumnMapper option \<Rightarrow> EnumColumnMapper option \<Rightarrow> EnumColumnMapper option \<Rightarrow> string \<Rightarrow>
   string \<Rightarrow> string \<Rightarrow> search_error + string \<times> string \<times> string" where
  "sort_parse colPtr plyPtr metaPtr sortCrit addColumns addJoins =
     (case (colPtr, metaPtr) of
        (Some col, Some meta) \<Rightarrow>
          if sortCrit = [] then Inr ([], addColumns, addJoins)
          else
            bindE (sort_loop col plyPtr meta (splitString sortCrit CHR '','' CHR 0x00 False)
                     \<lparr>sb_sort = [], sb_cols = [], sb_joins = [], sb_cnt = 0\<rparr>) (\<lambda>b.
              Inr (join '', '' (sb_sort b),
                   join '', '' (if sb_cols b \<noteq> [] then [] # sb_cols b else sb_cols b),
                   join '' '' (sb_joins b)))
      | _ \<Rightarrow> Inr ([], addColumns, addJoins))"

section \<open>What can reach the statement\<close>

text \<open>
  The texts a mapper can print; the items, columns and joins that are allowed beside them when
  the metadata names \<open>ns\<close> have been joined, in this order.
\<close>

definition mapper_cols :: "EnumColumnMapper \<Rightarrow> string set" where
  "mapper_cols m =
     {sp_print (table_quote_begin m) (table_quote_end m) False sp | sp.
        \<exists>kv \<in> set (keyMap m). colMap m (snd kv) = Some sp}"

definition meta_values :: "EnumColumnMapper \<Rightarrow> string list \<Rightarrow> string set" where
  "meta_values meta ns =
     {meta_alias meta i @ ''.'' @ v | i v. i < length ns \<and> mapQuoted meta ''value'' True = Inr v}"

definition sort_items :: "EnumColumnMapper \<Rightarrow> EnumColumnMapper \<Rightarrow> EnumColumnMapper \<Rightarrow> string list \<Rightarrow> string set" where
  "sort_items col ply meta ns =
     {c @ '' '' @ d | c d. c \<in> mapper_cols col \<union> mapper_cols ply \<union> meta_values meta ns \<and> d \<in> {''ASC'', ''DESC''}}"

definition meta_joins :: "EnumColumnMapper \<Rightarrow> EnumColumnMapper \<Rightarrow> string list \<Rightarrow> string list" where
  "meta_joins col meta ns =
     (case (mapQuoted col ''@id'' False, mapQuoted meta ''@id'' True, mapQuoted meta ''name'' True) of
        (Inr ci, Inr mi, Inr mn) \<Rightarrow> map (\<lambda>(i, n). meta_join meta i ci mi mn n) (enumerate 0 ns)
      | _ \<Rightarrow> [])"

definition sort_bufs_ok ::
  "EnumColumnMapper \<Rightarrow> EnumColumnMapper \<Rightarrow> EnumColumnMapper \<Rightarrow> string list \<Rightarrow> sort_bufs \<Rightarrow> bool" where
  "sort_bufs_ok col ply meta ns b \<longleftrightarrow>
     sb_cnt b = length ns \<and> set ns \<subseteq> getMetaFieldName ` set MetadataIterator \<and>
     set (sb_sort b) \<subseteq> sort_items col ply meta ns \<and>
     set (sb_cols b) \<subseteq> mapper_cols ply \<union> meta_values meta ns \<and>
     sb_joins b = meta_joins col meta ns"


lemma sort_key_dir: "fst (sort_key raw) \<in> {''ASC'', ''DESC''}"
  by (simp add: sort_key_def Let_def)

lemma meta_sort_name_fold:
  "fold (\<lambda>m s. if f m = k then f m else s) ms s0 = (if k \<in> f ` set ms then k else s0)"
  by (induction ms arbitrary: s0) auto

lemma meta_sort_name_eq: "meta_sort_name k = (if k \<in> getMetaFieldName ` set MetadataIterator then k else [])"
  unfolding meta_sort_name_def by (rule meta_sort_name_fold)

lemma mapQuotedList_loop_cols:
  "mapQuotedList_loop m tag d kvs srt res = Inr (srt', res') \<Longrightarrow> set kvs \<subseteq> set (keyMap m) \<Longrightarrow>
   set srt' \<subseteq> set srt \<union> {c @ '' '' @ d | c. c \<in> mapper_cols m}"
proof (induction kvs arbitrary: srt res)
  case (Cons kv kvs)
  obtain key val where kv: "kv = (key, val)" by fastforce
  show ?case
  proof (cases "key = tag")
    case True
    then obtain sp where sp: "colMap m val = Some sp"
      using Cons.prems kv by (cases "colMap m val") auto
    let ?c = "sp_print (table_quote_begin m) (table_quote_end m) False sp"
    have "?c \<in> mapper_cols m" using sp kv Cons.prems(2) by (force simp: mapper_cols_def)
    then show ?thesis
      using Cons.prems True sp kv
      by (auto simp: Let_def split: if_splits dest!: Cons.IH)
  next
    case False
    with kv Cons show ?thesis by auto
  qed
qed simp

lemma mapQuotedList_cols:
  "mapQuotedList m srt tag d = Inr (srt', res) \<Longrightarrow> set srt' \<subseteq> set srt \<union> {c @ '' '' @ d | c. c \<in> mapper_cols m}"
  unfolding mapQuotedList_def by (rule mapQuotedList_loop_cols) auto

lemma mapQuoted_col:
  "mapQuoted m tag False = Inr c \<Longrightarrow> hasEntry m tag \<Longrightarrow> c \<in> mapper_cols m"
  by (auto simp: mapQuoted_def map_tag_def hasEntry_map_of mapper_cols_def dest!: map_of_SomeD
      split: option.splits) force

lemma meta_values_mono: "meta_values meta ns \<subseteq> meta_values meta (ns @ [n])"
  by (auto simp: meta_values_def intro: less_SucI)

lemma sort_items_mono: "sort_items col ply meta ns \<subseteq> sort_items col ply meta (ns @ [n])"
  using meta_values_mono [of meta ns n] by (force simp: sort_items_def)

lemma sort_bufs_sort:
  "sort_bufs_ok col ply meta ns b \<Longrightarrow> set srt \<subseteq> sort_items col ply meta ns \<Longrightarrow>
   sort_bufs_ok col ply meta ns (b\<lparr>sb_sort := srt\<rparr>)"
  by (simp add: sort_bufs_ok_def)

lemma sort_by_meta_cases:
  assumes "sort_by_meta col meta dir seg b = Inr b'"
  obtains "b' = b"
  | v ci mi mn where "seg \<in> getMetaFieldName ` set MetadataIterator"
      "mapQuoted meta ''value'' True = Inr v" "mapQuoted col ''@id'' False = Inr ci"
      "mapQuoted meta ''@id'' True = Inr mi" "mapQuoted meta ''name'' True = Inr mn"
      "b' = b\<lparr>sb_cols := sb_cols b @ [meta_alias meta (sb_cnt b) @ ''.'' @ v],
             sb_joins := sb_joins b @ [meta_join meta (sb_cnt b) ci mi mn seg],
             sb_sort := sb_sort b @ [meta_alias meta (sb_cnt b) @ ''.'' @ v @ '' '' @ dir], sb_cnt := sb_cnt b + 1\<rparr>"
proof (cases "seg \<in> getMetaFieldName ` set MetadataIterator \<and> seg \<noteq> []")
  case True
  then have "meta_sort_name seg = seg" by (simp add: meta_sort_name_eq)
  with True assms show ?thesis
    by (simp only: sort_by_meta_def Let_def bindE_Inr_iff if_False sum.inject) (metis that(2))
next
  case False
  then have "meta_sort_name seg = []" by (auto simp: meta_sort_name_eq simp del: set_map)
  with assms show ?thesis by (simp add: sort_by_meta_def that(1))
qed

lemma sort_bufs_meta:
  assumes "sort_bufs_ok col ply meta ns b" "dir \<in> {''ASC'', ''DESC''}"
    and "seg \<in> getMetaFieldName ` set MetadataIterator"
    and ok: "mapQuoted meta ''value'' True = Inr v" "mapQuoted col ''@id'' False = Inr ci"
      "mapQuoted meta ''@id'' True = Inr mi" "mapQuoted meta ''name'' True = Inr mn"
  shows "sort_bufs_ok col ply meta (ns @ [seg])
    (b\<lparr>sb_cols := sb_cols b @ [meta_alias meta (sb_cnt b) @ ''.'' @ v],
       sb_joins := sb_joins b @ [meta_join meta (sb_cnt b) ci mi mn seg],
       sb_sort := sb_sort b @ [meta_alias meta (sb_cnt b) @ ''.'' @ v @ '' '' @ dir], sb_cnt := sb_cnt b + 1\<rparr>)"
proof -
  have cnt: "sb_cnt b = length ns" and joins: "sb_joins b = meta_joins col meta ns"
    and srt: "set (sb_sort b) \<subseteq> sort_items col ply meta ns"
    and cols: "set (sb_cols b) \<subseteq> mapper_cols ply \<union> meta_values meta ns"
    and ns: "set ns \<subseteq> getMetaFieldName ` set MetadataIterator"
    using assms(1) unfolding sort_bufs_ok_def by blast+
  have new: "meta_alias meta (length ns) @ ''.'' @ v \<in> meta_values meta (ns @ [seg])"
    using ok(1) unfolding meta_values_def by force
  then have "(meta_alias meta (length ns) @ ''.'' @ v) @ '' '' @ dir \<in> sort_items col ply meta (ns @ [seg])"
    using assms(2) unfolding sort_items_def by blast
  then have "set (sb_sort b) \<union> {meta_alias meta (length ns) @ ''.'' @ v @ '' '' @ dir} \<subseteq> sort_items col ply meta (ns @ [seg])"
    using srt sort_items_mono [of col ply meta ns seg] by simp
  moreover have "set (sb_cols b) \<union> {meta_alias meta (length ns) @ ''.'' @ v} \<subseteq> mapper_cols ply \<union> meta_values meta (ns @ [seg])"
    using cols new meta_values_mono [of meta ns seg] by blast
  moreover have "sb_joins b @ [meta_join meta (length ns) ci mi mn seg] = meta_joins col meta (ns @ [seg])"
    by (simp add: joins meta_joins_def ok enumerate_append_eq)
  moreover have "set (ns @ [seg]) \<subseteq> getMetaFieldName ` set MetadataIterator"
    using ns assms(3) by (simp del: image_insert)
  ultimately show ?thesis unfolding sort_bufs_ok_def by (simp add: cnt)
qed

lemma sort_by_meta_ok:
  assumes "sort_by_meta col meta dir seg b = Inr b'" "sort_bufs_ok col ply meta ns b" "dir \<in> {''ASC'', ''DESC''}"
  shows "\<exists>ns'. sort_bufs_ok col ply meta ns' b'"
  using assms(1)
proof (cases rule: sort_by_meta_cases)
  case 1
  with assms show ?thesis by blast
next
  case (2 v ci mi mn)
  show ?thesis unfolding 2(6) using sort_bufs_meta [OF assms(2,3) 2(1-5)] by blast
qed

lemma sort_segment_cases:
  assumes "sort_segment col (Some ply) meta raw b = Inr b'"
  obtains dir seg s1 isCol s2 isPly where "sort_key raw = (dir, seg)"
    "mapQuotedList col (sb_sort b) seg dir = Inr (s1, isCol)" "mapQuotedList ply s1 seg dir = Inr (s2, isPly)"
    "(if \<not> isCol \<and> \<not> isPly then sort_by_meta col meta dir seg (b\<lparr>sb_sort := s2\<rparr>)
      else if isPly then bindE (mapQuoted ply seg False) (\<lambda>c. Inr (b\<lparr>sb_sort := s2, sb_cols := sb_cols b @ [c]\<rparr>))
      else Inr (b\<lparr>sb_sort := s2\<rparr>)) = Inr b'"
proof -
  obtain dir seg where key: "sort_key raw = (dir, seg)" by fastforce
  note eq = assms [unfolded sort_segment_def Let_def key prod.case option.case]
  obtain s1 isCol where m1: "mapQuotedList col (sb_sort b) seg dir = Inr (s1, isCol)"
    using eq by (cases "mapQuotedList col (sb_sort b) seg dir") auto
  obtain s2 isPly where m2: "mapQuotedList ply s1 seg dir = Inr (s2, isPly)"
    using eq by (cases "mapQuotedList ply s1 seg dir") (auto simp only: m1 bindE.simps prod.case sum.distinct)
  show ?thesis by (rule that [OF key m1 m2]) (use eq in \<open>simp only: m1 m2 bindE.simps prod.case\<close>)
qed

lemma sort_segment_ok:
  assumes "sort_segment col (Some ply) meta raw b = Inr b'" "sort_bufs_ok col ply meta ns b"
  shows "\<exists>ns'. sort_bufs_ok col ply meta ns' b'"
  using assms(1)
proof (cases rule: sort_segment_cases)
  case (1 dir seg s1 isCol s2 isPly)
  have dir: "dir \<in> {''ASC'', ''DESC''}" using sort_key_dir [of raw] 1(1) by simp
  have srt: "set (sb_sort b) \<subseteq> sort_items col ply meta ns" using assms(2) by (simp add: sort_bufs_ok_def)
  have "{c @ '' '' @ dir | c. c \<in> mapper_cols col} \<subseteq> sort_items col ply meta ns"
    "{c @ '' '' @ dir | c. c \<in> mapper_cols ply} \<subseteq> sort_items col ply meta ns"
    unfolding sort_items_def using dir by blast+
  with srt mapQuotedList_cols [OF 1(2)] mapQuotedList_cols [OF 1(3)]
  have "set s2 \<subseteq> sort_items col ply meta ns" by blast
  then have b2: "sort_bufs_ok col ply meta ns (b\<lparr>sb_sort := s2\<rparr>)"
    using assms(2) by (rule sort_bufs_sort [rotated])
  have ent: "isPly \<Longrightarrow> hasEntry ply seg" using mapQuotedList_hasEntry [OF 1(3)] by simp
  consider "\<not> isCol" "\<not> isPly" | "isPly" | "isCol" "\<not> isPly" by blast
  then show ?thesis
  proof cases
    case 1
    with \<open>(if _ then _ else _) = Inr b'\<close> show ?thesis using sort_by_meta_ok [OF _ b2 dir] by simp
  next
    case 2
    then obtain c where c: "mapQuoted ply seg False = Inr c" "b' = b\<lparr>sb_sort := s2, sb_cols := sb_cols b @ [c]\<rparr>"
      using \<open>(if _ then _ else _) = Inr b'\<close> by (auto simp only: bindE_Inr_iff simp_thms if_True if_False sum.inject)
    then have "sort_bufs_ok col ply meta ns b'"
      using b2 mapQuoted_col [OF c(1) ent [OF 2]] by (simp add: sort_bufs_ok_def)
    then show ?thesis ..
  next
    case 3
    with \<open>(if _ then _ else _) = Inr b'\<close> b2 show ?thesis by auto
  qed
qed

lemma sort_loop_ok:
  "sort_loop col (Some ply) meta raws b = Inr b' \<Longrightarrow> sort_bufs_ok col ply meta ns b \<Longrightarrow>
   \<exists>ns'. sort_bufs_ok col ply meta ns' b'"
proof (induction raws arbitrary: b ns)
  case (Cons raw raws)
  then obtain b1 where "sort_segment col (Some ply) meta raw b = Inr b1"
    "sort_loop col (Some ply) meta raws b1 = Inr b'" by (auto simp: bindE_Inr_iff)
  with Cons sort_segment_ok show ?case by blast
qed auto

lemma mapQuotedList_loop_total:
  "mapper_total m \<Longrightarrow> set kvs \<subseteq> set (keyMap m) \<Longrightarrow> \<exists>r. mapQuotedList_loop m tag d kvs srt res = Inr r"
proof (induction kvs arbitrary: srt res)
  case (Cons kv kvs)
  obtain key val where kv: "kv = (key, val)" by fastforce
  from Cons.prems kv obtain sp where "colMap m val = Some sp"
    by (auto simp: mapper_total_def list_all_iff)
  with Cons kv show ?case by (simp add: Let_def)
qed simp

lemma mapQuotedList_total: "mapper_total m \<Longrightarrow> \<exists>s r. mapQuotedList m srt tag d = Inr (s, r)"
  using mapQuotedList_loop_total [of m "keyMap m" tag d srt False] by (auto simp: mapQuotedList_def)

lemma mapQuoted_total: "mapper_total m \<Longrightarrow> \<exists>c. mapQuoted m tag n = Inr c"
  unfolding mapQuoted_def by (rule map_tag_total)

lemma sort_by_meta_total:
  assumes "mapper_total col" "mapper_total meta"
  shows "\<exists>b'. sort_by_meta col meta dir seg b = Inr b'"
proof -
  obtain v ci mi mn where "mapQuoted meta ''value'' True = Inr v" "mapQuoted col ''@id'' False = Inr ci"
    "mapQuoted meta ''@id'' True = Inr mi" "mapQuoted meta ''name'' True = Inr mn"
    using assms mapQuoted_total by metis
  then show ?thesis by (simp add: sort_by_meta_def Let_def)
qed

lemma sort_segment_total:
  assumes "mapper_total col" "mapper_total ply" "mapper_total meta"
  shows "\<exists>b'. sort_segment col (Some ply) meta raw b = Inr b'"
proof -
  obtain dir seg where key: "sort_key raw = (dir, seg)" by fastforce
  obtain s1 isCol where m1: "mapQuotedList col (sb_sort b) seg dir = Inr (s1, isCol)"
    using mapQuotedList_total [OF assms(1)] by blast
  obtain s2 isPly where m2: "mapQuotedList ply s1 seg dir = Inr (s2, isPly)"
    using mapQuotedList_total [OF assms(2)] by blast
  obtain c where c: "mapQuoted ply seg False = Inr c" using mapQuoted_total [OF assms(2)] by blast
  show ?thesis
    using sort_by_meta_total [OF assms(1,3)] by (simp add: sort_segment_def key m1 m2 c)
qed

lemma join_leading: "cs \<noteq> [] \<Longrightarrow> join '', '' ([] # cs) = concat (map (\<lambda>c. '', '' @ c) cs)"
proof (induction cs)
  case (Cons c cs)
  then show ?case by (cases cs) (simp_all add: join_Cons)
qed simp

lemma join_columns: "join '', '' (if cs \<noteq> [] then [] # cs else cs) = concat (map (\<lambda>c. '', '' @ c) cs)"
  by (simp add: join_leading)

text \<open>
  C7: Whatever the sort criterion says, the statement receives only texts of its own: every
  \<open>ORDER BY\<close> item is a column of a mapper or the value of a joined alias with \<open>ASC\<close> or \<open>DESC\<close>,
  the added columns start with a comma each, and the joins are one per alias used, numbered from 0,
  each comparing with a known metadata name.
\<close>

theorem sort_no_injection:
  assumes "sort_parse (Some col) (Some ply) (Some meta) crit cols0 joins0 = Inr (ord, cols, jns)" "crit \<noteq> []"
  shows "\<exists>ns srt cs. set ns \<subseteq> getMetaFieldName ` set MetadataIterator \<and>
           ord = join '', '' srt \<and> set srt \<subseteq> sort_items col ply meta ns \<and>
           cols = concat (map (\<lambda>c. '', '' @ c) cs) \<and> set cs \<subseteq> mapper_cols ply \<union> meta_values meta ns \<and>
           jns = join '' '' (meta_joins col meta ns)"
proof -
  let ?b0 = "\<lparr>sb_sort = [], sb_cols = [], sb_joins = [], sb_cnt = 0\<rparr>"
  obtain b where b: "sort_loop col (Some ply) meta (splitString crit CHR '','' CHR 0x00 False) ?b0 = Inr b"
    and out: "ord = join '', '' (sb_sort b)" "cols = concat (map (\<lambda>c. '', '' @ c) (sb_cols b))" "jns = join '' '' (sb_joins b)"
    using assms by (auto simp: sort_parse_def bindE_Inr_iff join_columns simp del: join.simps)
  have "sort_bufs_ok col ply meta [] ?b0"
    by (simp add: sort_bufs_ok_def meta_joins_def split: sum.splits)
  from sort_loop_ok [OF b this] obtain ns where "sort_bufs_ok col ply meta ns b" ..
  then show ?thesis unfolding out sort_bufs_ok_def
    by - (rule exI [of _ ns], rule exI [of _ "sb_sort b"], rule exI [of _ "sb_cols b"], simp del: append_Cons append_Nil)
qed

text \<open>
  A sort request is always answered: with mappers whose keys all have a column, \<open>parse\<close> throws
  nothing, for any criterion.
\<close>

theorem sort_total:
  assumes "mapper_total col" "mapper_total ply" "mapper_total meta"
  shows "\<exists>r. sort_parse (Some col) (Some ply) (Some meta) crit cols0 joins0 = Inr r"
proof -
  have seg: "\<exists>b'. sort_segment col (Some ply) meta raw b = Inr b'" for raw b
    using sort_segment_total [OF assms] .
  have loop: "\<exists>b'. sort_loop col (Some ply) meta raws b = Inr b'" for raws b
  proof (induction raws arbitrary: b)
    case (Cons raw raws)
    obtain b1 where "sort_segment col (Some ply) meta raw b = Inr b1" using seg by blast
    with Cons show ?case by simp
  qed simp
  show ?thesis
  proof (cases "crit = []")
    case False
    obtain b where "sort_loop col (Some ply) meta (splitString crit CHR '','' CHR 0x00 False)
        \<lparr>sb_sort = [], sb_cols = [], sb_joins = [], sb_cnt = 0\<rparr> = Inr b" using loop by blast
    with False show ?thesis by (simp add: sort_parse_def)
  qed (simp add: sort_parse_def)
qed

definition demo_col :: EnumColumnMapper where
  "demo_col = \<lparr>table_quote_begin = CHR 0x60, table_quote_end = CHR 0x60, tableAlias = ''o'', tableName = ''mt_cds_object'',
     keyMap = [(''@id'', 0), (''dc:title'', 1)],
     colMap = map_of [(0, \<lparr>colAlias = ''o'', field = ''id'', ftype = FT_Integer, flength = 0\<rparr>),
                      (1, \<lparr>colAlias = ''o'', field = ''dc_title'', ftype = FT_String, flength = 255\<rparr>)],
     metaCnt = 0, joins = []\<rparr>"

definition demo_ply :: EnumColumnMapper where
  "demo_ply = demo_col\<lparr>tableAlias := ''p'', tableName := ''grb_playstatus'', keyMap := [(''upnp:playbackCount'', 0)],
     colMap := map_of [(0, \<lparr>colAlias = ''p'', field = ''playCount'', ftype = FT_Integer, flength = 0\<rparr>)]\<rparr>"

definition demo_meta :: EnumColumnMapper where
  "demo_meta = demo_col\<lparr>tableAlias := ''m'', tableName := ''mt_metadata'',
     keyMap := [(''@id'', 0), (''name'', 1), (''value'', 2)],
     colMap := map_of [(0, \<lparr>colAlias = ''m'', field = ''item_id'', ftype = FT_Integer, flength = 0\<rparr>),
                       (1, \<lparr>colAlias = ''m'', field = ''property_name'', ftype = FT_String, flength = 255\<rparr>),
                       (2, \<lparr>colAlias = ''m'', field = ''property_value'', ftype = FT_String, flength = 255\<rparr>)]\<rparr>"

lemma demo_sort:
  "sort_parse (Some demo_col) (Some demo_ply) (Some demo_meta) ''+dc:title, -upnp:genre,-1; DROP'' [] [] =
     Inr (''`o`.`dc_title` ASC, `meta_prop0`.`property_value` DESC'', '', `meta_prop0`.`property_value`'',
          ''LEFT JOIN `mt_metadata` `meta_prop0` ON `o`.`id` = `meta_prop0`.`item_id` AND `meta_prop0`.`property_name` = '' @
          [CHR 0x27] @ ''upnp:genre'' @ [CHR 0x27])"
  by code_simp

lemma sort_no_injection_witness:
  "\<exists>ns srt cs. set ns \<subseteq> getMetaFieldName ` set MetadataIterator \<and>
     ''`o`.`dc_title` ASC, `meta_prop0`.`property_value` DESC'' = join '', '' srt \<and>
     set srt \<subseteq> sort_items demo_col demo_ply demo_meta ns \<and>
     '', `meta_prop0`.`property_value`'' = concat (map (\<lambda>c. '', '' @ c) cs) \<and>
     set cs \<subseteq> mapper_cols demo_ply \<union> meta_values demo_meta ns \<and>
     ''LEFT JOIN `mt_metadata` `meta_prop0` ON `o`.`id` = `meta_prop0`.`item_id` AND `meta_prop0`.`property_name` = '' @
       [CHR 0x27] @ ''upnp:genre'' @ [CHR 0x27] = join '' '' (meta_joins demo_col demo_meta ns)"
  by (rule sort_no_injection [OF demo_sort]) simp

lemma sort_total_witness:
  "mapper_total demo_col \<and> mapper_total demo_ply \<and> mapper_total demo_meta \<and>
   (\<exists>r. sort_parse (Some demo_col) (Some demo_ply) (Some demo_meta) ''-upnp:playbackCount,,+'' [] [] = Inr r)"
proof -
  have "mapper_total demo_col" "mapper_total demo_ply" "mapper_total demo_meta"
    by (simp_all add: mapper_total_def demo_col_def demo_ply_def demo_meta_def)
  with sort_total [OF this] show ?thesis by blast
qed

end
