(* ===== verification/Inotify_Types.thy ===== *)
theory Inotify_Types
  imports Flag_Words CDS_Enums
begin

text \<open>
  The event masks of the kernel's \<open>inotify\<close> interface (\<open>src/src/content/inotify/inotify_types.cc\<close>): printing
  and reading a mask, the masks the watching thread waits for (\<open>inotify_manager_cc.h\<close>,
  \<open>autoscan_inotify.cc\<close>), and the tests its handler applies to a mask (\<open>inotify_handler.cc\<close>). The values of
  the constants are those of \<open>sys/inotify.h\<close>.
\<close>

unbundle bit_operations_syntax

definition IN_ATTRIB :: "32 word" where "IN_ATTRIB = 0x4"
definition IN_CLOSE_WRITE :: "32 word" where "IN_CLOSE_WRITE = 0x8"
definition IN_MOVED_FROM :: "32 word" where "IN_MOVED_FROM = 0x40"
definition IN_MOVED_TO :: "32 word" where "IN_MOVED_TO = 0x80"
definition IN_CREATE :: "32 word" where "IN_CREATE = 0x100"
definition IN_DELETE :: "32 word" where "IN_DELETE = 0x200"
definition IN_DELETE_SELF :: "32 word" where "IN_DELETE_SELF = 0x400"
definition IN_MOVE_SELF :: "32 word" where "IN_MOVE_SELF = 0x800"
definition IN_UNMOUNT :: "32 word" where "IN_UNMOUNT = 0x2000"
definition IN_IGNORED :: "32 word" where "IN_IGNORED = 0x8000"
definition IN_ISDIR :: "32 word" where "IN_ISDIR = 0x40000000"

lemmas in_defs =
  IN_ATTRIB_def IN_CLOSE_WRITE_def IN_MOVED_FROM_def IN_MOVED_TO_def IN_CREATE_def IN_DELETE_def
  IN_DELETE_SELF_def IN_MOVE_SELF_def IN_UNMOUNT_def IN_IGNORED_def IN_ISDIR_def

definition inotifyFlags :: "(32 word \<times> string) list" where
  "inotifyFlags =
     [(0x1, ''ACCESS''), (0x2, ''MODIFY''), (IN_ATTRIB, ''ATTRIB''), (IN_CLOSE_WRITE, ''CLOSE_WRITE''),
      (0x10, ''CLOSE_NOWRITE''), (0x20, ''OPEN''), (IN_MOVED_FROM, ''MOVED_FROM''), (IN_MOVED_TO, ''MOVED_TO''),
      (IN_CREATE, ''CREATE''), (IN_DELETE, ''DELETE''), (IN_DELETE_SELF, ''DELETE_SELF''),
      (IN_MOVE_SELF, ''MOVE_SELF''), (IN_UNMOUNT, ''UNMOUNT''), (0x4000, ''Q_OVERFLOW''),
      (IN_IGNORED, ''IGNORED''), (0x1000000, ''ONLYDIR''), (0x2000000, ''DONT_FOLLOW''),
      (0x4000000, ''EXCL_UNLINK''), (0x10000000, ''MASK_CREATE''), (0x20000000, ''MASK_ADD''),
      (IN_ISDIR, ''ISDIR''), (0x80000000, ''ONESHOT'')]"

definition in_remapFlag :: "string \<Rightarrow> 32 word" where
  "in_remapFlag flag =
     (case find_name inotifyFlags flag of
        Some qFlag \<Rightarrow> qFlag
      | None \<Rightarrow> word_of_int (stoulString0 flag 0))"

definition in_makeFlags :: "string \<Rightarrow> 32 word" where
  "in_makeFlags optValue =
     foldl (\<lambda>flg i. flg OR in_remapFlag (trimString i)) 0 (splitString optValue (CHR ''|'') (CHR 0x00) False)"

fun in_labels :: "(32 word \<times> string) list \<Rightarrow> 32 word \<Rightarrow> string list \<times> 32 word" where
  "in_labels [] flags = ([], flags)"
| "in_labels ((qFlag, qLabel) # t) flags =
     (if flags AND qFlag \<noteq> 0
      then (let (ls, rest) = in_labels t (flags AND NOT qFlag) in (qLabel # ls, rest))
      else in_labels t flags)"

definition in_mapFlags :: "32 word \<Rightarrow> string" where
  "in_mapFlags flags =
     (if flags = 0 then ''None''
      else let (ls, rest) = in_labels inotifyFlags flags
           in join '' | '' (ls @ (if rest \<noteq> 0 then [format_hex (unat rest)] else [])))"

section \<open>The masks of the watching thread\<close>

text \<open>The constructors of the manager and of its subclass: the second adds \<open>IN_ATTRIB\<close> when configured.\<close>

definition manager_events :: "32 word" where
  "manager_events =
     IN_CLOSE_WRITE OR IN_CREATE OR IN_MOVED_FROM OR IN_MOVED_TO OR IN_DELETE OR IN_DELETE_SELF OR
     IN_MOVE_SELF OR IN_UNMOUNT"

definition autoscan_events :: "bool \<Rightarrow> 32 word" where
  "autoscan_events attrib = (if attrib then manager_events OR IN_ATTRIB else manager_events)"

definition AUTOSCAN_WAS_MOVED :: "32 word \<Rightarrow> bool" where
  "AUTOSCAN_WAS_MOVED msk \<longleftrightarrow> msk AND IN_MOVE_SELF \<noteq> 0"

definition AUTOSCAN_IS_GONE :: "32 word \<Rightarrow> bool" where
  "AUTOSCAN_IS_GONE msk \<longleftrightarrow> msk AND (IN_DELETE_SELF OR IN_MOVE_SELF OR IN_UNMOUNT) \<noteq> 0"

definition AUTOSCAN_IS_DIR :: "32 word \<Rightarrow> bool" where
  "AUTOSCAN_IS_DIR msk \<longleftrightarrow> msk AND IN_ISDIR \<noteq> 0"

definition AUTOSCAN_IS_NEW_ENTRY :: "32 word \<Rightarrow> bool \<Rightarrow> bool" where
  "AUTOSCAN_IS_NEW_ENTRY msk noFile \<longleftrightarrow>
     msk AND (IN_CLOSE_WRITE OR IN_MOVED_TO OR IN_ATTRIB) \<noteq> 0 \<or> (noFile \<and> msk AND IN_CREATE \<noteq> 0)"

definition AUTOSCAN_IS_MOVED :: "32 word \<Rightarrow> bool" where
  "AUTOSCAN_IS_MOVED msk \<longleftrightarrow> msk AND IN_MOVED_TO \<noteq> 0"

definition AUTOSCAN_IS_NEW :: "32 word \<Rightarrow> bool" where
  "AUTOSCAN_IS_NEW msk \<longleftrightarrow> msk AND (IN_CREATE OR IN_MOVED_TO OR IN_ATTRIB) \<noteq> 0"

definition AUTOSCAN_IS_CREATED :: "32 word \<Rightarrow> bool" where
  "AUTOSCAN_IS_CREATED msk \<longleftrightarrow> msk AND (IN_CREATE OR IN_ATTRIB) \<noteq> 0"

definition AUTOSCAN_IS_WRITTEN :: "32 word \<Rightarrow> bool" where
  "AUTOSCAN_IS_WRITTEN msk \<longleftrightarrow> msk AND (IN_CLOSE_WRITE OR IN_MOVE_SELF OR IN_ATTRIB) \<noteq> 0"

definition AUTOSCAN_IS_IGNORED :: "32 word \<Rightarrow> bool" where
  "AUTOSCAN_IS_IGNORED msk \<longleftrightarrow> msk AND IN_IGNORED \<noteq> 0"

text \<open>
  The thread hands its handler \<open>event->mask & events\<close>: the bits \<open>IN_IGNORED\<close> and \<open>IN_ISDIR\<close>, which the
  kernel sets by itself, never get through.
\<close>

lemma events_masked:
  "\<not> AUTOSCAN_IS_IGNORED (msk AND autoscan_events attrib)" "\<not> AUTOSCAN_IS_DIR (msk AND autoscan_events attrib)"
proof -
  have i: "autoscan_events attrib AND IN_IGNORED = 0" and d: "autoscan_events attrib AND IN_ISDIR = 0"
    by (simp_all add: autoscan_events_def manager_events_def in_defs)
  show "\<not> AUTOSCAN_IS_IGNORED (msk AND autoscan_events attrib)" "\<not> AUTOSCAN_IS_DIR (msk AND autoscan_events attrib)"
    by (simp_all add: AUTOSCAN_IS_IGNORED_def AUTOSCAN_IS_DIR_def and.assoc i d)
qed

section \<open>A printed mask is read back\<close>

lemma in_remap_labels: "\<forall>(f, l) \<in> set inotifyFlags. in_remapFlag l = f"
  by (simp add: inotifyFlags_def in_remapFlag_def)

lemma in_no_hex: "find_name inotifyFlags (CHR ''0'' # t) = None"
  by (simp add: inotifyFlags_def)

lemma in_remap_hex: "in_remapFlag (format_hex (unat w)) = w"
proof -
  obtain t where t: "format_hex (unat w) = CHR ''0'' # t" by (simp add: format_hex_def Let_def)
  moreover have "uint w < 2 ^ 64" using unsigned_less [of w, where 'a=int] by simp
  ultimately show ?thesis
    using in_no_hex [of t] read_format_hex [of "unat w"]
    by (simp add: in_remapFlag_def stoulString0_def starts_number_def isdigit_def)
qed

lemma in_words: "\<forall>w \<in> snd ` set inotifyFlags. flag_word w"
  by (simp add: inotifyFlags_def flag_word_def isspace_def)

lemma in_bits: "map fst inotifyFlags = map ((^) 2)
    [0, 1, 2, 3, 4, 5, 6, 7, 8, 9, 10, 11, 13, 14, 15, 24, 25, 26, 28, 29, 30, 31 :: nat]"
  by (simp add: inotifyFlags_def in_defs)

lemma in_single_bits: "(f, l) \<in> set inotifyFlags \<Longrightarrow> \<exists>n. f = push_bit n 1"
proof -
  assume "(f, l) \<in> set inotifyFlags"
  then have "f \<in> set (map fst inotifyFlags)" by force
  then obtain n where "f = 2 ^ (n :: nat)" unfolding in_bits set_map by blast
  then have "f = push_bit n 1" by (simp add: push_bit_eq_mult)
  then show ?thesis ..
qed

interpretation inotify_flags: flag_words "\<lambda>w. w" in_remapFlag in_labels in_makeFlags "\<lambda>w. True"
  by unfold_locales (simp_all add: in_makeFlags_def in_remap_hex)

text \<open>C26: A mask of kernel events prints as its flags' names, with a hexadecimal number for the bits that have
  none, and the printed form is read back to the same mask, for all \<open>2 ^ 32\<close> masks.\<close>

theorem inotify_mask_roundtrip: "in_makeFlags (in_mapFlags flags) = flags"
proof (cases "flags = 0")
  case True
  have "in_makeFlags (join '' | '' [''None'']) = foldl (\<lambda>flg l. flg OR in_remapFlag l) 0 [''None'']"
    by (rule inotify_flags.make_join) (simp_all add: flag_word_def isspace_def)
  moreover have "in_remapFlag ''None'' = 0"
    by (simp add: in_remapFlag_def inotifyFlags_def stoulString0_def starts_number_def isdigit_def)
  ultimately show ?thesis using True by (simp add: in_mapFlags_def)
next
  case False
  obtain ls rest where l: "in_labels inotifyFlags flags = (ls, rest)" by (cases "in_labels inotifyFlags flags")
  have "\<forall>(f, l) \<in> set inotifyFlags. flags AND f = 0 \<or> (in_remapFlag l = f \<and> (\<exists>n. f = push_bit n 1))"
    using in_remap_labels in_single_bits by fast
  from inotify_flags.print_read [OF this l] False in_words l show ?thesis by (simp add: in_mapFlags_def)
qed

end
