(* ===== verification/Inotify_Watches.thy ===== *)
theory Inotify_Watches
  imports Inotify_Types Autoscan_Dir
begin

text \<open>
  The watches on directories (\<open>src/src/content/inotify/watch.h\<close>, \<open>directory_watch.h\<close>,
  \<open>directory_watch.cc\<close>, \<open>mt_inotify.cc\<close>) and the part of \<open>AutoscanInotify\<close>
  (\<open>src/src/content/inotify/autoscan_inotify.cc\<close>) that sets them. The kernel and the file system are the
  fields of an environment; each question to them is numbered, so that answers may change from one to the next.
  What an operation asks of the kernel and of the content manager without an answer is a list of actions.
  Autoscan directories are shared objects, named by numbers.
\<close>

section \<open>Paths\<close>

text \<open>\<open>fs::path::parent_path\<close>, \<open>operator/=\<close>, \<open>operator==\<close> and \<open>operator<\<close> on the strings of POSIX paths.\<close>

definition rtrim_slashes :: "string \<Rightarrow> string" where
  "rtrim_slashes s = rev (dropWhile (\<lambda>c. c = CHR ''/'') (rev s))"

definition parent_path :: "string \<Rightarrow> string" where
  "parent_path p =
     (let dir = rev (dropWhile (\<lambda>c. c \<noteq> CHR ''/'') (rev p)); par = rtrim_slashes dir
      in if list_all (\<lambda>c. c = CHR ''/'') p then p
         else if par = [] \<and> dir \<noteq> [] then ''/'' else par)"

definition path_append :: "string \<Rightarrow> string \<Rightarrow> string" where
  "path_append p q =
     (if q \<noteq> [] \<and> hd q = CHR ''/'' then q
      else if p \<noteq> [] \<and> last p \<noteq> CHR ''/'' then p @ ''/'' @ q
      else p @ q)"

definition same_path :: "string \<Rightarrow> string \<Rightarrow> bool" where
  "same_path p q \<longleftrightarrow> path_components p = path_components q"

definition rooted :: "string \<Rightarrow> bool" where
  "rooted p \<longleftrightarrow> p \<noteq> [] \<and> hd p = CHR ''/''"

definition path_less :: "string \<Rightarrow> string \<Rightarrow> bool" where
  "path_less p q \<longleftrightarrow>
     (if rooted p = rooted q then path_components p < path_components q else rooted q)"

section \<open>Watches\<close>

definition INOTIFY_ROOT :: int where
  "INOTIFY_ROOT = - 1"

definition INOTIFY_UNKNOWN_PARENT_WD :: int where
  "INOTIFY_UNKNOWN_PARENT_WD = - 2"

datatype watch =
    WatchAutoscan (wa_adir: nat) (wa_isStartPoint: bool) (wa_descendants: "int list") (wa_nonExistingPath: string)
  | WatchScript (ws_descendants: "int list") (ws_dir: string)
  | WatchMove (wm_removeWd: int)

text \<open>\<open>dw_version\<close> counts the insertions into the vector and the erasures: they make iterators stale.\<close>

record DirectoryWatch =
  dw_path :: string
  dw_parentWd :: int
  dw_wd :: int
  wdWatches :: "watch list"
  dw_version :: nat

definition new_watch :: "string \<Rightarrow> int \<Rightarrow> int \<Rightarrow> DirectoryWatch" where
  "new_watch path wd parentWd =
     \<lparr>dw_path = path, dw_parentWd = parentWd, dw_wd = wd, wdWatches = [], dw_version = 0\<rparr>"

definition push_watch :: "watch \<Rightarrow> DirectoryWatch \<Rightarrow> DirectoryWatch" where
  "push_watch w dw = dw\<lparr>wdWatches := wdWatches dw @ [w], dw_version := Suc (dw_version dw)\<rparr>"

definition erase_watch :: "nat \<Rightarrow> DirectoryWatch \<Rightarrow> DirectoryWatch" where
  "erase_watch i dw =
     dw\<lparr>wdWatches := take i (wdWatches dw) @ drop (Suc i) (wdWatches dw), dw_version := Suc (dw_version dw)\<rparr>"

fun is_autoscan :: "watch \<Rightarrow> bool" where
  "is_autoscan (WatchAutoscan a s d n) = True"
| "is_autoscan _ = False"

fun is_move :: "watch \<Rightarrow> bool" where
  "is_move (WatchMove r) = True"
| "is_move _ = False"

definition getStartPoint :: "DirectoryWatch \<Rightarrow> watch option" where
  "getStartPoint dw = find (\<lambda>w. is_autoscan w \<and> wa_isStartPoint w) (wdWatches dw)"

section \<open>The environment and the state of the thread\<close>

datatype kernel_answer = K_wd nat | K_ENOENT | K_ENOSPC | K_EACCES | K_other

datatype watch_act =
    Remove_watch int
  | Recreated nat
  | Persistent_removed nat
  | Remove_object "nat option" string bool
  | Add_file nat string "nat option"
  | Rescan nat

datatype watch_error = Map_out_of_range | System_error | Undefined_behaviour

text \<open>An object of the database: its number, and whether it is a container or a media item.\<close>

record found_object =
  fo_id :: nat
  fo_container :: bool
  fo_media :: bool

record watch_env =
  kernel_add :: "nat \<Rightarrow> string \<Rightarrow> kernel_answer"
  is_directory :: "nat \<Rightarrow> string \<Rightarrow> bool"
  is_regular :: "nat \<Rightarrow> string \<Rightarrow> bool"
  is_symlink :: "nat \<Rightarrow> string \<Rightarrow> bool"
  entry_error :: "nat \<Rightarrow> string \<Rightarrow> bool"
  list_directory :: "nat \<Rightarrow> string \<Rightarrow> string list option"
  skip_hidden :: "nat \<Rightarrow> nat option \<Rightarrow> string \<Rightarrow> bool"
  merged_recursive :: "nat option \<Rightarrow> string \<Rightarrow> bool"
  find_object :: "nat \<Rightarrow> string \<Rightarrow> found_object option"
  shutting_down :: "nat \<Rightarrow> bool"
  adirs :: "nat \<Rightarrow> AutoscanDirectory"
  watched_events :: "32 word"

record watch_state =
  watches :: "int \<Rightarrow> DirectoryWatch option"
  asked :: nat
  acts :: "watch_act list"
  monitorQueue :: "nat option list"
  unmonitorQueue :: "nat option list"

type_synonym 'a wresult = "(watch_error \<times> watch_state) + ('a \<times> watch_state)"

definition tick :: "watch_state \<Rightarrow> watch_state" where
  "tick st = st\<lparr>asked := Suc (asked st)\<rparr>"

definition act :: "watch_act \<Rightarrow> watch_state \<Rightarrow> watch_state" where
  "act a st = st\<lparr>acts := acts st @ [a]\<rparr>"

definition put_watch :: "int \<Rightarrow> DirectoryWatch \<Rightarrow> watch_state \<Rightarrow> watch_state" where
  "put_watch wd dw st = st\<lparr>watches := (watches st)(wd \<mapsto> dw)\<rparr>"

definition loc :: "watch_env \<Rightarrow> nat \<Rightarrow> string" where
  "loc env a = ad_location (adirs env a)"

definition retries :: "watch_env \<Rightarrow> nat \<Rightarrow> nat" where
  "retries env a = unat (retryCount (adirs env a))"

text \<open>\<open>Inotify::addWatch\<close>: a watch without permission is tried again, as often as the count says.\<close>

fun inotify_addWatch :: "watch_env \<Rightarrow> string \<Rightarrow> nat \<Rightarrow> watch_state \<Rightarrow> int wresult" where
  "inotify_addWatch env path retryCnt st =
     (case kernel_add env (asked st) path of
        K_wd wd \<Rightarrow> Inr (int wd, tick st)
      | K_ENOENT \<Rightarrow> Inr (- 1, tick st)
      | K_ENOSPC \<Rightarrow> Inl (System_error, tick st)
      | K_EACCES \<Rightarrow> (case retryCnt of 0 \<Rightarrow> Inr (- 1, tick st) | Suc r \<Rightarrow> inotify_addWatch env path r (tick st))
      | K_other \<Rightarrow> Inl (System_error, tick st))"

declare inotify_addWatch.simps [simp del]

text \<open>\<open>getAppropriateAutoscan\<close>: by the location of the directory, and by a path for the deepest one above it.\<close>

fun watches_location :: "watch_env \<Rightarrow> nat \<Rightarrow> watch \<Rightarrow> bool" where
  "watches_location env a (WatchAutoscan b s d nonex) = (nonex = [] \<and> same_path (loc env b) (loc env a))"
| "watches_location env a _ = False"

definition appropriate_watch :: "watch_env \<Rightarrow> DirectoryWatch \<Rightarrow> nat \<Rightarrow> nat option" where
  "appropriate_watch env dw a = position (watches_location env a) (wdWatches dw)"

fun best_match :: "watch_env \<Rightarrow> string \<Rightarrow> watch list \<Rightarrow> string \<Rightarrow> nat option \<Rightarrow> nat option" where
  "best_match env path [] pathBestMatch bestMatch = bestMatch"
| "best_match env path (WatchAutoscan a s d nonex # ws) pathBestMatch bestMatch =
     (if nonex = [] \<and> isSubDir path (loc env a) \<and> (pathBestMatch = [] \<or> path_less pathBestMatch (loc env a))
      then best_match env path ws (loc env a) (Some a)
      else best_match env path ws pathBestMatch bestMatch)"
| "best_match env path (w # ws) pathBestMatch bestMatch = best_match env path ws pathBestMatch bestMatch"

definition appropriate_autoscan :: "watch_env \<Rightarrow> DirectoryWatch \<Rightarrow> string \<Rightarrow> nat option" where
  "appropriate_autoscan env dw path = best_match env path (wdWatches dw) [] None"

section \<open>Setting watches\<close>

definition addMoveWatch :: "watch_env \<Rightarrow> string \<Rightarrow> int \<Rightarrow> int \<Rightarrow> nat \<Rightarrow> watch_state \<Rightarrow> int wresult" where
  "addMoveWatch env path removeWd parentWd retryCnt st =
     bindE (inotify_addWatch env path retryCnt st) (\<lambda>(wd, st).
       if wd > INOTIFY_ROOT then
         (let dw = (case watches st wd of
                      Some dw \<Rightarrow>
                        if dw_parentWd dw > INOTIFY_ROOT then
                          (if parentWd \<noteq> dw_parentWd dw then dw\<lparr>dw_parentWd := parentWd\<rparr> else dw)
                        else dw\<lparr>dw_parentWd := parentWd\<rparr>
                    | None \<Rightarrow> new_watch path wd parentWd)
          in Inr (wd, put_watch wd (push_watch (WatchMove removeWd) dw) st))
       else Inr (wd, st))"

fun move_loop ::
  "watch_env \<Rightarrow> int \<Rightarrow> nat \<Rightarrow> string list \<Rightarrow> string \<Rightarrow> int \<Rightarrow> watch_state \<Rightarrow> int wresult" where
  "move_loop env wd retryCnt [] watchPath parentWd st = Inr (parentWd, st)"
| "move_loop env wd retryCnt (it # its) watchPath parentWd st =
     bindE (addMoveWatch env (path_append watchPath it) wd parentWd retryCnt st) (\<lambda>(parentWd, st).
       move_loop env wd retryCnt its (path_append watchPath it) parentWd st)"

definition watchPathForMoves :: "watch_env \<Rightarrow> string \<Rightarrow> int \<Rightarrow> nat \<Rightarrow> watch_state \<Rightarrow> int wresult" where
  "watchPathForMoves env path wd retryCnt st =
     move_loop env wd retryCnt (path_components (parent_path path)) [] INOTIFY_ROOT st"

fun add_desc :: "int \<Rightarrow> watch \<Rightarrow> watch" where
  "add_desc wd (WatchAutoscan a s d nonex) = WatchAutoscan a s (d @ [wd]) nonex"
| "add_desc wd w = w"

definition addDescendant :: "watch_env \<Rightarrow> int \<Rightarrow> int \<Rightarrow> nat \<Rightarrow> watch_state \<Rightarrow> watch_state" where
  "addDescendant env startPointWd addWd a st =
     (case watches st startPointWd of None \<Rightarrow> st
      | Some dw \<Rightarrow>
          (case appropriate_watch env dw a of None \<Rightarrow> st
           | Some i \<Rightarrow>
               put_watch startPointWd
                 (dw\<lparr>wdWatches := (wdWatches dw)[i := add_desc addWd (wdWatches dw ! i)]\<rparr>) st))"

text \<open>\<open>monitorDirectory\<close> once the kernel has given a descriptor.\<close>

definition watch_found ::
  "watch_env \<Rightarrow> string \<Rightarrow> int \<Rightarrow> nat \<Rightarrow> bool \<Rightarrow> bool \<Rightarrow> string \<Rightarrow> watch_state \<Rightarrow> int wresult" where
  "watch_found env path wd a isStartPoint hasNonExisting nonExistingPath st =
     bindE (if isStartPoint then watchPathForMoves env path wd (retries env a) st
            else Inr (INOTIFY_UNKNOWN_PARENT_WD, st)) (\<lambda>(parentWd, st).
       let (dw, alreadyWatching) =
             (case watches st wd of
                Some dw \<Rightarrow>
                  (if parentWd > INOTIFY_ROOT \<and> dw_parentWd dw \<le> INOTIFY_ROOT then dw\<lparr>dw_parentWd := parentWd\<rparr> else dw,
                   \<not> hasNonExisting \<and> appropriate_watch env dw a \<noteq> None)
              | None \<Rightarrow> (new_watch path wd parentWd, False))
       in if alreadyWatching then Inr (wd, put_watch wd dw st)
          else
            (let st1 = put_watch wd
                   (push_watch (WatchAutoscan a isStartPoint [] (if hasNonExisting then nonExistingPath else [])) dw) st
             in if \<not> isStartPoint then
                  bindE (inotify_addWatch env (loc env a) (retries env a) st1) (\<lambda>(startPointWd, st2).
                    Inr (wd, if wd > INOTIFY_ROOT then addDescendant env startPointWd wd a st2 else st2))
                else Inr (wd, st1)))"

definition nonexisting_watch :: "string \<Rightarrow> watch \<Rightarrow> bool" where
  "nonexisting_watch p w \<longleftrightarrow> is_autoscan w \<and> same_path (wa_nonExistingPath w) p"

definition removeNonexistingMonitor :: "int \<Rightarrow> DirectoryWatch \<Rightarrow> string \<Rightarrow> watch_state \<Rightarrow> watch_state" where
  "removeNonexistingMonitor wd dw nonExistingPath st =
     (case position (nonexisting_watch nonExistingPath) (wdWatches dw) of None \<Rightarrow> st
      | Some i \<Rightarrow>
          if length (wdWatches dw) = 1 then act (Remove_watch wd) st
          else put_watch wd (erase_watch i dw) st)"

text \<open>
  \<open>monitorDirectory\<close> and \<open>recheckNonexistingMonitor\<close> call each other: a start point without a descriptor is
  looked for along its path, and the first directory found is monitored. The number is fuel, one for each call
  and each step along the path; \<^term>\<open>None\<close> is a call that has not returned.
\<close>

fun monitorDirectory ::
      "nat \<Rightarrow> watch_env \<Rightarrow> string \<Rightarrow> nat option \<Rightarrow> bool \<Rightarrow> bool \<Rightarrow> string \<Rightarrow> watch_state \<Rightarrow> int wresult option"
  and recheck_path ::
      "nat \<Rightarrow> watch_env \<Rightarrow> int \<Rightarrow> string \<Rightarrow> bool \<Rightarrow> string \<Rightarrow> nat \<Rightarrow> watch_state \<Rightarrow> unit wresult option" where
  "monitorDirectory 0 env path adir isStartPoint hasNonExisting nonExistingPath st = None"
| "monitorDirectory (Suc n) env path adir isStartPoint hasNonExisting nonExistingPath st =
     (case adir of None \<Rightarrow> Some (Inl (Undefined_behaviour, st))
      | Some a \<Rightarrow>
          bindO (Some (inotify_addWatch env path (retries env a) st)) (\<lambda>(wd, st).
            if wd \<le> INOTIFY_ROOT then
              (if isStartPoint \<and> persistentFlag (adirs env a) then
                 bindO (recheck_path n env INOTIFY_ROOT path True path a st) (\<lambda>(_, st). Some (Inr (wd, st)))
               else Some (Inr (wd, st)))
            else Some (watch_found env path wd a isStartPoint hasNonExisting nonExistingPath st)))"
| "recheck_path 0 env curWd path isFirst nonExistingPath a st = None"
| "recheck_path (Suc n) env curWd path isFirst nonExistingPath a st =
     (if same_path path ''/'' then Some (Inr ((), st))
      else if is_directory env (asked st) path then
        bindO (if curWd > INOTIFY_ROOT then
                 (case watches st curWd of None \<Rightarrow> Some (Inl (Map_out_of_range, tick st))
                  | Some dw \<Rightarrow> Some (Inr ((), removeNonexistingMonitor curWd dw nonExistingPath (tick st))))
               else Some (Inr ((), tick st))) (\<lambda>(_, st).
          if isFirst then
            bindO (monitorDirectory n env path (Some a) True False [] st) (\<lambda>(_, st). Some (Inr ((), act (Recreated a) st)))
          else
            bindO (monitorDirectory n env path (Some a) False True nonExistingPath st) (\<lambda>(_, st). Some (Inr ((), st))))
      else recheck_path n env curWd (parent_path path) False nonExistingPath a (tick st))"

definition recheckNonexistingMonitor ::
  "nat \<Rightarrow> watch_env \<Rightarrow> int \<Rightarrow> string \<Rightarrow> nat \<Rightarrow> watch_state \<Rightarrow> unit wresult option" where
  "recheckNonexistingMonitor n env curWd nonExistingPath a st =
     recheck_path n env curWd nonExistingPath True nonExistingPath a st"

definition monitorNonexisting ::
  "nat \<Rightarrow> watch_env \<Rightarrow> string \<Rightarrow> nat \<Rightarrow> watch_state \<Rightarrow> unit wresult option" where
  "monitorNonexisting n env path a st = recheckNonexistingMonitor n env INOTIFY_ROOT path a st"

end
