(* ===== verification/Inotify_Handler.thy ===== *)
theory Inotify_Handler
  imports Inotify_Watches
begin

text \<open>
  What the watching thread does with an event: \<open>InotifyHandler\<close>
  (\<open>src/src/content/inotify/inotify_handler.cc\<close>), the operations of \<open>AutoscanInotify\<close> it calls, and the
  thread itself (\<open>src/src/content/inotify/autoscan_inotify.cc\<close>). Iterators over the watches of a directory are
  positions; using one after its vector was inserted into or erased from elsewhere is undefined behaviour.
\<close>

unbundle bit_operations_syntax

section \<open>Checking watches again\<close>

text \<open>The loop over the watches of \<open>wd\<close>: \<open>ver\<close> is the version of the vector its iterators belong to.\<close>

fun recheck_watches ::
  "nat \<Rightarrow> watch_env \<Rightarrow> int \<Rightarrow> nat \<Rightarrow> watch list \<Rightarrow> watch_state \<Rightarrow> unit wresult option" where
  "recheck_watches n env wd ver [] st = Some (Inr ((), st))"
| "recheck_watches n env wd ver (WatchAutoscan a s d nonex # ws) st =
     (if nonex \<noteq> [] then
        bindO (recheckNonexistingMonitor n env wd nonex a st) (\<lambda>(_, st).
          if map_option dw_version (watches st wd) \<noteq> Some ver then Some (Inl (Undefined_behaviour, st))
          else recheck_watches n env wd ver ws st)
      else recheck_watches n env wd ver ws st)"
| "recheck_watches n env wd ver (w # ws) st = recheck_watches n env wd ver ws st"

definition recheckNonexistingMonitors ::
  "nat \<Rightarrow> watch_env \<Rightarrow> int \<Rightarrow> watch_state \<Rightarrow> unit wresult option" where
  "recheckNonexistingMonitors n env wd st =
     (case watches st wd of None \<Rightarrow> Some (Inl (Undefined_behaviour, st))
      | Some dw \<Rightarrow> recheck_watches n env wd (dw_version dw) (wdWatches dw) st)"

text \<open>The body of the loop of \<open>checkMoveWatches\<close>, once it has the descriptor to remove.\<close>

definition remove_moved :: "nat \<Rightarrow> watch_env \<Rightarrow> int \<Rightarrow> watch_state \<Rightarrow> unit wresult option" where
  "remove_moved n env removeWd st =
     (case watches st removeWd of None \<Rightarrow> Some (Inl (Map_out_of_range, st))
      | Some _ \<Rightarrow>
          bindO (recheckNonexistingMonitors n env removeWd st) (\<lambda>(_, st).
            case watches st removeWd of None \<Rightarrow> Some (Inl (Undefined_behaviour, st))
            | Some dw \<Rightarrow>
                (let st1 = act (Remove_watch removeWd) st
                 in case getStartPoint dw of
                      Some (WatchAutoscan a s d nonex) \<Rightarrow>
                        bindO (if persistentFlag (adirs env a) then
                                 bindO (monitorNonexisting n env (dw_path dw) a st1) (\<lambda>(_, st).
                                   Some (Inr ((), act (Persistent_removed a) st)))
                               else Some (Inr ((), st1))) (\<lambda>(_, st).
                          Some (Inr ((), case find_object env (asked st) (dw_path dw) of
                             Some ob \<Rightarrow> act (Remove_object (Some a) (dw_path dw) False) (tick st)
                           | None \<Rightarrow> tick st)))
                    | _ \<Rightarrow> Some (Inr ((), st1)))))"

text \<open>\<open>try \<dots> catch (const std::out_of_range&)\<close>\<close>

definition catch_range :: "unit wresult option \<Rightarrow> unit wresult option" where
  "catch_range r =
     (case r of Some (Inl (Map_out_of_range, st)) \<Rightarrow> Some (Inr ((), st)) | _ \<Rightarrow> r)"

text \<open>
  The loop of \<open>checkMoveWatches\<close> at position \<open>i\<close>: after \<open>++it\<close> or \<open>it = erase(it)\<close> it reads \<open>*it\<close> as a
  \<open>WatchMove\<close>, whether \<open>it\<close> is at the end or at a watch of another class.
\<close>

fun check_moves :: "nat \<Rightarrow> watch_env \<Rightarrow> int \<Rightarrow> nat \<Rightarrow> nat \<Rightarrow> watch_state \<Rightarrow> unit wresult option" where
  "check_moves 0 env wd ver i st = None"
| "check_moves (Suc n) env wd ver i st =
     (case watches st wd of None \<Rightarrow> Some (Inl (Undefined_behaviour, st))
      | Some dw \<Rightarrow>
          if dw_version dw \<noteq> ver then Some (Inl (Undefined_behaviour, st))
          else if i \<ge> length (wdWatches dw) then Some (Inr ((), st))
          else if is_move (wdWatches dw ! i) then
            (let (dw1, j, st1) =
               (if length (wdWatches dw) = 1 then (dw, Suc i, act (Remove_watch wd) st)
                else (erase_watch i dw, i, put_watch wd (erase_watch i dw) st))
             in if j < length (wdWatches dw1) then
                  (case wdWatches dw1 ! j of
                     WatchMove removeWd \<Rightarrow>
                       bindO (catch_range (remove_moved n env removeWd st1)) (\<lambda>(_, st).
                         check_moves n env wd (dw_version dw1) j st)
                   | _ \<Rightarrow> Some (Inl (Undefined_behaviour, st1)))
                else Some (Inl (Undefined_behaviour, st1)))
          else check_moves n env wd ver (Suc i) st)"

definition checkMoveWatches :: "nat \<Rightarrow> watch_env \<Rightarrow> int \<Rightarrow> watch_state \<Rightarrow> unit wresult option" where
  "checkMoveWatches n env wd st =
     (case watches st wd of None \<Rightarrow> Some (Inl (Undefined_behaviour, st))
      | Some dw \<Rightarrow> check_moves n env wd (dw_version dw) 0 st)"

section \<open>Watching a tree\<close>

definition removeFromWdObj :: "int \<Rightarrow> DirectoryWatch \<Rightarrow> nat \<Rightarrow> watch_state \<Rightarrow> watch_state" where
  "removeFromWdObj wd dw i st =
     (if length (wdWatches dw) = 1 then act (Remove_watch (dw_wd dw)) st
      else put_watch wd (erase_watch i dw) st)"

definition unmonitorDirectory :: "watch_env \<Rightarrow> string \<Rightarrow> nat option \<Rightarrow> watch_state \<Rightarrow> unit wresult" where
  "unmonitorDirectory env path adir st =
     (case adir of None \<Rightarrow> Inl (Undefined_behaviour, st)
      | Some a \<Rightarrow>
          bindE (inotify_addWatch env path (retries env a) st) (\<lambda>(wd, st).
            Inr ((),
              if wd \<le> INOTIFY_ROOT then st
              else case watches st wd of None \<Rightarrow> st
                | Some dw \<Rightarrow>
                    (case appropriate_watch env dw a of None \<Rightarrow> st
                     | Some i \<Rightarrow>
                         if length (wdWatches dw) = 1 then act (Remove_watch wd) st
                         else removeFromWdObj wd dw i st))))"

text \<open>The entries of a directory, with the walk below one of them as a function.\<close>

fun each_entry ::
  "watch_env \<Rightarrow> nat option \<Rightarrow> (string \<Rightarrow> watch_state \<Rightarrow> int option wresult option) \<Rightarrow> string list \<Rightarrow>
   watch_state \<Rightarrow> unit wresult option" where
  "each_entry env adir walk [] st = Some (Inr ((), st))"
| "each_entry env adir walk (p # ps) st =
     (if shutting_down env (asked st) then Some (Inr ((), tick st))
      else
        (let st1 = tick st in
         if skip_hidden env (asked st1) adir p then each_entry env adir walk ps (tick st1)
         else
           (let st2 = tick st1 in
            if is_directory env (asked st2) p \<and> merged_recursive env adir p then
              bindO (walk p (tick st2)) (\<lambda>(_, st). each_entry env adir walk ps st)
            else each_entry env adir walk ps (tick st2))))"

fun monitorUnmonitorRecursive ::
  "nat \<Rightarrow> watch_env \<Rightarrow> string \<Rightarrow> bool \<Rightarrow> nat option \<Rightarrow> bool \<Rightarrow> watch_state \<Rightarrow> int option wresult option" where
  "monitorUnmonitorRecursive 0 env startPath unmon adir isStartPoint st = None"
| "monitorUnmonitorRecursive (Suc n) env startPath unmon adir isStartPoint st =
     bindO (if unmon then Some (bindE (unmonitorDirectory env startPath adir st) (\<lambda>(_, st). Inr (INOTIFY_ROOT, st)))
            else monitorDirectory n env startPath adir isStartPoint False [] st) (\<lambda>(result, st).
       if \<not> unmon \<and> result \<le> INOTIFY_ROOT then Some (Inr (None, st))
       else if \<not> is_directory env (asked st) startPath then Some (Inr (None, tick st))
       else
         (let st1 = tick st in
          case list_directory env (asked st1) startPath of None \<Rightarrow> Some (Inr (None, tick st1))
          | Some entries \<Rightarrow>
              bindO (each_entry env adir (\<lambda>p. monitorUnmonitorRecursive n env p unmon adir False) entries (tick st1))
                (\<lambda>(_, st).
                  if result > INOTIFY_ROOT then
                    (case watches st result of None \<Rightarrow> Some (Inl (Map_out_of_range, st))
                     | Some dw \<Rightarrow> Some (Inr (Some result, st)))
                  else Some (Inr (None, st)))))"

section \<open>Removing watches\<close>

text \<open>The inner loop of \<open>removeWatchMoves\<close>: only a \<open>WatchMove\<close> advances it.\<close>

fun remove_moves_of :: "nat \<Rightarrow> int \<Rightarrow> int \<Rightarrow> nat \<Rightarrow> watch_state \<Rightarrow> watch_state option" where
  "remove_moves_of 0 wd checkWd i st = None"
| "remove_moves_of (Suc n) wd checkWd i st =
     (case watches st checkWd of None \<Rightarrow> Some st
      | Some dw \<Rightarrow>
          if i \<ge> length (wdWatches dw) then Some st
          else
            (case wdWatches dw ! i of
               WatchMove removeWd \<Rightarrow>
                 if removeWd = wd then
                   (if length (wdWatches dw) > 1 then
                      remove_moves_of n wd checkWd i (put_watch checkWd (erase_watch i dw) st)
                    else remove_moves_of n wd checkWd (Suc i) (act (Remove_watch checkWd) st))
                 else remove_moves_of n wd checkWd (Suc i) st
             | _ \<Rightarrow> remove_moves_of n wd checkWd i st))"

fun remove_moves_up :: "nat \<Rightarrow> int \<Rightarrow> bool \<Rightarrow> int \<Rightarrow> watch_state \<Rightarrow> watch_state option" where
  "remove_moves_up 0 wd isFirst checkWd st = None"
| "remove_moves_up (Suc n) wd isFirst checkWd st =
     (case watches st checkWd of None \<Rightarrow> Some st
      | Some dw \<Rightarrow>
          if wdWatches dw = [] then Some st
          else
            (case (if isFirst then Some st else remove_moves_of n wd checkWd 0 st) of None \<Rightarrow> None
             | Some st1 \<Rightarrow>
                 if dw_parentWd dw > INOTIFY_ROOT then remove_moves_up n wd False (dw_parentWd dw) st1
                 else Some st1))"

definition removeWatchMoves :: "nat \<Rightarrow> int \<Rightarrow> watch_state \<Rightarrow> watch_state option" where
  "removeWatchMoves n wd st = remove_moves_up n wd True wd st"

definition removeDescendants :: "int \<Rightarrow> watch_state \<Rightarrow> watch_state" where
  "removeDescendants wd st =
     (case watches st wd of None \<Rightarrow> st
      | Some dw \<Rightarrow>
          st\<lparr>acts := acts st @ concat (map (\<lambda>w. if is_autoscan w then map Remove_watch (wa_descendants w) else [])
                                         (wdWatches dw)),
             watches := (watches st)(wd := None)\<rparr>)"

end
