(* ===== verification/Inotify_Thread.thy ===== *)
theory Inotify_Thread
  imports Inotify_Handler
begin

text \<open>
  The handling of one event, \<open>InotifyHandler\<close> (\<open>src/src/content/inotify/inotify_handler.cc\<close>), and the thread
  of \<open>AutoscanInotify\<close> with its two queues (\<open>src/src/content/inotify/autoscan_inotify.cc\<close>).
\<close>

unbundle bit_operations_syntax

record inotify_event =
  ev_wd :: int
  ev_mask :: "32 word"
  ev_name :: string

text \<open>The handler's members: the masked event, and what its methods find out one after the other.\<close>

record InotifyHandler =
  h_wd :: int
  h_mask :: "32 word"
  h_name :: string
  h_path :: string
  h_adir :: "nat option"
  h_changed :: "found_object option"

definition new_handler :: "inotify_event \<Rightarrow> 32 word \<Rightarrow> InotifyHandler" where
  "new_handler ev maskedEvent =
     \<lparr>h_wd = ev_wd ev, h_mask = maskedEvent, h_name = ev_name ev, h_path = [], h_adir = None, h_changed = None\<rparr>"

definition getPath :: "DirectoryWatch \<Rightarrow> InotifyHandler \<Rightarrow> InotifyHandler" where
  "getPath dw h =
     h\<lparr>h_path := (if \<not> AUTOSCAN_IS_GONE (h_mask h) \<and> h_name h \<noteq> [] then path_append (dw_path dw) (h_name h)
                  else dw_path dw)\<rparr>"

definition getAutoscanDirectory ::
  "watch_env \<Rightarrow> DirectoryWatch \<Rightarrow> InotifyHandler \<Rightarrow> watch_state \<Rightarrow> (bool \<times> InotifyHandler) \<times> watch_state" where
  "getAutoscanDirectory env dw h st =
     (let ec = entry_error env (asked st) (h_path h);
          st1 = tick st;
          isDir = AUTOSCAN_IS_DIR (h_mask h);
          isDir1 = (if \<not> ec then isDir \<or> \<not> is_regular env (asked st1) (h_path h)
                    else if \<not> isDir then \<not> is_regular env (asked st1) (h_path h) else isDir)
      in ((isDir1, case appropriate_autoscan env dw (h_path h) of Some a \<Rightarrow> h\<lparr>h_adir := Some a\<rparr> | None \<Rightarrow> h),
          tick st1))"

definition doMove :: "nat \<Rightarrow> watch_env \<Rightarrow> InotifyHandler \<Rightarrow> watch_state \<Rightarrow> unit wresult option" where
  "doMove n env h st =
     bindO (if AUTOSCAN_WAS_MOVED (h_mask h) then checkMoveWatches n env (h_wd h) st else Some (Inr ((), st))) (\<lambda>(_, st).
       if AUTOSCAN_IS_GONE (h_mask h) then recheckNonexistingMonitors n env (h_wd h) st else Some (Inr ((), st)))"

definition doDirectory :: "nat \<Rightarrow> watch_env \<Rightarrow> InotifyHandler \<Rightarrow> watch_state \<Rightarrow> unit wresult option" where
  "doDirectory n env h st =
     bindO (if AUTOSCAN_IS_NEW (h_mask h) then recheckNonexistingMonitors n env (h_wd h) st else Some (Inr ((), st))) (\<lambda>(_, st).
       if merged_recursive env (h_adir h) (h_path h) \<and> AUTOSCAN_IS_CREATED (h_mask h) then
         (let st1 = tick st in
          if \<not> skip_hidden env (asked st) (h_adir h) (h_path h) then
            bindO (monitorUnmonitorRecursive n env (h_path h) False (h_adir h) False st1) (\<lambda>(_, st). Some (Inr ((), st)))
          else Some (Inr ((), st1)))
       else Some (Inr ((), st)))"

text \<open>\<open>doExistingEntry\<close>: the descriptor to remove, whether the path is a directory, and the changed object.\<close>

definition doExistingEntry ::
  "nat \<Rightarrow> watch_env \<Rightarrow> nat \<Rightarrow> ImportMode \<Rightarrow> bool \<Rightarrow> InotifyHandler \<Rightarrow> watch_state \<Rightarrow>
   (int \<times> bool \<times> InotifyHandler) wresult option" where
  "doExistingEntry n env a importMode isDir h st =
     (let m = h_mask h in
      if \<not> AUTOSCAN_IS_NEW m \<or> (AUTOSCAN_IS_MOVED m \<and> \<not> isDir) then
        bindO (if AUTOSCAN_IS_GONE m then
                 (case watches st (h_wd h) of None \<Rightarrow> Some (Inl (Undefined_behaviour, st))
                  | Some dw \<Rightarrow>
                      (case getStartPoint dw of
                         Some (WatchAutoscan b s d nonex) \<Rightarrow>
                           if persistentFlag (adirs env a) then
                             bindO (monitorNonexisting n env (h_path h) b st) (\<lambda>(_, st).
                               Some (Inr ((), act (Persistent_removed a) st)))
                           else Some (Inr ((), st))
                       | _ \<Rightarrow> Some (Inr ((), st))))
               else Some (Inr ((), st))) (\<lambda>(_, st).
          let result = (if AUTOSCAN_IS_GONE m \<and> \<not> AUTOSCAN_WAS_MOVED m then h_wd h else INOTIFY_ROOT);
              found = find_object env (asked st) (h_path h);
              st1 = tick st
          in case found of
               None \<Rightarrow> Some (Inr ((result, isDir, h\<lparr>h_changed := None\<rparr>), st1))
             | Some ob \<Rightarrow>
                 if (\<not> AUTOSCAN_IS_WRITTEN m \<and> \<not> AUTOSCAN_IS_MOVED m) \<or> (importMode \<noteq> Mode_Gerbera \<and> \<not> fo_media ob) then
                   Some (Inr ((result, fo_container ob, h\<lparr>h_changed := None\<rparr>),
                              act (Remove_object (Some a) (h_path h) (\<not> AUTOSCAN_IS_MOVED m)) st1))
                 else Some (Inr ((result, fo_container ob, h\<lparr>h_changed := Some ob\<rparr>), st1)))
      else Some (Inr ((INOTIFY_ROOT, isDir, h), st)))"

definition doNewEntry :: "nat \<Rightarrow> watch_env \<Rightarrow> nat \<Rightarrow> bool \<Rightarrow> InotifyHandler \<Rightarrow> watch_state \<Rightarrow> unit wresult option" where
  "doNewEntry n env a isDir h st =
     (let st1 = tick st in
      if AUTOSCAN_IS_NEW_ENTRY (h_mask h) (isDir \<or> is_symlink env (asked st) (h_path h)) then
        (let st2 = act (Add_file a (h_path h) (map_option fo_id (h_changed h))) st1 in
         if isDir then
           bindO (monitorUnmonitorRecursive n env (h_path h) False (Some a) False st2) (\<lambda>(wdObjPath, st).
             case wdObjPath of
               Some wd \<Rightarrow>
                 if AUTOSCAN_IS_MOVED (h_mask h) then
                   Some (Inr ((), st\<lparr>watches := (watches st)(wd := map_option (dw_path_update (\<lambda>_. h_path h)) (watches st wd))\<rparr>))
                 else Some (Inr ((), st))
             | None \<Rightarrow> Some (Inr ((), st)))
         else Some (Inr ((), st2)))
      else Some (Inr ((), st1)))"

definition doIgnored :: "nat \<Rightarrow> InotifyHandler \<Rightarrow> watch_state \<Rightarrow> unit wresult option" where
  "doIgnored n h st =
     (if AUTOSCAN_IS_IGNORED (h_mask h) then
        (case removeWatchMoves n (h_wd h) st of None \<Rightarrow> None
         | Some st1 \<Rightarrow> Some (Inr ((), removeDescendants (h_wd h) st1)))
      else Some (Inr ((), st)))"

text \<open>One event in \<open>threadProc\<close>: \<open>getWatch\<close> removes a descriptor that is not in the table.\<close>

definition handle_event :: "nat \<Rightarrow> watch_env \<Rightarrow> inotify_event \<Rightarrow> watch_state \<Rightarrow> unit wresult option" where
  "handle_event n env ev st =
     (let msk = ev_mask ev AND watched_events env in
      if msk = 0 then Some (Inr ((), st))
      else
        (case watches st (ev_wd ev) of None \<Rightarrow> Some (Inr ((), act (Remove_watch (ev_wd ev)) st))
         | Some dw \<Rightarrow>
             (let h0 = getPath dw (new_handler ev msk);
                  ((isDir, h), st0) = getAutoscanDirectory env dw h0 st
              in bindO (doMove n env h st0) (\<lambda>(_, st).
                 bindO (case h_adir h of
                          Some a \<Rightarrow>
                            bindO (doExistingEntry n env a (layoutMode (adirs env a)) isDir h st) (\<lambda>((wd, isDir, h), st).
                              bindO (doNewEntry n env a isDir h
                                       (if wd > INOTIFY_ROOT then act (Remove_watch wd) st else st)) (\<lambda>(_, st).
                                Some (Inr ((isDir, h), st))))
                        | None \<Rightarrow> Some (Inr ((isDir, h), st))) (\<lambda>((isDir, h), st).
                 bindO (if isDir then doDirectory n env h st else Some (Inr ((), st))) (\<lambda>(_, st).
                   doIgnored n h st))))))"

section \<open>The queues and the thread\<close>

definition monitor :: "nat option \<Rightarrow> watch_state \<Rightarrow> watch_state" where
  "monitor adir st = st\<lparr>monitorQueue := monitorQueue st @ [adir]\<rparr>"

definition unmonitor :: "nat option \<Rightarrow> watch_state \<Rightarrow> watch_state" where
  "unmonitor adir st = st\<lparr>unmonitorQueue := unmonitorQueue st @ [adir]\<rparr>"

fun drain_unmonitor :: "nat \<Rightarrow> watch_env \<Rightarrow> watch_state \<Rightarrow> unit wresult option" where
  "drain_unmonitor 0 env st = None"
| "drain_unmonitor (Suc n) env st =
     (case unmonitorQueue st of [] \<Rightarrow> Some (Inr ((), st))
      | adir # q \<Rightarrow>
          (let st1 = st\<lparr>unmonitorQueue := q\<rparr> in
           case adir of None \<Rightarrow> drain_unmonitor n env st1
           | Some a \<Rightarrow>
               if loc env a = [] then drain_unmonitor n env st1
               else if recursive (adirs env a) then
                 bindO (monitorUnmonitorRecursive n env (loc env a) True (Some a) True st1) (\<lambda>(_, st). drain_unmonitor n env st)
               else bindO (Some (unmonitorDirectory env (loc env a) (Some a) st1)) (\<lambda>(_, st). drain_unmonitor n env st)))"

fun drain_monitor :: "nat \<Rightarrow> watch_env \<Rightarrow> watch_state \<Rightarrow> unit wresult option" where
  "drain_monitor 0 env st = None"
| "drain_monitor (Suc n) env st =
     (case monitorQueue st of [] \<Rightarrow> Some (Inr ((), st))
      | adir # q \<Rightarrow>
          (let st1 = st\<lparr>monitorQueue := q\<rparr> in
           case adir of None \<Rightarrow> drain_monitor n env st1
           | Some a \<Rightarrow>
               if loc env a = [] then drain_monitor n env st1
               else if entry_error env (asked st1) (loc env a) then drain_monitor n env (tick st1)
               else
                 bindO (if recursive (adirs env a) then
                          bindO (monitorUnmonitorRecursive n env (loc env a) False (Some a) True (tick st1)) (\<lambda>(_, st).
                            Some (Inr ((), st)))
                        else
                          bindO (monitorDirectory n env (loc env a) (Some a) True False [] (tick st1)) (\<lambda>(_, st).
                            Some (Inr ((), st)))) (\<lambda>(_, st).
                   drain_monitor n env (act (Rescan a) st))))"

text \<open>
  A round of the loop: both queues, then the event, if one came. A \<open>std::runtime_error\<close> is logged and the loop
  goes on with the state as it is; other exceptions and undefined behaviour end the thread.
\<close>

definition thread_round :: "nat \<Rightarrow> watch_env \<Rightarrow> inotify_event option \<Rightarrow> watch_state \<Rightarrow> unit wresult option" where
  "thread_round n env ev st =
     (case bindO (drain_unmonitor n env st) (\<lambda>(_, st).
           bindO (drain_monitor n env st) (\<lambda>(_, st).
             case ev of None \<Rightarrow> Some (Inr ((), st)) | Some e \<Rightarrow> handle_event n env e st)) of
        Some (Inl (System_error, st)) \<Rightarrow> Some (Inr ((), st))
      | r \<Rightarrow> r)"

section \<open>The watches on folders of scripts\<close>

text \<open>\<open>ScriptingInotify::monitorDirectory\<close> (\<open>src/src/content/inotify/scripting_inotify.cc\<close>).\<close>

definition script_monitorDirectory :: "watch_env \<Rightarrow> string \<Rightarrow> watch_state \<Rightarrow> int wresult" where
  "script_monitorDirectory env path st =
     bindE (inotify_addWatch env path 0 st) (\<lambda>(wd, st).
       if wd > INOTIFY_ROOT then
         (let dw = (case watches st wd of Some dw \<Rightarrow> dw | None \<Rightarrow> new_watch path wd INOTIFY_UNKNOWN_PARENT_WD)
          in bindE (inotify_addWatch env path 0 (put_watch wd dw st)) (\<lambda>(startPointWd, st).
               Inr (wd, put_watch wd (push_watch (WatchScript (if wd > INOTIFY_ROOT then [wd] else []) path) dw) st)))
       else Inr (wd, st))"

end
