(* ===== verification/Inotify_Table.thy ===== *)
theory Inotify_Table
  imports Inotify_Thread
begin

text \<open>
  The table of watched directories: every operation of the thread keeps its entries, each under its own
  descriptor and with a watch in it. The proofs go along a preorder on states, whose rules for sequencing are
  stated once for any preorder.
\<close>

section \<open>Preorders along computations\<close>

locale state_order =
  fixes R :: "'s \<Rightarrow> 's \<Rightarrow> bool"
  assumes R_refl: "R s s"
    and R_trans: "R s t \<Longrightarrow> R t u \<Longrightarrow> R s u"
begin

definition runE :: "'s \<Rightarrow> ('e \<times> 's) + ('a \<times> 's) \<Rightarrow> bool" where
  "runE s r \<longleftrightarrow> (case r of Inl (e, t) \<Rightarrow> R s t | Inr (a, t) \<Rightarrow> R s t)"

definition runO :: "'s \<Rightarrow> (('e \<times> 's) + ('a \<times> 's)) option \<Rightarrow> bool" where
  "runO s r \<longleftrightarrow> (case r of None \<Rightarrow> True | Some r \<Rightarrow> runE s r)"

lemma run_simps [simp]:
  "runE s (Inl (e, t)) = R s t" "runE s (Inr (a, t)) = R s t" "runO s None" "runO s (Some r) = runE s r"
  by (simp_all add: runE_def runO_def)

lemma runE_trans: "R s t \<Longrightarrow> runE t r \<Longrightarrow> runE s r"
  by (auto simp: runE_def intro: R_trans split: sum.splits)

lemma runO_trans: "R s t \<Longrightarrow> runO t r \<Longrightarrow> runO s r"
  by (auto simp: runO_def intro: runE_trans split: option.splits)

lemma runE_bind: "runE s m \<Longrightarrow> (\<And>a t. m = Inr (a, t) \<Longrightarrow> runE t (f (a, t))) \<Longrightarrow> runE s (bindE m f)"
proof (cases m)
  case (Inr at)
  assume "runE s m" "\<And>a t. m = Inr (a, t) \<Longrightarrow> runE t (f (a, t))"
  then show ?thesis using Inr by (cases at) (auto intro: runE_trans)
qed auto

lemma runO_bind: "runO s m \<Longrightarrow> (\<And>a t. m = Some (Inr (a, t)) \<Longrightarrow> runO t (f (a, t))) \<Longrightarrow> runO s (bindO m f)"
proof (cases "(m, f)" rule: bindO.cases)
  case (3 at g)
  assume "runO s m" "\<And>a t. m = Some (Inr (a, t)) \<Longrightarrow> runO t (f (a, t))"
  then show ?thesis using 3 by (cases at) (auto intro: runO_trans)
qed auto

end

section \<open>What stays of the table\<close>

definition table_ok :: "watch_state \<Rightarrow> bool" where
  "table_ok st \<longleftrightarrow>
     (\<forall>wd dw. watches st wd = Some dw \<longrightarrow> dw_wd dw = wd \<and> INOTIFY_ROOT < wd \<and> wdWatches dw \<noteq> [])"

definition entry_kept :: "DirectoryWatch \<Rightarrow> DirectoryWatch \<Rightarrow> bool" where
  "entry_kept dw dw' \<longleftrightarrow>
     dw_version dw \<le> dw_version dw' \<and>
     (dw_version dw' = dw_version dw \<longrightarrow> map is_move (wdWatches dw') = map is_move (wdWatches dw))"

definition kept :: "watch_state \<Rightarrow> watch_state \<Rightarrow> bool" where
  "kept st st' \<longleftrightarrow>
     (\<forall>wd dw. watches st wd = Some dw \<longrightarrow> (\<exists>dw'. watches st' wd = Some dw' \<and> entry_kept dw dw')) \<and>
     (table_ok st \<longrightarrow> table_ok st')"

lemma entry_kept_refl [simp]: "entry_kept dw dw"
  by (simp add: entry_kept_def)

lemma entry_kept_trans: "entry_kept a b \<Longrightarrow> entry_kept b c \<Longrightarrow> entry_kept a c"
  by (auto simp: entry_kept_def)

interpretation kept: state_order kept
proof
  fix s t u
  show "kept s s" by (auto simp: kept_def)
  show "kept s u" if "kept s t" "kept t u"
    using that unfolding kept_def by (meson entry_kept_trans)
qed

declare kept.R_refl [simp]

lemma kept_frame: "watches st' = watches st \<Longrightarrow> kept st st'"
  by (simp add: kept_def table_ok_def)

lemma kept_tick [simp]: "kept st (tick st)" "kept st (act a st)" "kept st (act a (tick st))"
  by (simp_all add: kept_frame tick_def act_def)

lemma kept_tick2 [simp]: "kept st (tick (act a st))" "kept st (act b (tick (act a st)))"
  by (simp_all add: kept_frame tick_def act_def)

lemma watches_tick [simp]: "watches (tick st) = watches st" "watches (act a st) = watches st"
  by (simp_all add: tick_def act_def)

lemma kept_put:
  assumes "\<And>dw0. watches st wd = Some dw0 \<Longrightarrow> entry_kept dw0 dw"
    and "table_ok st \<Longrightarrow> dw_wd dw = wd \<and> INOTIFY_ROOT < wd \<and> wdWatches dw \<noteq> []"
  shows "kept st (put_watch wd dw st)"
  using assms by (auto simp: kept_def table_ok_def put_watch_def)

lemma entry_kept_push [simp]: "entry_kept dw (push_watch w dw)"
  by (simp add: entry_kept_def push_watch_def)

lemma entry_kept_erase [simp]: "entry_kept dw (erase_watch i dw)"
  by (simp add: entry_kept_def erase_watch_def)

lemma entry_kept_parent [simp]: "entry_kept dw (dw\<lparr>dw_parentWd := p\<rparr>)"
  by (simp add: entry_kept_def)

lemma table_okD: "table_ok st \<Longrightarrow> watches st wd = Some dw \<Longrightarrow> dw_wd dw = wd \<and> INOTIFY_ROOT < wd \<and> wdWatches dw \<noteq> []"
  by (simp add: table_ok_def)

lemma watch_fields [simp]:
  "dw_wd (push_watch w dw) = dw_wd dw" "dw_wd (erase_watch i dw) = dw_wd dw" "dw_wd (new_watch p wd pw) = wd"
  "wdWatches (push_watch w dw) = wdWatches dw @ [w]"
  by (simp_all add: push_watch_def erase_watch_def new_watch_def)

lemma erase_nonempty: "i < length (wdWatches dw) \<Longrightarrow> length (wdWatches dw) \<noteq> 1 \<Longrightarrow> wdWatches (erase_watch i dw) \<noteq> []"
  by (cases "wdWatches dw"; cases i) (auto simp: erase_watch_def)

lemma kept_erase:
  "watches st wd = Some dw \<Longrightarrow> i < length (wdWatches dw) \<Longrightarrow> length (wdWatches dw) \<noteq> 1 \<Longrightarrow>
   kept st (put_watch wd (erase_watch i dw) st)"
  by (rule kept_put) (use erase_nonempty [of i dw] in \<open>auto dest: table_okD\<close>)

section \<open>Setting watches\<close>

lemma addWatch_kept: "kept.runE st (inotify_addWatch env path r st)"
  by (induction r arbitrary: st)
     (subst inotify_addWatch.simps; auto split: kernel_answer.splits intro: kept.runE_trans [OF kept_tick(1)])+

lemma addMoveWatch_kept: "kept.runE st (addMoveWatch env path removeWd parentWd r st)"
  unfolding addMoveWatch_def
proof (rule kept.runE_bind [OF addWatch_kept], goal_cases)
  case (1 wd t)
  show ?case
  proof (cases "watches t wd")
    case None
    then show ?thesis by (auto simp: Let_def intro!: kept_put)
  next
    case (Some dw)
    let ?dw = "if dw_parentWd dw > INOTIFY_ROOT then (if parentWd \<noteq> dw_parentWd dw then dw\<lparr>dw_parentWd := parentWd\<rparr> else dw)
      else dw\<lparr>dw_parentWd := parentWd\<rparr>"
    have "entry_kept dw ?dw" "dw_wd ?dw = dw_wd dw" by simp_all
    then have "kept t (put_watch wd (push_watch (WatchMove removeWd) ?dw) t)"
      using Some by (intro kept_put) (auto intro: entry_kept_trans [OF _ entry_kept_push] dest: table_okD simp del: if_split)
    then show ?thesis by (simp add: Some Let_def)
  qed
qed

lemma move_loop_kept: "kept.runE st (move_loop env wd r its wp parentWd st)"
proof (induction its arbitrary: wp parentWd st)
  case (Cons it its)
  then show ?case by (auto intro!: kept.runE_bind addMoveWatch_kept)
qed (simp add: kept.R_refl)

lemma add_desc_move [simp]: "is_move (add_desc wd w) = is_move w"
  by (cases w) simp_all

lemma addDescendant_kept: "kept st (addDescendant env sp wd a st)"
proof -
  have m: "map is_move (ws[i := add_desc wd (ws ! i)]) = map is_move ws" for ws i
    by (cases "i < length ws") (simp_all add: map_update list_update_same_conv list_update_beyond)
  show ?thesis
    by (auto simp: addDescendant_def kept.R_refl entry_kept_def m split: option.splits intro!: kept_put dest: table_okD)
qed

lemma descendant_kept:
  "kept t s \<Longrightarrow> kept.runE t (bindE (inotify_addWatch env p r s) (\<lambda>(sp, st2).
     Inr (wd, if b then addDescendant env sp wd' a st2 else st2)))"
  by (rule kept.runE_trans, assumption, rule kept.runE_bind [OF addWatch_kept]) (simp add: addDescendant_kept)

lemma watch_found_kept:
  assumes "wd > INOTIFY_ROOT"
  shows "kept.runE st (watch_found env path wd a isStart hasNon nonex st)"
  unfolding watch_found_def
proof (rule kept.runE_bind, goal_cases)
  case 1
  show ?case by (simp add: watchPathForMoves_def move_loop_kept)
next
  case (2 parentWd t)
  show ?case
  proof (cases "watches t wd")
    case None
    have "kept t (put_watch wd (push_watch w (new_watch path wd parentWd)) t)" for w
      using None assms by (intro kept_put) simp_all
    then show ?thesis using None by (auto simp: Let_def intro: descendant_kept)
  next
    case (Some dw)
    define dw1 where "dw1 = (if parentWd > INOTIFY_ROOT \<and> dw_parentWd dw \<le> INOTIFY_ROOT then dw\<lparr>dw_parentWd := parentWd\<rparr> else dw)"
    have "entry_kept dw dw1" "dw_wd dw1 = dw_wd dw" "wdWatches dw1 = wdWatches dw" by (simp_all add: dw1_def)
    then have p: "kept t (put_watch wd (push_watch w dw1) t)" "kept t (put_watch wd dw1 t)" for w
      using Some by (auto intro!: kept_put entry_kept_trans [OF _ entry_kept_push] dest: table_okD)
    show ?thesis
      unfolding Some option.case Let_def prod.case dw1_def [symmetric]
      using p by (auto intro: descendant_kept)
  qed
qed

lemma position_less: "position P xs = Some i \<Longrightarrow> i < length xs"
  by (simp add: position_Some)

lemma removeNonexistingMonitor_kept: "watches st wd = Some dw \<Longrightarrow> kept st (removeNonexistingMonitor wd dw nonex st)"
  by (auto simp: removeNonexistingMonitor_def dest!: position_less intro: kept_erase split: option.splits)

lemma monitor_recheck_kept:
  "(\<forall>path adir isStart hasNon nonex st. kept.runO st (monitorDirectory n env path adir isStart hasNon nonex st)) \<and>
   (\<forall>curWd path isFirst nonex a st. kept.runO st (recheck_path n env curWd path isFirst nonex a st))"
proof (induction n)
  case (Suc n)
  then have mon: "kept.runO st (monitorDirectory n env path adir isStart hasNon nonex st)"
    and rec: "kept.runO st (recheck_path n env curWd path isFirst nonex a st)" for path adir isStart hasNon nonex st curWd isFirst a
    by blast+
  have "kept.runO st (monitorDirectory (Suc n) env path (Some a) isStart hasNon nonex st)" for path a isStart hasNon nonex st
    unfolding monitorDirectory.simps option.case
    by (rule kept.runO_bind) (auto simp: addWatch_kept intro!: kept.runO_bind rec watch_found_kept)
  then have "kept.runO st (monitorDirectory (Suc n) env path adir isStart hasNon nonex st)" for path adir isStart hasNon nonex st
    by (cases adir) simp_all
  moreover have "kept.runO st (recheck_path (Suc n) env curWd path isFirst nonex a st)" for curWd path isFirst nonex a st
  proof (cases "\<not> same_path path ''/'' \<and> is_directory env (asked st) path")
    case True
    have "kept.runO st (if curWd > INOTIFY_ROOT then
                 (case watches st curWd of None \<Rightarrow> Some (Inl (Map_out_of_range, tick st))
                  | Some dw \<Rightarrow> Some (Inr ((), removeNonexistingMonitor curWd dw nonex (tick st))))
               else Some (Inr ((), tick st)))"
      by (auto split: option.splits intro: kept.R_trans [OF kept_tick(1) removeNonexistingMonitor_kept])
    then show ?thesis
      using True by (auto intro!: kept.runO_bind intro: mon kept.runO_trans [OF kept_tick(1) mon])
  next
    case False
    then show ?thesis by (auto intro: kept.runO_trans [OF kept_tick(1) rec])
  qed
  ultimately show ?case by blast
qed simp

lemmas monitor_kept = monitor_recheck_kept [THEN conjunct1, rule_format]
lemmas recheck_path_kept = monitor_recheck_kept [THEN conjunct2, rule_format]

lemma recheck_kept:
  "kept.runO st (recheckNonexistingMonitor n env curWd nonex a st)" "kept.runO st (monitorNonexisting n env path a st)"
  by (simp_all add: recheckNonexistingMonitor_def monitorNonexisting_def recheck_path_kept)

section \<open>Handling an event\<close>

lemma recheck_watches_kept: "kept.runO st (recheck_watches n env wd ver ws st)"
proof (induction ws arbitrary: st)
  case (Cons w ws)
  then show ?case by (cases w) (auto intro!: kept.runO_bind recheck_kept)
qed simp

lemma recheck_all_kept: "kept.runO st (recheckNonexistingMonitors n env wd st)"
  by (simp add: recheckNonexistingMonitors_def recheck_watches_kept split: option.splits)

lemma remove_moved_kept: "kept.runO st (remove_moved n env removeWd st)"
  unfolding remove_moved_def
  by (auto simp: Let_def split: option.splits watch.splits intro!: kept.runO_bind recheck_all_kept
      kept.runO_trans [OF kept_tick(2) kept.runO_bind [OF recheck_kept(2)]])

lemma catch_range_kept: "kept.runO st r \<Longrightarrow> kept.runO st (catch_range r)"
  by (auto simp: catch_range_def split: option.splits sum.splits watch_error.splits)

lemma check_moves_kept: "kept.runO st (check_moves n env wd ver i st)"
proof (induction n arbitrary: ver i st)
  case (Suc n)
  show ?case
  proof (cases "watches st wd")
    case (Some dw)
    have "kept.runO t (bindO (catch_range (remove_moved n env r t)) (\<lambda>(_, st). check_moves n env wd v j st))" for t r v j
      by (rule kept.runO_bind [OF catch_range_kept [OF remove_moved_kept]]) (simp add: Suc)
    then have b: "kept s t \<Longrightarrow> kept.runO s (bindO (catch_range (remove_moved n env r t)) (\<lambda>(_, st). check_moves n env wd v j st))" for s t r v j
      using kept.runO_trans by blast
    show ?thesis using Some
      by (auto simp: Let_def Suc split: watch.splits intro!: b kept_erase)
  qed simp
qed simp

lemma checkMoveWatches_kept: "kept.runO st (checkMoveWatches n env wd st)"
  by (simp add: checkMoveWatches_def check_moves_kept split: option.splits)

lemma unmonitorDirectory_kept: "kept.runE st (unmonitorDirectory env path adir st)"
proof (cases adir)
  case (Some a)
  show ?thesis
    unfolding unmonitorDirectory_def Some option.case
    by (rule kept.runE_bind [OF addWatch_kept])
       (auto simp: appropriate_watch_def removeFromWdObj_def dest!: position_less intro: kept_erase split: option.splits)
qed (simp add: unmonitorDirectory_def)

lemma each_entry_kept:
  assumes "\<And>p st. kept.runO st (walk p st)"
  shows "kept.runO st (each_entry env adir walk ps st)"
proof (induction ps arbitrary: st)
  case (Cons p ps)
  have t: "kept s (tick (tick s))" "kept s (tick (tick (tick s)))" for s
    using kept.R_trans kept_tick(1) by blast+
  show ?case
    using Cons assms
    by (auto simp: Let_def intro: kept.runO_trans [OF t(1)] kept.runO_trans [OF t(2)] kept.runO_trans [OF t(2) kept.runO_bind])
qed simp

lemma recursive_kept: "kept.runO st (monitorUnmonitorRecursive n env path unmon adir isStart st)"
proof (induction n arbitrary: path unmon adir isStart st)
  case (Suc n)
  have t: "kept s (tick (tick s))" for s using kept.R_trans kept_tick(1) by blast
  have e: "kept.runO s (each_entry env adir (\<lambda>p. monitorUnmonitorRecursive n env p u adir False) ps s)" for ps s u
    by (rule each_entry_kept) (rule Suc)
  show ?case
    unfolding monitorUnmonitorRecursive.simps
  proof (rule kept.runO_bind, goal_cases)
    case 1
    show ?case by (auto simp: monitor_kept intro!: kept.runE_bind unmonitorDirectory_kept)
  next
    case (2 result s)
    show ?case
      by (auto simp: Let_def t split: option.splits intro!: kept.runO_trans [OF t kept.runO_bind [OF e]])
  qed
qed simp

lemma doMove_kept: "kept.runO st (doMove n env h st)"
  unfolding doMove_def by (auto intro!: kept.runO_bind checkMoveWatches_kept recheck_all_kept)

lemma doDirectory_kept: "kept.runO st (doDirectory n env h st)"
  unfolding doDirectory_def
  by (auto simp: Let_def intro!: kept.runO_bind recheck_all_kept intro: kept.runO_trans [OF kept_tick(1) recursive_kept])

lemma doExistingEntry_kept: "kept.runO st (doExistingEntry n env a imp isDir h st)"
proof -
  have "kept.runO st (bindO (monitorNonexisting n env p b st) (\<lambda>(_, st). Some (Inr ((), act (Persistent_removed a) st))))" for p b
    by (auto intro!: kept.runO_bind recheck_kept)
  then have start: "kept.runO st (case watches st (h_wd h) of None \<Rightarrow> Some (Inl (Undefined_behaviour, st))
    | Some dw \<Rightarrow> (case getStartPoint dw of
         Some (WatchAutoscan b s d nonex) \<Rightarrow>
           if persistentFlag (adirs env a) then
             bindO (monitorNonexisting n env (h_path h) b st) (\<lambda>(_, st). Some (Inr ((), act (Persistent_removed a) st)))
           else Some (Inr ((), st))
       | _ \<Rightarrow> Some (Inr ((), st))))"
    by (simp split: option.splits watch.splits)
  show ?thesis
  proof (cases "\<not> AUTOSCAN_IS_NEW (h_mask h) \<or> (AUTOSCAN_IS_MOVED (h_mask h) \<and> \<not> isDir)")
    case True
    show ?thesis
      unfolding doExistingEntry_def Let_def if_P [OF True]
    proof (rule kept.runO_bind, goal_cases)
      case 1
      show ?case using start by simp
    qed (auto split: option.splits)
  next
    case False
    show ?thesis unfolding doExistingEntry_def Let_def if_not_P [OF False] by simp
  qed
qed

lemma kept_setPath:
  "kept st (st\<lparr>watches := (watches st)(wd := map_option (dw_path_update (\<lambda>_. p)) (watches st wd))\<rparr>)"
  by (auto simp: kept_def table_ok_def entry_kept_def)

lemma doNewEntry_kept: "kept.runO st (doNewEntry n env a isDir h st)"
proof -
  have "kept st (act x (tick st))" for x by simp
  note t = kept.runO_trans [OF this kept.runO_bind [OF recursive_kept]]
  show ?thesis
    unfolding doNewEntry_def Let_def
    by (auto intro!: t split: option.splits) (simp add: kept_setPath)
qed

lemma doIgnored_skip: "\<not> AUTOSCAN_IS_IGNORED (h_mask h) \<Longrightarrow> doIgnored n h st = Some (Inr ((), st))"
  by (simp add: doIgnored_def)

text \<open>\<open>doExistingEntry\<close> and the others keep the mask of the handler.\<close>

lemma handler_mask:
  "h_mask (getPath dw h) = h_mask h"
  "getAutoscanDirectory env dw h st = ((isDir, h'), st') \<Longrightarrow> h_mask h' = h_mask h \<and> kept st st'"
  "doExistingEntry n env a imp isDir h st = Some (Inr ((wd, isDir', h'), st')) \<Longrightarrow> h_mask h' = h_mask h"
proof -
  show "h_mask (getPath dw h) = h_mask h" by (simp add: getPath_def)
  show "getAutoscanDirectory env dw h st = ((isDir, h'), st') \<Longrightarrow> h_mask h' = h_mask h \<and> kept st st'"
    by (auto simp: getAutoscanDirectory_def Let_def intro: kept_frame split: option.splits)
  show "doExistingEntry n env a imp isDir h st = Some (Inr ((wd, isDir', h'), st')) \<Longrightarrow> h_mask h' = h_mask h"
    by (auto simp: doExistingEntry_def Let_def bindO_Inr_iff split: if_splits option.splits)
qed

lemma handle_event_kept:
  assumes "watched_events env = autoscan_events attrib"
  shows "kept.runO st (handle_event n env ev st)"
proof -
  let ?m = "ev_mask ev AND watched_events env"
  have never: "\<not> AUTOSCAN_IS_IGNORED ?m" using events_masked(1) assms by simp
  show ?thesis
  proof (cases "?m = 0 \<or> watches st (ev_wd ev) = None")
    case True
    then show ?thesis by (cases "?m = 0") (simp_all add: handle_event_def Let_def)
  next
    case False
    then obtain dw where dw: "watches st (ev_wd ev) = Some dw" by auto
    obtain isDir h st0 where g: "getAutoscanDirectory env dw (getPath dw (new_handler ev ?m)) st = ((isDir, h), st0)"
      by (metis surj_pair)
    have h: "h_mask h = ?m" "kept st st0"
      using handler_mask(2) [OF g] by (simp_all add: handler_mask(1) new_handler_def)
    have old: "kept.runO t (bindO (doExistingEntry n env a imp isDir h t) (\<lambda>((wd, isDir, h), st).
        bindO (doNewEntry n env a isDir h (if wd > INOTIFY_ROOT then act (Remove_watch wd) st else st)) (\<lambda>(_, st).
          Some (Inr ((isDir, h), st)))))" for t a imp
      by (auto intro!: kept.runO_bind doExistingEntry_kept doNewEntry_kept
          intro: kept.runO_trans [OF kept_tick(2) doNewEntry_kept])
    have mid: "kept.runO t (case h_adir h of
         Some a \<Rightarrow> bindO (doExistingEntry n env a (layoutMode (adirs env a)) isDir h t) (\<lambda>((wd, isDir, h), st).
           bindO (doNewEntry n env a isDir h (if wd > INOTIFY_ROOT then act (Remove_watch wd) st else st)) (\<lambda>(_, st).
             Some (Inr ((isDir, h), st))))
       | None \<Rightarrow> Some (Inr ((isDir, h), t)))" for t
      using old by (simp split: option.splits)
    have mask: "h_mask h2 = ?m" if "(case h_adir h of
         Some a \<Rightarrow> bindO (doExistingEntry n env a (layoutMode (adirs env a)) isDir h t) (\<lambda>((wd, isDir, h), st).
           bindO (doNewEntry n env a isDir h (if wd > INOTIFY_ROOT then act (Remove_watch wd) st else st)) (\<lambda>(_, st).
             Some (Inr ((isDir, h), st))))
       | None \<Rightarrow> Some (Inr ((isDir, h), t))) = Some (Inr ((d2, h2), t2))" for t d2 h2 t2
      using that handler_mask(3) h(1) by (fastforce simp: bindO_Inr_iff split: option.splits)
    show ?thesis
      using False unfolding handle_event_def Let_def dw option.case g prod.case
      by (auto intro!: kept.runO_trans [OF h(2)] kept.runO_bind doMove_kept mid doDirectory_kept
          simp: doIgnored_skip never dest!: mask)
  qed
qed

section \<open>Rounds of the thread\<close>

lemma drain_unmonitor_kept: "kept.runO st (drain_unmonitor n env st)"
proof (induction n arbitrary: st)
  case (Suc n)
  have q: "kept st (st\<lparr>unmonitorQueue := q\<rparr>)" for q by (simp add: kept_frame)
  note t = kept.runO_trans [OF q]
  show ?case
    by (auto simp: Let_def split: list.splits option.splits intro: t Suc
        intro!: t [OF kept.runO_bind [OF recursive_kept]] t [OF kept.runO_bind [where m = "Some _"]] unmonitorDirectory_kept)
qed simp

lemma drain_monitor_kept: "kept.runO st (drain_monitor n env st)"
proof (induction n arbitrary: st)
  case (Suc n)
  show ?case
  proof (cases "monitorQueue st")
    case (Cons adir q)
    let ?s = "st\<lparr>monitorQueue := q\<rparr>"
    have k: "kept st ?s" "kept st (tick ?s)" by (simp_all add: kept_frame)
    have s: "kept.runO s (drain_monitor n env (act x s))" for s x by (rule kept.runO_trans [OF _ Suc]) simp
    show ?thesis
      using Cons k
      by (auto simp: Let_def split: option.splits intro: kept.runO_trans [OF _ Suc]
          intro!: kept.runO_trans [OF k(2) kept.runO_bind [OF kept.runO_bind [OF recursive_kept]]]
            kept.runO_trans [OF k(2) kept.runO_bind [OF kept.runO_bind [OF monitor_kept]]] s)
  qed simp
qed simp

lemma thread_round_kept:
  assumes "watched_events env = autoscan_events attrib" "thread_round n env ev st = Some (Inr ((), st'))"
  shows "kept st st'"
proof -
  have "kept.runO st (bindO (drain_unmonitor n env st) (\<lambda>(_, st). bindO (drain_monitor n env st) (\<lambda>(_, st).
      case ev of None \<Rightarrow> Some (Inr ((), st)) | Some e \<Rightarrow> handle_event n env e st)))"
    by (auto intro!: kept.runO_bind drain_unmonitor_kept drain_monitor_kept handle_event_kept [OF assms(1)] split: option.splits)
  with assms(2) show ?thesis
    unfolding thread_round_def by (auto split: option.splits sum.splits watch_error.splits prod.splits)
qed

text \<open>The states the thread reaches: its rounds, in any environment, and the requests of other threads.\<close>

inductive thread_steps :: "bool \<Rightarrow> watch_state \<Rightarrow> watch_state \<Rightarrow> bool" for attrib s where
  start: "thread_steps attrib s s"
| round: "thread_steps attrib s t \<Longrightarrow> watched_events env = autoscan_events attrib \<Longrightarrow>
    thread_round n env ev t = Some (Inr ((), u)) \<Longrightarrow> thread_steps attrib s u"
| request: "thread_steps attrib s t \<Longrightarrow> thread_steps attrib s (monitor a t)"
| unrequest: "thread_steps attrib s t \<Longrightarrow> thread_steps attrib s (unmonitor a t)"

lemma thread_steps_kept: "thread_steps attrib s t \<Longrightarrow> kept s t"
proof (induction rule: thread_steps.induct)
  case (round t env n ev u)
  then show ?case using thread_round_kept kept.R_trans by blast
next
  case (request t a)
  have "kept t (monitor a t)" by (simp add: kept_frame monitor_def)
  with request show ?case using kept.R_trans by blast
next
  case (unrequest t a)
  have "kept t (unmonitor a t)" by (simp add: kept_frame unmonitor_def)
  with unrequest show ?case using kept.R_trans by blast
qed simp

text \<open>C10: Whatever the kernel, the file system, the database and other threads do, the table of watched directories
  stays in order over all rounds of the thread: each entry is under its own descriptor and has a watch. No entry
  is ever dropped, because the event that would drop it, \<open>IN_IGNORED\<close>, is masked off before it is handled.\<close>

theorem watch_table_invariant:
  assumes "thread_steps attrib s t" "table_ok s"
  shows "table_ok t \<and> (\<forall>wd. watches s wd \<noteq> None \<longrightarrow> watches t wd \<noteq> None)"
  using thread_steps_kept [OF assms(1)] assms(2) unfolding kept_def by (metis not_None_eq)

end
