(* ===== verification/Inotify_Props.thy ===== *)
theory Inotify_Props
  imports Inotify_Table
begin

text \<open>
  What the watches do: a start point is watched together with every directory above it; the look for a missing
  directory ends when directories can be watched, and does not when one cannot be read; the handling of a moved
  directory above a start point has no defined behaviour.
\<close>

unbundle bit_operations_syntax

section \<open>Paths\<close>

lemma abs_path_snoc: "abs_path (ns @ [n]) = (if ns = [] then '''' else abs_path ns) @ CHR ''/'' # n"
  by (simp add: abs_path_def)

lemma abs_path_last: "\<forall>n \<in> set ns. file_name n \<Longrightarrow> ns \<noteq> [] \<Longrightarrow> abs_path ns \<noteq> [] \<and> last (abs_path ns) \<noteq> CHR ''/''"
  using last_abs_path [of ns] by (cases ns) (auto simp: abs_path_def)

lemma rtrim_abs_path: "\<forall>n \<in> set ns. file_name n \<Longrightarrow> ns \<noteq> [] \<Longrightarrow> rtrim_slashes (abs_path ns @ ''/'') = abs_path ns"
proof -
  assume "\<forall>n \<in> set ns. file_name n" "ns \<noteq> []"
  then have "abs_path ns \<noteq> []" "last (abs_path ns) \<noteq> CHR ''/''" using abs_path_last by blast+
  then show ?thesis by (cases "abs_path ns" rule: rev_cases) (simp_all add: rtrim_slashes_def)
qed

lemma parent_abs_path:
  assumes "\<forall>m \<in> set (ns @ [n]). file_name m"
  shows "parent_path (abs_path (ns @ [n])) = abs_path ns"
proof -
  let ?p = "abs_path (ns @ [n])" and ?pre = "if ns = [] then '''' else abs_path ns"
  have n: "n \<noteq> []" "CHR ''/'' \<notin> set n" using assms by (auto simp: file_name_def)
  have p: "?p = ?pre @ CHR ''/'' # n" by (rule abs_path_snoc)
  have all: "\<not> list_all (\<lambda>c. c = CHR ''/'') ?p"
    using n unfolding p by (cases n) (auto simp: list_all_iff)
  have "dropWhile (\<lambda>c. c \<noteq> CHR ''/'') (rev n @ CHR ''/'' # rev ?pre) = CHR ''/'' # rev ?pre"
    using n(2) by (subst dropWhile_append2) auto
  then have dir: "rev (dropWhile (\<lambda>c. c \<noteq> CHR ''/'') (rev ?p)) = ?pre @ ''/''" unfolding p by simp
  show ?thesis
  proof (cases "ns = []")
    case True
    then show ?thesis
      using all dir by (simp add: parent_path_def rtrim_slashes_def) (simp add: abs_path_def)
  next
    case False
    have ns: "\<forall>m \<in> set ns. file_name m" using assms by simp
    show ?thesis
      using all dir False rtrim_abs_path [OF ns False] abs_path_last [OF ns False] by (simp add: parent_path_def Let_def)
  qed
qed

lemma append_abs_path: "\<forall>m \<in> set (ns @ [n]). file_name m \<Longrightarrow> path_append (abs_path ns) n = abs_path (ns @ [n])"
  using abs_path_last [of ns]
  by (cases "ns = []"; cases n) (auto simp: path_append_def abs_path_snoc file_name_def, simp_all add: abs_path_def)

section \<open>A start point and the directories above it\<close>

definition stable_kernel :: "watch_env \<Rightarrow> (string \<Rightarrow> nat) \<Rightarrow> bool" where
  "stable_kernel env f \<longleftrightarrow> (\<forall>t p. kernel_add env t p = K_wd (f p))"

lemma addWatch_stable: "stable_kernel env f \<Longrightarrow> inotify_addWatch env p r st = Inr (int (f p), tick st)"
  by (subst inotify_addWatch.simps) (simp add: stable_kernel_def)

lemma addMoveWatch_stable:
  assumes "stable_kernel env f"
  shows "\<exists>st' dw. addMoveWatch env p wd parentWd r st = Inr (int (f p), st') \<and>
           watches st' = (watches st)(int (f p) \<mapsto> dw) \<and> dw_parentWd dw = parentWd \<and> WatchMove wd \<in> set (wdWatches dw)"
  by (auto simp: addMoveWatch_def addWatch_stable [OF assms] INOTIFY_ROOT_def Let_def put_watch_def push_watch_def
      new_watch_def split: option.splits)

text \<open>The directories from the root down to the path have descriptors of their own.\<close>

definition distinct_above :: "(string \<Rightarrow> nat) \<Rightarrow> string list \<Rightarrow> bool" where
  "distinct_above f names \<longleftrightarrow> inj_on (\<lambda>k. f (abs_path (take k names))) {..length names}"

lemma distinct_aboveD:
  "distinct_above f names \<Longrightarrow> j < k \<Longrightarrow> k \<le> length names \<Longrightarrow> f (abs_path (take j names)) \<noteq> f (abs_path (take k names))"
  unfolding distinct_above_def inj_on_def by fastforce

text \<open>The chain of move watches from the root down the first \<open>k\<close> names.\<close>

definition move_chain :: "(string \<Rightarrow> nat) \<Rightarrow> string list \<Rightarrow> nat \<Rightarrow> int \<Rightarrow> watch_state \<Rightarrow> bool" where
  "move_chain f names k wd st \<longleftrightarrow>
     (\<forall>j < k. \<exists>dw. watches st (int (f (abs_path (take j names)))) = Some dw \<and> WatchMove wd \<in> set (wdWatches dw) \<and>
        dw_parentWd dw = (if j = 0 then INOTIFY_ROOT else int (f (abs_path (take (j - 1) names)))))"

lemma take_names: "\<forall>n \<in> set names. file_name n \<Longrightarrow> \<forall>n \<in> set (take k names). file_name n"
  by (meson in_set_takeD)

lemma move_chain_put:
  assumes "move_chain f names k wd st" "distinct_above f names" "\<forall>n \<in> set names. file_name n" "k \<le> length names"
    and "watches st' = (watches st)(int (f (abs_path (take k names))) \<mapsto> dw)"
    and "WatchMove wd \<in> set (wdWatches dw)"
    and "dw_parentWd dw = (if k = 0 then INOTIFY_ROOT else int (f (abs_path (take (k - 1) names))))"
  shows "move_chain f names (Suc k) wd st'"
  unfolding move_chain_def
proof (intro allI impI)
  fix j assume "j < Suc k"
  show "\<exists>dw. watches st' (int (f (abs_path (take j names)))) = Some dw \<and> WatchMove wd \<in> set (wdWatches dw) \<and>
        dw_parentWd dw = (if j = 0 then INOTIFY_ROOT else int (f (abs_path (take (j - 1) names))))"
  proof (cases "j = k")
    case False
    with \<open>j < Suc k\<close> have j: "j < k" by simp
    then have "int (f (abs_path (take j names))) \<noteq> int (f (abs_path (take k names)))"
      using distinct_aboveD [OF assms(2) j assms(4)] by simp
    with assms(1,5) j show ?thesis by (simp add: move_chain_def)
  qed (use assms(5-7) in simp)
qed

lemma move_loop_chain:
  assumes "stable_kernel env f" "distinct_above f names" "\<forall>n \<in> set names. file_name n"
  shows "0 < k \<Longrightarrow> k + length its = length names \<Longrightarrow> its = drop (k - 1) (butlast names) \<Longrightarrow> move_chain f names k wd st \<Longrightarrow>
    parentWd = int (f (abs_path (take (k - 1) names))) \<Longrightarrow>
    \<exists>st'. move_loop env wd r its (abs_path (take (k - 1) names)) parentWd st =
            Inr (int (f (abs_path (butlast names))), st') \<and> move_chain f names (length names) wd st'"
proof (induction its arbitrary: k st parentWd)
  case Nil
  then have "take (k - 1) names = butlast names" by (simp add: butlast_conv_take)
  with Nil show ?case by simp
next
  case (Cons it its)
  have k: "k < length names" using Cons.prems(2) by simp
  then have it: "it = names ! (k - 1)" "its = drop k (butlast names)"
    using Cons.prems(1,3) drop_nth_Cons [of "k - 1" "butlast names"] by (auto simp: nth_butlast)
  have tk: "take k names = take (k - 1) names @ [it]"
    using Cons.prems(1) k it(1) take_Suc_snoc [of "k - 1" names] by simp
  have app: "path_append (abs_path (take (k - 1) names)) it = abs_path (take k names)"
    unfolding tk by (rule append_abs_path) (metis take_names [OF assms(3)] tk)
  obtain st1 dw where m: "addMoveWatch env (abs_path (take k names)) wd parentWd r st =
      Inr (int (f (abs_path (take k names))), st1)"
    and s: "watches st1 = (watches st)(int (f (abs_path (take k names))) \<mapsto> dw)" "dw_parentWd dw = parentWd"
      "WatchMove wd \<in> set (wdWatches dw)"
    using addMoveWatch_stable [OF assms(1)] by blast
  have "move_chain f names (Suc k) wd st1"
    by (rule move_chain_put [OF Cons.prems(4) assms(2,3) _ s(1,3)]) (use k s(2) Cons.prems(1,5) in auto)
  then show ?case
    using Cons.IH [of "Suc k" st1] Cons.prems(2) it(2) m app by simp
qed

lemma watchPathForMoves_chain:
  assumes "stable_kernel env f" "distinct_above f names" "\<forall>n \<in> set names. file_name n" "names \<noteq> []"
  shows "\<exists>st'. watchPathForMoves env (abs_path names) wd r st = Inr (int (f (abs_path (butlast names))), st') \<and>
    move_chain f names (length names) wd st'"
proof -
  have b: "\<forall>n \<in> set (butlast names). file_name n" using assms(3) by (meson in_set_butlastD)
  have "parent_path (abs_path names) = abs_path (butlast names)"
    using parent_abs_path [of "butlast names" "last names"] assms(3,4) by simp
  then have c: "path_components (parent_path (abs_path names)) = ''/'' # butlast names"
    using components_abs_path [OF b] by simp
  have root: "path_append [] ''/'' = abs_path (take 0 names)" by (simp add: path_append_def abs_path_def)
  obtain st1 dw where m: "addMoveWatch env (abs_path (take 0 names)) wd INOTIFY_ROOT r st =
      Inr (int (f (abs_path (take 0 names))), st1)"
    and s: "watches st1 = (watches st)(int (f (abs_path (take 0 names))) \<mapsto> dw)" "dw_parentWd dw = INOTIFY_ROOT"
      "WatchMove wd \<in> set (wdWatches dw)"
    using addMoveWatch_stable [OF assms(1)] by blast
  have "move_chain f names 0 wd st" by (simp add: move_chain_def)
  then have "move_chain f names (Suc 0) wd st1"
    by (rule move_chain_put [OF _ assms(2,3) _ s(1,3)]) (use s(2) in simp_all)
  moreover have "Suc 0 + length (butlast names) = length names" using assms(4) by simp
  ultimately show ?thesis
    using move_loop_chain [OF assms(1-3), of "Suc 0" "butlast names" wd st1 _ r] m
    unfolding watchPathForMoves_def c move_loop.simps root by simp
qed

lemma addMoveWatch_other: 
  "stable_kernel env f \<Longrightarrow> addMoveWatch env p wd parentWd r st = Inr (w, st') \<Longrightarrow> v \<noteq> int (f p) \<Longrightarrow> watches st' v = watches st v"
  by (auto simp: addMoveWatch_def addWatch_stable INOTIFY_ROOT_def Let_def put_watch_def)

lemma move_loop_other:
  assumes "stable_kernel env f"
  shows "move_loop env wd r its p parentWd st = Inr (w, st') \<Longrightarrow>
    v \<notin> (\<lambda>k. int (f (foldl path_append p (take (Suc k) its)))) ` {..< length its} \<Longrightarrow> watches st' v = watches st v"
proof (induction its arbitrary: p parentWd st)
  case (Cons it its)
  obtain w1 st1 where s: "addMoveWatch env (path_append p it) wd parentWd r st = Inr (w1, st1)"
    "move_loop env wd r its (path_append p it) w1 st1 = Inr (w, st')"
    using Cons.prems(1) by (auto simp: bindE_Inr_iff)
  have "v \<noteq> int (f (path_append p it))" using Cons.prems(2) by (auto simp: image_iff lessThan_Suc_eq_insert_0)
  moreover have "v \<notin> (\<lambda>k. int (f (foldl path_append (path_append p it) (take (Suc k) its)))) ` {..< length its}"
    using Cons.prems(2) by (auto simp: image_iff lessThan_Suc_eq_insert_0)
  ultimately show ?case using Cons.IH [OF s(2)] addMoveWatch_other [OF assms s(1)] by simp
qed simp

lemma foldl_append_abs:
  "\<forall>m \<in> set (ns @ its). file_name m \<Longrightarrow> foldl path_append (abs_path ns) its = abs_path (ns @ its)"
proof (induction its arbitrary: ns)
  case (Cons it its)
  then have "path_append (abs_path ns) it = abs_path (ns @ [it])" by (intro append_abs_path) auto
  with Cons.IH [of "ns @ [it]"] Cons.prems show ?case by simp
qed simp

lemma watchPathForMoves_other:
  assumes "stable_kernel env f" "distinct_above f names" "\<forall>n \<in> set names. file_name n" "names \<noteq> []"
    and "watchPathForMoves env (abs_path names) wd r st = Inr (w, st')"
  shows "watches st' (int (f (abs_path names))) = watches st (int (f (abs_path names)))"
proof -
  have b: "\<forall>n \<in> set (butlast names). file_name n" using assms(3) by (meson in_set_butlastD)
  have "parent_path (abs_path names) = abs_path (butlast names)"
    using parent_abs_path [of "butlast names" "last names"] assms(3,4) by simp
  then have c: "path_components (parent_path (abs_path names)) = ''/'' # butlast names"
    using components_abs_path [OF b] by simp
  have root: "path_append [] ''/'' = abs_path []" by (simp add: path_append_def abs_path_def)
  have l: "move_loop env wd r (''/'' # butlast names) [] INOTIFY_ROOT st = Inr (w, st')"
    using assms(5) unfolding watchPathForMoves_def c .
  have "foldl path_append [] (take (Suc k) (''/'' # butlast names)) = abs_path (take k (butlast names))" for k
    using foldl_append_abs [of "[]" "take k (butlast names)"] take_names [OF b] root by simp
  moreover have "f (abs_path (take k (butlast names))) \<noteq> f (abs_path names)" for k
  proof -
    have "take k (butlast names) = take (min k (length names - 1)) names" by (simp add: butlast_conv_take)
    moreover have "min k (length names - 1) < length names" using assms(4) by (cases names) simp_all
    ultimately show ?thesis using distinct_aboveD [OF assms(2), of "min k (length names - 1)" "length names"] by simp
  qed
  ultimately have "int (f (abs_path names)) \<notin>
      (\<lambda>k. int (f (foldl path_append [] (take (Suc k) (''/'' # butlast names))))) ` {..< length (''/'' # butlast names)}"
    by (auto simp del: take_Suc_Cons foldl_Cons simp: image_iff) metis
  from move_loop_other [OF assms(1) l this] show ?thesis .
qed

text \<open>C11: When the kernel gives every path a descriptor of its own, setting a start point succeeds and the table
  then has it under its descriptor, with the descriptor of its parent, and has a move watch for it on every
  directory from the root down, each linked to the one above.\<close>

theorem start_point_chain:
  assumes "stable_kernel env f" "distinct_above f names" "\<forall>n \<in> set names. file_name n" "names \<noteq> []"
    and "watches st (int (f (abs_path names))) = None"
  shows "\<exists>st' dw. monitorDirectory (Suc n) env (abs_path names) (Some a) True False [] st =
             Some (Inr (int (f (abs_path names)), st')) \<and>
           watches st' (int (f (abs_path names))) = Some dw \<and>
           dw_path dw = abs_path names \<and> dw_parentWd dw = int (f (abs_path (butlast names))) \<and>
           wdWatches dw = [WatchAutoscan a True [] []] \<and>
           move_chain f names (length names) (int (f (abs_path names))) st'"
proof -
  let ?p = "abs_path names" and ?wd = "int (f (abs_path names))" and ?pw = "int (f (abs_path (butlast names)))"
  obtain s where s: "watchPathForMoves env ?p ?wd (retries env a) (tick st) = Inr (?pw, s)"
    "move_chain f names (length names) ?wd s"
    using watchPathForMoves_chain [OF assms(1-4)] by blast
  have none: "watches s ?wd = None"
    using watchPathForMoves_other [OF assms(1-4) s(1)] assms(5) by (simp add: tick_def)
  let ?dw = "push_watch (WatchAutoscan a True [] []) (new_watch ?p ?wd ?pw)"
  have "monitorDirectory (Suc n) env ?p (Some a) True False [] st = Some (Inr (?wd, put_watch ?wd ?dw s))"
    by (simp add: addWatch_stable [OF assms(1)] INOTIFY_ROOT_def watch_found_def s(1) none Let_def)
  moreover have "move_chain f names (length names) ?wd (put_watch ?wd ?dw s)"
  proof -
    have "f (abs_path (take j names)) \<noteq> f ?p" if "j < length names" for j
      using distinct_aboveD [OF assms(2) that] by simp
    with s(2) show ?thesis by (simp add: move_chain_def put_watch_def)
  qed
  ultimately show ?thesis by (simp add: put_watch_def push_watch_def new_watch_def)
qed

section \<open>Looking for a missing directory\<close>

lemma addWatch_denied:
  assumes "\<forall>t. kernel_add env t path = K_EACCES"
  shows "\<exists>t. inotify_addWatch env path r st = Inr (- 1, st\<lparr>asked := t\<rparr>)"
proof (induction r arbitrary: st)
  case (Suc r)
  from Suc [of "tick st"] assms show ?case
    by (subst inotify_addWatch.simps) (auto simp: tick_def)
qed (subst inotify_addWatch.simps, use assms in \<open>auto simp: tick_def\<close>)

text \<open>C31: A persistent start point that is a directory without permission to read it is never given up: each
  attempt finds that the directory exists and begins the next, so the call does not return for any fuel.\<close>

theorem unreadable_start_point_diverges:
  assumes "\<forall>t. kernel_add env t path = K_EACCES" "\<forall>t. is_directory env t path"
    and "persistentFlag (adirs env a)" "\<not> same_path path ''/''"
  shows "monitorDirectory n env path (Some a) True False [] st = None"
proof (induction n arbitrary: st rule: less_induct)
  case (less n)
  show ?case
  proof (cases n)
    case (Suc m)
    obtain t where t: "inotify_addWatch env path (retries env a) st = Inr (- 1, st\<lparr>asked := t\<rparr>)"
      using addWatch_denied [OF assms(1)] by blast
    have "recheck_path m env INOTIFY_ROOT path True path a s = None" for s
      using assms(2,4) less [of "m - 1"] Suc by (cases m) (simp_all add: INOTIFY_ROOT_def)
    then show ?thesis using Suc t assms(3) by (simp add: INOTIFY_ROOT_def)
  qed simp
qed

lemma same_path_root: "\<forall>n \<in> set ns. file_name n \<Longrightarrow> same_path (abs_path ns) ''/'' \<longleftrightarrow> ns = []"
  using components_abs_path [of ns] components_abs_path [of "[]"] by (simp add: same_path_def abs_path_def)

lemma parent_take:
  assumes "\<forall>n \<in> set names. file_name n" "k < length names"
  shows "parent_path (abs_path (take (Suc k) names)) = abs_path (take k names)"
proof -
  have t: "take (Suc k) names = take k names @ [names ! k]" using assms(2) by (rule take_Suc_conv_app_nth)
  show ?thesis unfolding t by (rule parent_abs_path) (metis take_names [OF assms(1)] t)
qed

definition watchable :: "watch_env \<Rightarrow> bool" where
  "watchable env \<longleftrightarrow> (\<forall>t t' p. is_directory env t p \<longrightarrow> (\<exists>wd. kernel_add env t' p = K_wd wd))"

lemma monitor_found:
  "kernel_add env (asked st) path = K_wd wd \<Longrightarrow>
   monitorDirectory (Suc n) env path (Some a) isStart hasNon nonex st =
     Some (watch_found env path (int wd) a isStart hasNon nonex (tick st))"
  by (subst monitorDirectory.simps, subst inotify_addWatch.simps) (simp add: INOTIFY_ROOT_def)

lemma bindO_returns: "\<exists>r. m = Some r \<Longrightarrow> (\<And>a. \<exists>r. f a = Some r) \<Longrightarrow> \<exists>r. bindO m f = Some r"
  by (cases "(m, f)" rule: bindO.cases) auto

lemma recheck_returns:
  assumes "watchable env" "\<forall>n \<in> set names. file_name n"
  shows "k \<le> length names \<Longrightarrow> k < n \<Longrightarrow> \<exists>r. recheck_path n env curWd (abs_path (take k names)) isFirst nonex a st = Some r"
proof (induction k arbitrary: n isFirst st)
  case 0
  then obtain m where "n = Suc m" by (cases n) auto
  then show ?case using same_path_root [of "[]"] by simp
next
  case (Suc k)
  let ?p = "abs_path (take (Suc k) names)"
  obtain m where n: "n = Suc (Suc m)" using Suc.prems by (cases n; cases "n - 1") auto
  show ?case
  proof (cases "is_directory env (asked st) ?p")
    case True
    have mon: "\<exists>r. monitorDirectory (Suc m) env ?p (Some a) s h x t = Some r" for s h x t
      using assms(1) True monitor_found unfolding watchable_def by blast
    show ?thesis
      unfolding n recheck_path.simps if_P [OF True]
      by (auto simp del: monitorDirectory.simps split: option.splits intro!: bindO_returns mon)
  next
    case False
    have "parent_path ?p = abs_path (take k names)" using parent_take [OF assms(2)] Suc.prems(1) by simp
    moreover obtain r where "recheck_path (Suc m) env curWd (abs_path (take k names)) False nonex a (tick st) = Some r"
      using Suc.IH [of "Suc m" False "tick st"] Suc.prems n by auto
    ultimately show ?thesis using False unfolding n by (subst recheck_path.simps) auto
  qed
qed

text \<open>C17: When the directories that exist can be watched, setting a watch on an absolute path returns, with a
  descriptor, without one, or with an exception: fuel for the names of the path and two calls is enough.\<close>

theorem monitor_returns:
  assumes "watchable env" "\<forall>n \<in> set names. file_name n" "length names + 1 < n"
  shows "\<exists>r. monitorDirectory n env (abs_path names) (Some a) isStart hasNon nonex st = Some r"
proof -
  obtain m where n: "n = Suc m" "length names < m" using assms(3) by (cases n) auto
  have rec: "\<exists>r. recheck_path m env INOTIFY_ROOT (abs_path names) True (abs_path names) a t = Some r" for t
    using recheck_returns [OF assms(1,2), of "length names" m] n(2) by simp
  show ?thesis
    unfolding n(1) monitorDirectory.simps option.case
  proof (rule bindO_returns, goal_cases)
    case (2 wt)
    show ?case by (cases wt) (auto intro!: bindO_returns rec)
  qed simp
qed

lemma addDescendant_other: "startPointWd \<noteq> v \<Longrightarrow> watches (addDescendant env startPointWd w a st) v = watches st v"
  by (auto simp: addDescendant_def put_watch_def split: option.splits)

text \<open>A watch on a directory that stands for a missing one: it carries the missing path.\<close>

lemma watch_for_missing:
  assumes "\<And>t. kernel_add env t (loc env a) = K_ENOENT"
  shows "\<exists>st' dw. watch_found env path (int w) a False True nonex st = Inr (int w, st') \<and>
    watches st' (int w) = Some dw \<and> WatchAutoscan a False [] nonex \<in> set (wdWatches dw)"
proof -
  have l: "inotify_addWatch env (loc env a) r s = Inr (- 1, tick s)" for r s
    using assms by (subst inotify_addWatch.simps) simp
  show ?thesis
    by (auto simp: watch_found_def INOTIFY_UNKNOWN_PARENT_WD_def INOTIFY_ROOT_def Let_def l addDescendant_other put_watch_def
        push_watch_def tick_def split: option.splits)
qed

lemma missing_descent:
  assumes "\<forall>n \<in> set names. file_name n" "\<And>t p. is_directory env t p = isdir p"
    and "\<And>t p. kernel_add env t p = (if isdir p then K_wd (f p) else K_ENOENT)"
    and "\<not> isdir (loc env a)" "0 < k" "isdir (abs_path (take k names))"
    and "\<And>j. k < j \<Longrightarrow> j \<le> length names \<Longrightarrow> \<not> isdir (abs_path (take j names))"
  shows "k + d \<le> length names \<Longrightarrow> d + 1 < n \<Longrightarrow> isFirst \<longrightarrow> 0 < d \<Longrightarrow>
    \<exists>st' dw. recheck_path n env INOTIFY_ROOT (abs_path (take (k + d) names)) isFirst nonex a st = Some (Inr ((), st')) \<and>
      watches st' (int (f (abs_path (take k names)))) = Some dw \<and> WatchAutoscan a False [] nonex \<in> set (wdWatches dw)"
proof (induction d arbitrary: n isFirst st)
  case 0
  let ?p = "abs_path (take k names)"
  obtain m where n: "n = Suc (Suc m)" using "0.prems"(2) by (cases n; cases "n - 1") auto
  have np: "\<not> same_path ?p ''/''"
    using same_path_root [OF take_names [OF assms(1)]] assms(5) "0.prems"(1) by auto
  obtain st' dw where w: "watch_found env ?p (int (f ?p)) a False True nonex (tick (tick st)) = Inr (int (f ?p), st')"
    "watches st' (int (f ?p)) = Some dw" "WatchAutoscan a False [] nonex \<in> set (wdWatches dw)"
    using watch_for_missing [of env a "?p" "f ?p" nonex "tick (tick st)"] assms(3,4) by auto
  have "monitorDirectory (Suc m) env ?p (Some a) False True nonex (tick st) = Some (Inr (int (f ?p), st'))"
    using monitor_found [of env "tick st" ?p "f ?p"] w(1) assms(3,6) by simp
  then have "recheck_path n env INOTIFY_ROOT ?p False nonex a st = Some (Inr ((), st'))"
    using np assms(2,6) unfolding n by (subst recheck_path.simps) simp
  with w show ?case using "0.prems"(3) by simp
next
  case (Suc d)
  let ?p = "abs_path (take (Suc (k + d)) names)"
  obtain m where n: "n = Suc m" using Suc.prems(2) by (cases n) auto
  have np: "\<not> same_path ?p ''/''" using same_path_root [OF take_names [OF assms(1)]] Suc.prems(1) by auto
  have nd: "\<not> is_directory env (asked st) ?p" using assms(2,7) Suc.prems(1) by simp
  have par: "parent_path ?p = abs_path (take (k + d) names)" using parent_take [OF assms(1), of "k + d"] Suc.prems(1) by simp
  have "recheck_path n env INOTIFY_ROOT ?p isFirst nonex a st =
      recheck_path m env INOTIFY_ROOT (abs_path (take (k + d) names)) False nonex a (tick st)"
    unfolding n by (subst recheck_path.simps) (simp add: np nd par)
  then show ?case using Suc.IH [of m False "tick st"] Suc.prems n by simp
qed


section \<open>A directory above a start point is moved\<close>

lemma keptD: "kept st st' \<Longrightarrow> watches st wd = Some dw \<Longrightarrow> \<exists>dw'. watches st' wd = Some dw' \<and> entry_kept dw dw'"
  by (simp add: kept_def)

lemma moves_stay:
  assumes "entry_kept dw dw'" "dw_version dw' = dw_version dw" "i < length (wdWatches dw)" "is_move (wdWatches dw ! i)"
  shows "i < length (wdWatches dw') \<and> is_move (wdWatches dw' ! i)"
proof -
  have m: "map is_move (wdWatches dw') = map is_move (wdWatches dw)" using assms(1,2) by (simp add: entry_kept_def)
  then have "length (wdWatches dw') = length (wdWatches dw)" by (metis length_map)
  with m assms(3,4) show ?thesis by (metis nth_map)
qed

lemma check_moves_no_return:
  "watches st wd = Some dw \<Longrightarrow> i \<le> j \<Longrightarrow> j < length (wdWatches dw) \<Longrightarrow> is_move (wdWatches dw ! j) \<Longrightarrow>
   check_moves n env wd ver i st \<noteq> Some (Inr ((), st'))"
proof (induction n arbitrary: ver i j st dw)
  case (Suc n)
  show ?case
  proof (cases "dw_version dw \<noteq> ver \<or> \<not> is_move (wdWatches dw ! i)")
    case True
    then consider "dw_version dw \<noteq> ver" | "\<not> is_move (wdWatches dw ! i)" by blast
    then show ?thesis
    proof cases
      case 2
      then have "i \<noteq> j" using Suc.prems(4) by auto
      then show ?thesis using Suc.IH [of st dw "Suc i" j] Suc.prems 2 by simp
    qed (use Suc.prems(1) in simp)
  next
    case False
    let ?e = "erase_watch i dw"
    have i: "i < length (wdWatches dw)" using Suc.prems(2,3) by simp
    show ?thesis
    proof (cases "length (wdWatches dw) = 1")
      case True
      then show ?thesis using Suc.prems(1) False i by simp
    next
      case len: False
      let ?t = "put_watch wd ?e st"
      have next_watch: "check_moves n env wd (dw_version ?e) i u \<noteq> Some (Inr ((), st'))"
        if r: "catch_range (remove_moved n env r ?t) = Some (Inr ((), u))" and e: "i < length (wdWatches ?e)" "is_move (wdWatches ?e ! i)"
        for r u
      proof -
        have "kept.runO ?t (catch_range (remove_moved n env r ?t))" by (rule catch_range_kept [OF remove_moved_kept])
        then have "kept ?t u" using r by simp
        then obtain dw' where dw': "watches u wd = Some dw'" "entry_kept ?e dw'"
          using keptD [of ?t u wd ?e] by (auto simp: put_watch_def)
        show ?thesis
        proof (cases "dw_version dw' = dw_version ?e")
          case True
          then show ?thesis using moves_stay [OF dw'(2) True e] Suc.IH [OF dw'(1) order_refl] by blast
        next
          case False
          then show ?thesis using dw'(1) by (cases n) auto
        qed
      qed
      have body: "bindO (catch_range (remove_moved n env r ?t)) (\<lambda>(_, st). check_moves n env wd (dw_version ?e) i st) \<noteq> Some (Inr ((), st'))"
        if "i < length (wdWatches ?e)" "wdWatches ?e ! i = WatchMove r" for r
        using next_watch [of r] that by (auto simp: bindO_Inr_iff)
      show ?thesis using Suc.prems(1) False i len body by (auto simp: Let_def split: watch.splits)
    qed
  qed
qed simp

text \<open>C21: The event that says that a watched directory was moved is never handled to its end when one of its
  watches is a move watch, as is the case for every directory above a start point: after it has dropped that
  watch, the loop reads the next one as if it were a move watch too, up to one that is not there.\<close>

theorem moved_parent_undefined:
  assumes "watches st (ev_wd ev) = Some dw" "\<exists>w \<in> set (wdWatches dw). is_move w"
    and "AUTOSCAN_WAS_MOVED (ev_mask ev AND watched_events env)"
  shows "handle_event n env ev st \<noteq> Some (Inr ((), st'))"
proof -
  let ?m = "ev_mask ev AND watched_events env"
  have m: "AUTOSCAN_WAS_MOVED ?m" "?m \<noteq> 0" using assms(3) by (auto simp: AUTOSCAN_WAS_MOVED_def)
  obtain isDir h st0 where g: "getAutoscanDirectory env dw (getPath dw (new_handler ev ?m)) st = ((isDir, h), st0)"
    by (metis surj_pair)
  have h: "h_mask h = ?m" "h_wd h = ev_wd ev" "watches st0 = watches st"
    using g by (auto simp: getAutoscanDirectory_def getPath_def new_handler_def Let_def tick_def split: option.splits)
  obtain j where j: "j < length (wdWatches dw)" "is_move (wdWatches dw ! j)" using assms(2) by (auto simp: in_set_conv_nth)
  have "checkMoveWatches n env (h_wd h) st0 \<noteq> Some (Inr ((), u))" for u
    using check_moves_no_return [of st0 "ev_wd ev" dw 0 j n env] assms(1) h j by (simp add: checkMoveWatches_def)
  then have "doMove n env h st0 \<noteq> Some (Inr (u, v))" for u v
    using m h(1) by (auto simp: doMove_def bindO_Inr_iff)
  then show ?thesis
    unfolding handle_event_def Let_def assms(1) option.case g prod.case using m(2) by (auto simp: bindO_Inr_iff)
qed

section \<open>Removing move watches\<close>

text \<open>The inner loop of \<open>removeWatchMoves\<close> stands still on a watch that is not a move watch.\<close>

lemma remove_moves_stuck:
  "watches st checkWd = Some dw \<Longrightarrow> i < length (wdWatches dw) \<Longrightarrow> \<not> is_move (wdWatches dw ! i) \<Longrightarrow>
   remove_moves_of n wd checkWd i st = None"
proof (induction n)
  case (Suc n)
  then show ?case by (cases "wdWatches dw ! i") auto
qed simp

section \<open>Concrete trees\<close>

definition demo_adir :: AutoscanDirectory where
  "demo_adir = (default_directory 0)\<lparr>ad_location := ''/m/a'', persistentFlag := True, retryCount := 2\<rparr>"

definition demo_wd :: "string \<Rightarrow> nat" where
  "demo_wd p = (if p = ''/'' then 1 else if p = ''/m'' then 2 else if p = ''/m/a'' then 3 else 4)"

definition demo_env :: "(string \<Rightarrow> kernel_answer) \<Rightarrow> (string \<Rightarrow> bool) \<Rightarrow> watch_env" where
  "demo_env k d =
     \<lparr>kernel_add = (\<lambda>t. k), is_directory = (\<lambda>t. d), is_regular = (\<lambda>t p. False), is_symlink = (\<lambda>t p. False),
      entry_error = (\<lambda>t p. False), list_directory = (\<lambda>t p. Some []), skip_hidden = (\<lambda>t a p. False),
      merged_recursive = (\<lambda>a p. True), find_object = (\<lambda>t p. None), shutting_down = (\<lambda>t. False),
      adirs = (\<lambda>a. demo_adir), watched_events = autoscan_events False\<rparr>"

definition empty_watches :: watch_state where
  "empty_watches = \<lparr>watches = (\<lambda>wd. None), asked = 0, acts = [], monitorQueue = [], unmonitorQueue = []\<rparr>"

lemma demo_names: "abs_path [''m'', ''a''] = ''/m/a''" "\<forall>n \<in> set [''m'', ''a'']. file_name n"
  by (simp_all add: abs_path_def file_name_def)

lemma demo_distinct: "distinct_above demo_wd [''m'', ''a'']"
proof -
  have "{..2 :: nat} = {0, 1, 2}" by auto
  then show ?thesis by (simp add: distinct_above_def inj_on_def demo_wd_def abs_path_def eval_nat_numeral)
qed

lemma start_point_chain_witness:
  "\<exists>st' dw. monitorDirectory 1 (demo_env (\<lambda>p. K_wd (demo_wd p)) (\<lambda>p. True)) ''/m/a'' (Some 0) True False [] empty_watches =
       Some (Inr (3, st')) \<and> watches st' 3 = Some dw \<and> dw_parentWd dw = 2 \<and> wdWatches dw = [WatchAutoscan 0 True [] []] \<and>
     move_chain demo_wd [''m'', ''a''] 2 3 st'"
proof -
  have "stable_kernel (demo_env (\<lambda>p. K_wd (demo_wd p)) (\<lambda>p. True)) demo_wd" by (simp add: stable_kernel_def demo_env_def)
  moreover have "watches empty_watches (int (demo_wd (abs_path [''m'', ''a'']))) = None" by (simp add: empty_watches_def)
  moreover have "int (demo_wd ''/m/a'') = 3" "int (demo_wd (abs_path (butlast [''m'', ''a'']))) = 2"
    by (simp_all add: demo_wd_def abs_path_def)
  ultimately show ?thesis
    using start_point_chain [of "demo_env (\<lambda>p. K_wd (demo_wd p)) (\<lambda>p. True)" demo_wd "[''m'', ''a'']" empty_watches 0 0,
        OF _ demo_distinct demo_names(2)]
    unfolding demo_names(1) by (metis One_nat_def length_Cons list.distinct(1) list.size(3) numeral_2_eq_2)
qed

lemma unreadable_start_point_diverges_witness:
  "\<forall>n. monitorDirectory n (demo_env (\<lambda>p. K_EACCES) (\<lambda>p. True)) ''/m/a'' (Some 0) True False [] empty_watches = None"
proof
  fix n
  show "monitorDirectory n (demo_env (\<lambda>p. K_EACCES) (\<lambda>p. True)) ''/m/a'' (Some 0) True False [] empty_watches = None"
    by (rule unreadable_start_point_diverges)
       (use same_path_root [OF demo_names(2)] demo_names(1) in \<open>simp_all add: demo_env_def demo_adir_def\<close>)
qed

lemma monitor_returns_witness:
  "\<exists>r. monitorDirectory 4 (demo_env (\<lambda>p. if p = ''/m'' then K_wd 2 else K_EACCES) (\<lambda>p. p = ''/m'')) ''/m/a'' (Some 0)
     True False [] empty_watches = Some r"
  using monitor_returns [of "demo_env (\<lambda>p. if p = ''/m'' then K_wd 2 else K_EACCES) (\<lambda>p. p = ''/m'')" "[''m'', ''a'']" 4
      0 True False "[]" empty_watches]
  by (simp add: demo_names(1) watchable_def demo_env_def file_name_def)


lemma moved_parent_undefined_witness:
  "\<forall>n st'. handle_event n (demo_env (\<lambda>p. K_wd (demo_wd p)) (\<lambda>p. True)) \<lparr>ev_wd = 2, ev_mask = IN_MOVE_SELF, ev_name = []\<rparr>
     (put_watch 2 (push_watch (WatchMove 3) (new_watch ''/m'' 2 1)) empty_watches) \<noteq> Some (Inr ((), st'))"
  by (intro allI, rule moved_parent_undefined [where dw = "push_watch (WatchMove 3) (new_watch ''/m'' 2 1)"])
     (simp_all add: put_watch_def new_watch_def push_watch_def demo_env_def AUTOSCAN_WAS_MOVED_def autoscan_events_def
       manager_events_def in_defs)

lemma watch_table_invariant_witness:
  "\<exists>t. thread_steps False empty_watches t \<and> table_ok t \<and> watches t 3 \<noteq> None"
proof -
  let ?env = "demo_env (\<lambda>p. K_wd (demo_wd p)) (\<lambda>p. True)"
  let ?s = "monitor (Some 0) empty_watches"
  have "(case thread_round 5 ?env None ?s of Some (Inr (u, st')) \<Rightarrow> watches st' 3 \<noteq> None | _ \<Rightarrow> False)"
    by code_simp
  then have "\<exists>st'. thread_round 5 ?env None ?s = Some (Inr ((), st')) \<and> watches st' 3 \<noteq> None"
    by (simp split: option.splits sum.splits prod.splits)
  then obtain t where t: "thread_round 5 ?env None ?s = Some (Inr ((), t))" "watches t 3 \<noteq> None" by blast
  have "thread_steps False empty_watches t"
    by (rule thread_steps.round [OF thread_steps.request [OF thread_steps.start] _ t(1)]) (simp add: demo_env_def)
  then show ?thesis using watch_table_invariant [of False empty_watches t] t(2) by (auto simp: table_ok_def empty_watches_def)
qed

end
