(* ===== verification/Spec2Isabelle.thy ===== *)
theory Spec2Isabelle
  imports Tools Tools_Text Search_SQL Search_Injection IO_Threads IO_Seek IO_Curl
    Update_Manager Timer URL_Paths CDS_Props Web_Safety
    Autoscan Grb_Fs Autoscan_Scan Autoscan_Watch Content_Counts Autoscan_Edit Client_Cache
    Search_Sort Inotify_Props
begin

text \<open>
  A verification development for Gerbera, a UPnP media server in C++ (\<open>src/src/\<close>).

  The server keeps a content directory in an SQL database. Requests of players come in through the UPnP
  library: a search criterion is lexed, parsed and emitted as an SQL condition (\<open>database/\<close>); media are
  served through I/O handlers, among them a ring buffer filled by a thread of its own (\<open>iohandler/\<close>).
  Objects of the directory (\<open>cds/\<close>) carry metadata and resources, stored as encoded dictionaries
  (\<open>util/url_utils.cc\<close>). Changes of containers are collected and announced by the update manager
  (\<open>content/update_manager.cc\<close>) and, for the pages of the web interface, by the sessions (\<open>web/\<close>), which a
  timer (\<open>util/timer.cc\<close>) expires. The content manager (\<open>content/\<close>) watches directories: the same timer asks for
  their periodic scans, which are tasks in two queues that one thread works off.

  \<^bold>\<open>Theories and sources.\<close>
  \<^item> \<open>Prelude\<close>: characters, searches of \<open>std::string\<close>, decimal numerals, errors as sums. \<open>Std_Map\<close>: \<open>std::map\<close>
    as a sorted association list, the locale \<open>std_map\<close> of insertions with its interpretations \<open>emplace\<close> and
    \<open>assign\<close>. \<open>Transition\<close>: reachable states and the locale \<open>step_invariant\<close>, interpreted for the ring
    buffer (\<open>io\<close>, \<open>fresh\<close>), the update manager (\<open>updates\<close>), the timer (\<open>timer\<close>) and the web system (\<open>web\<close>).
  \<^item> \<open>Tools\<close>, \<open>Tools_Text\<close>: \<open>util/tools.cc\<close>; loops over positions are proved equal to one-pass references.
  \<^item> \<open>Search_Lexer\<close>, \<open>Search_Parser\<close>: \<open>database/search_handler.cc\<close>, tokens and trees, with fuel for the parser
    because one input makes it loop; \<open>Search_Grammar\<close>: the grammar of criteria, its printer, and that lexing
    and parsing undo printing with the fuel the length of the text gives; \<open>Column_Mapper\<close>, \<open>Search_Emitter\<close>: the
    emitter; \<open>Search_SQL\<close>, \<open>Search_Injection\<close>: the composition, and that values stay inside literals;
    \<open>Search_Sort\<close>: the sort criteria of a request and what of them can reach the statement.
  \<^item> \<open>IO_Buffer\<close>: \<open>iohandler/io_handler_buffer_helper.cc\<close> and \<open>buffered_io_handler.cc\<close>; \<open>IO_Threads\<close>: reader and
    thread as a step relation; \<open>IO_Seek\<close>: seeking; \<open>IO_Curl\<close>: \<open>iohandler/curl_io_handler.cc\<close>, the locale
    \<open>byte_ring\<close> of a ring that refines a queue of bytes, with the interpretations \<open>chunk_ring\<close> and
    \<open>curl_ring\<close>.
  \<^item> \<open>Update_Manager\<close>: \<open>content/update_manager.cc\<close>, the calls that report changes, the sending thread, and the
    calls that let the thread in halfway, as a step relation; the database, the clock and the server are its
    environment.
  \<^item> \<open>Timer\<close>: \<open>util/timer.cc\<close>, the list of subscribers, the scan of \<open>notify\<close>, and the waits of the thread.
  \<^item> \<open>URL_Utils\<close>, \<open>URL_Props\<close>, \<open>URL_Paths\<close>: \<open>util/url_utils.cc\<close>, escaping, dictionaries, paths and URIs.
  \<^item> \<open>CDS_Enums\<close>, \<open>CDS_Flags\<close>, \<open>Metadata\<close>, \<open>CDS_Resource\<close>, \<open>CDS_Objects\<close>, \<open>CDS_Props\<close>: \<open>cds/\<close> and
    \<open>metadata/metadata_enums.h\<close>. The class hierarchy is one record whose field \<open>part\<close> holds the members of the
    subclass; a wrong cast and a read past the end are results (\<open>None\<close>), and the theorems say when they do
    not or do happen.
  \<^item> \<open>Flag_Words\<close>: flag words printed as labels and a hexadecimal rest, the locale \<open>flag_words\<close> with its round trip,
    interpreted for the flags of objects (\<open>object_flags\<close>), media types (\<open>media_types\<close>), quirks (\<open>quirks\<close>)
    and event masks (\<open>inotify_flags\<close>).
  \<^item> \<open>Grb_Fs\<close>: the test for a subdirectory of \<open>util/grb_fs.cc\<close>. \<open>Autoscan\<close>, \<open>Autoscan_Dir\<close>, \<open>Autoscan_Scan\<close>:
    \<open>config/result/autoscan.cc\<close>, a watched directory, the content it takes, the bookkeeping of its scans.
    \<open>Autoscan_List\<close>, \<open>Autoscan_List_Props\<close>: \<open>config/result/edit_helper.h\<close> and \<open>content/autoscan_list.cc\<close> over a heap
    of shared directories and timer parameters; \<open>Autoscan_Watch\<close>: runs of the list's operations and the
    subscriptions, on the subscribers of the model of the timer.
  \<^item> \<open>Content_Tasks\<close>, \<open>Content_Worker\<close>, \<open>Content_Counts\<close>: the tasks of \<open>content/content_manager.cc\<close> and
    \<open>content/cm_task.cc\<close>, the thread among the callers as a step relation (interpretation \<open>worker\<close>), and the counts
    that hold back the periodic scans.
    \<open>Autoscan_Edit\<close>: adding, editing and removing watched directories through the web pages.
  \<^item> \<open>Inotify_Types\<close>, \<open>Inotify_Watches\<close>, \<open>Inotify_Handler\<close>, \<open>Inotify_Thread\<close>: \<open>content/inotify/\<close>, the masks of events,
    the table of watched directories and the thread that sets watches and handles events. \<open>Inotify_Table\<close>: the locale
    \<open>state_order\<close> of a preorder on states with its rules for sequencing, the interpretation \<open>kept\<close>, and the
    invariant of the table; \<open>Inotify_Props\<close>: what is watched for a start point, and which calls return.
  \<^item> \<open>Client_Config\<close>: \<open>config/result/client_config.cc\<close> and \<open>upnp/clients.h\<close>, quirks and profiles of clients;
    \<open>Grb_Net\<close>: \<open>util/grb_net.cc\<close>, addresses under a prefix length; \<open>Client_Manager\<close>, \<open>Client_Cache\<close>:
    \<open>upnp/client_manager.cc\<close>, recognition of clients, the cache of observations and the pointers it keeps.
  \<^item> \<open>Sessions\<close>, \<open>Web_Auth\<close>, \<open>Web_Safety\<close>: \<open>web/session_manager.cc\<close>, \<open>web/auth.cc\<close> and the check of
    \<open>web/page_request.cc\<close>. The manager works on the subscribers of the model of the timer, so that no error of
    the timer can reach a request is proved across the two components.

  \<^bold>\<open>What is shown.\<close> Round trips (criteria, quoted values, dictionaries, paths, URIs, flags, names),
  refinement of the ring by a queue, equivalence of loops and comparisons with references, invariants of the
  threads and of the web system by rule induction over steps, error cases as exact case distinctions, and the
  defects found, each as a theorem about the code as it is.

  \<^bold>\<open>Bounds and fuel.\<close> Positions are natural numbers (strings stay below \<open>2^63\<close> bytes); identifiers and times are
  integers; flag words, task numbers and object types are 32-bit words; positions of a seek wrap at 64 bits. The parser
  takes fuel; \<open>Search_SQL\<close> shows which fuel is enough for every printed criterion. So do the calls that set watches,
  which recurse through the file system; \<open>Inotify_Props\<close> shows that the names of a path and two calls are enough
  when the existing directories can be watched.

  \<^bold>\<open>Parameters.\<close> Literal quoting of the database, MD5, random identifiers, the clock, the order of an unordered
  set, texts of addresses, the growth of a vector, what the database answers about watched directories,
  \<open>operator==\<close> of paths and the test for a regular file, and the word an undefined shift gives; for the watches, the
  answers of the kernel, the file system and the database, each question numbered so that answers may change.

  \<^bold>\<open>Not modelled.\<close> Code that drives libraries outside the repository (SQL clients, media libraries, libupnp,
  pugixml, jsoncpp, the script engine, FFmpeg), configuration tables, XML and JSON replies, floating-point
  formatting and calendars. What the body of a task does to the library is the environment of the thread. Requests
  to the web pages are taken one after another.
\<close>

end
